(* ===== verification/Conn_Prelude.thy ===== *)
theory Conn_Prelude
  imports Main "HOL-Library.List_Lexorder" "HOL-Library.Char_ord"
begin

text \<open>
  The prelude of the development: what the components use of Rust and of its standard library.

  \<^item> A fallible function returns \<open>'e + 'a\<close>, with \<open>Inl\<close> for Rust's \<open>Err\<close> and \<open>Inr\<close> for \<open>Ok\<close>;
    \<open>result_bind\<close> is the question-mark operator.
  \<^item> \<open>u64\<close>, \<open>usize\<close> and \<open>Duration\<close> values are \<open>nat\<close>s; where the source saturates or casts, the
    operation is written out (\<open>sat_add64\<close>, \<open>sat_mul64\<close>, \<open>as_i64\<close>, \<open>as_u64\<close>).
  \<^item> \<open>str\<close> is its UTF-8 byte sequence, a \<open>string\<close>: \<open>length\<close> is Rust's \<open>len()\<close>, and \<open>utf8_chars\<close> is
    \<open>chars()\<close>.
  \<^item> A SQL table is the list of its rows; \<open>sql_update\<close> and \<open>sql_count\<close> are \<open>UPDATE .. WHERE\<close>
    and \<open>SELECT COUNT(*) .. WHERE\<close>.
\<close>

named_theorems conn_defs \<open>definitions unfolded when a component is evaluated\<close>
named_theorems row_simps \<open>how a table operation acts on one row\<close>

section \<open>Results\<close>

definition result_bind :: "'e + 'a \<Rightarrow> ('a \<Rightarrow> 'e + 'b) \<Rightarrow> 'e + 'b" where
  "result_bind r f = (case r of Inl e \<Rightarrow> Inl e | Inr a \<Rightarrow> f a)"

lemma result_bind_simps [simp]:
  "result_bind (Inl e) f = Inl e"
  "result_bind (Inr a) f = f a"
  by (simp_all add: result_bind_def)

lemma result_bind_eq_Inr_iff:
  "result_bind r f = Inr b \<longleftrightarrow> (\<exists>a. r = Inr a \<and> f a = Inr b)"
  by (cases r) auto

lemma result_bind_eq_Inl_iff:
  "result_bind r f = Inl e \<longleftrightarrow> r = Inl e \<or> (\<exists>a. r = Inr a \<and> f a = Inl e)"
  by (cases r) auto

definition ok_or :: "'e \<Rightarrow> 'a option \<Rightarrow> 'e + 'a" where
  "ok_or e x = (case x of None \<Rightarrow> Inl e | Some a \<Rightarrow> Inr a)"

lemma ok_or_simps [simp]:
  "ok_or e None = Inl e"
  "ok_or e (Some a) = Inr a"
  by (simp_all add: ok_or_def)

lemma ok_or_eq_Inr_iff [simp]: "ok_or e x = Inr a \<longleftrightarrow> x = Some a"
  by (cases x) auto

section \<open>Machine integers\<close>

definition u64_max :: nat where
  "u64_max = 18446744073709551615"

definition sat_add64 :: "nat \<Rightarrow> nat \<Rightarrow> nat" where
  "sat_add64 a b = min (a + b) u64_max"

definition sat_mul64 :: "nat \<Rightarrow> nat \<Rightarrow> nat" where
  "sat_mul64 a b = min (a * b) u64_max"

definition u32_max :: nat where
  "u32_max = 4294967295"

definition sat_add32 :: "nat \<Rightarrow> nat \<Rightarrow> nat" where
  "sat_add32 a b = min (a + b) u32_max"

definition wrap_add64 :: "nat \<Rightarrow> nat \<Rightarrow> nat" where
  "wrap_add64 a b = (a + b) mod 2 ^ 64"

definition wrap_sub64 :: "nat \<Rightarrow> nat \<Rightarrow> nat" where
  "wrap_sub64 a b = nat ((int a - int b) mod 2 ^ 64)"

text \<open>The casts \<open>as i64\<close> of a \<open>u64\<close> and \<open>as u64\<close> of an \<open>i64\<close>: two's complement.\<close>

definition as_i64 :: "nat \<Rightarrow> int" where
  "as_i64 n = (if n < 2 ^ 63 then int n else int n - 2 ^ 64)"

definition as_u64 :: "int \<Rightarrow> nat" where
  "as_u64 i = nat (i mod 2 ^ 64)"

lemma sat_add64_small: "a + b \<le> u64_max \<Longrightarrow> sat_add64 a b = a + b"
  by (simp add: sat_add64_def)

lemma sat_add64_mono: "a \<le> a' \<Longrightarrow> sat_add64 a b \<le> sat_add64 a' b"
  by (simp add: sat_add64_def min_le_iff_disj)

lemma as_i64_small: "n < 2 ^ 63 \<Longrightarrow> as_i64 n = int n"
  by (simp add: as_i64_def)

lemma as_u64_of_nat: "n < 2 ^ 64 \<Longrightarrow> as_u64 (int n) = n"
  by (simp add: as_u64_def)

lemma as_u64_as_i64: "n < 2 ^ 64 \<Longrightarrow> as_u64 (as_i64 n) = n"
  by (auto simp: as_u64_def as_i64_def)

section \<open>Bytes and strings\<close>

definition byte :: "char \<Rightarrow> nat" where
  "byte c = of_char c"

definition is_ascii_digit :: "char \<Rightarrow> bool" where
  "is_ascii_digit c \<longleftrightarrow> 48 \<le> byte c \<and> byte c \<le> 57"

definition is_ascii_lowercase :: "char \<Rightarrow> bool" where
  "is_ascii_lowercase c \<longleftrightarrow> 97 \<le> byte c \<and> byte c \<le> 122"

definition is_ascii_uppercase :: "char \<Rightarrow> bool" where
  "is_ascii_uppercase c \<longleftrightarrow> 65 \<le> byte c \<and> byte c \<le> 90"

definition is_ascii_alphanumeric :: "char \<Rightarrow> bool" where
  "is_ascii_alphanumeric c \<longleftrightarrow> is_ascii_digit c \<or> is_ascii_lowercase c \<or> is_ascii_uppercase c"

text \<open>The lower-case hexadecimal digits, \<open>b'0'..=b'9' | b'a'..=b'f'\<close>.\<close>

definition is_lower_hex :: "char \<Rightarrow> bool" where
  "is_lower_hex c \<longleftrightarrow> is_ascii_digit c \<or> (97 \<le> byte c \<and> byte c \<le> 102)"

lemmas ascii_defs [conn_defs] =
  byte_def is_ascii_digit_def is_ascii_lowercase_def is_ascii_uppercase_def
  is_ascii_alphanumeric_def is_lower_hex_def

definition starts_with :: "string \<Rightarrow> string \<Rightarrow> bool" where
  "starts_with p s \<longleftrightarrow> take (length p) s = p"

definition ends_with :: "string \<Rightarrow> string \<Rightarrow> bool" where
  "ends_with p s \<longleftrightarrow> starts_with (rev p) (rev s)"

definition strip_prefix :: "string \<Rightarrow> string \<Rightarrow> string option" where
  "strip_prefix p s = (if starts_with p s then Some (drop (length p) s) else None)"

definition strip_suffix :: "string \<Rightarrow> string \<Rightarrow> string option" where
  "strip_suffix p s = (if ends_with p s then Some (take (length s - length p) s) else None)"

lemma starts_with_append [simp]: "starts_with p (p @ s)"
  by (simp add: starts_with_def)

lemma strip_prefix_append [simp]: "strip_prefix p (p @ s) = Some s"
  by (simp add: strip_prefix_def)

lemma ends_with_append [simp]: "ends_with p (s @ p)"
  by (simp add: ends_with_def starts_with_def)

lemma starts_withD:
  assumes "starts_with p s"
  shows "s = p @ drop (length p) s"
proof -
  have "s = take (length p) s @ drop (length p) s" by (rule append_take_drop_id [symmetric])
  also have "take (length p) s = p" using assms by (simp only: starts_with_def)
  finally show ?thesis .
qed

lemma ends_withD:
  assumes "ends_with p s"
  shows "\<exists>q. s = q @ p"
proof -
  have "rev s = rev p @ drop (length (rev p)) (rev s)"
    using assms by (simp only: ends_with_def) (rule starts_withD)
  then have "rev (rev s) = rev (drop (length (rev p)) (rev s)) @ rev (rev p)"
    by (metis rev_append)
  then show ?thesis by auto
qed

text \<open>\<open>str::contains\<close>.\<close>

fun contains :: "string \<Rightarrow> string \<Rightarrow> bool" where
  "contains p [] = (p = [])"
| "contains p (c # s) = (starts_with p (c # s) \<or> contains p s)"

lemma strip_suffix_append [simp]: "strip_suffix p (s @ p) = Some s"
  by (simp add: strip_suffix_def)

text \<open>\<open>str::split_once\<close> and \<open>str::splitn\<close> on a one-byte separator.\<close>

definition split_once :: "char \<Rightarrow> string \<Rightarrow> (string \<times> string) option" where
  "split_once d s =
     (if d \<in> set s
      then Some (takeWhile (\<lambda>c. c \<noteq> d) s, tl (dropWhile (\<lambda>c. c \<noteq> d) s))
      else None)"

fun splitn :: "nat \<Rightarrow> char \<Rightarrow> string \<Rightarrow> string list" where
  "splitn 0 d s = []"
| "splitn (Suc 0) d s = [s]"
| "splitn (Suc (Suc n)) d s =
     (case split_once d s of None \<Rightarrow> [s] | Some (a, b) \<Rightarrow> a # splitn (Suc n) d b)"

lemma split_once_append:
  assumes "d \<notin> set a"
  shows "split_once d (a @ d # b) = Some (a, b)"
proof -
  have "\<forall>x \<in> set a. x \<noteq> d" using assms by auto
  then show ?thesis
    by (simp add: split_once_def takeWhile_append2 dropWhile_append2)
qed

lemma split_once_SomeD:
  assumes "split_once d s = Some (a, b)"
  shows "s = a @ d # b \<and> d \<notin> set a"
proof -
  from assms have d: "d \<in> set s" and a: "a = takeWhile (\<lambda>c. c \<noteq> d) s"
    and b: "b = tl (dropWhile (\<lambda>c. c \<noteq> d) s)"
    by (auto simp: split_once_def split: if_splits)
  from d obtain y ys where dw: "dropWhile (\<lambda>c. c \<noteq> d) s = y # ys"
    by (cases "dropWhile (\<lambda>c. c \<noteq> d) s") (auto simp: dropWhile_eq_Nil_conv)
  then have "y = d" by (simp add: dropWhile_eq_Cons_conv)
  with dw a b have "s = a @ d # b"
    by (metis list.sel(3) takeWhile_dropWhile_id)
  moreover have "d \<notin> set a" using a by (auto dest: set_takeWhileD)
  ultimately show ?thesis ..
qed

lemma splitn_step:
  "d \<notin> set a \<Longrightarrow> splitn (Suc (Suc n)) d (a @ d # b) = a # splitn (Suc n) d b"
  by (simp add: split_once_append)

lemma splitn_last: "d \<notin> set s \<Longrightarrow> splitn (Suc n) d s = [s]"
  by (cases n) (simp_all add: split_once_def)

text \<open>\<open>str::split\<close> on a one-byte separator, for \<open>env.split(',')\<close>.\<close>

fun split_on :: "char \<Rightarrow> string \<Rightarrow> string list" where
  "split_on d [] = [[]]"
| "split_on d (c # cs) =
     (if c = d then [] # split_on d cs
      else (case split_on d cs of [] \<Rightarrow> [[c]] | p # ps \<Rightarrow> (c # p) # ps))"

subsection \<open>Unicode scalars\<close>

definition is_utf8_cont :: "char \<Rightarrow> bool" where
  "is_utf8_cont c \<longleftrightarrow> 128 \<le> byte c \<and> byte c < 192"

text \<open>\<open>str::chars\<close>: one element per scalar value, each as its UTF-8 bytes.\<close>

function utf8_chars :: "string \<Rightarrow> string list" where
  "utf8_chars [] = []"
| "utf8_chars (c # cs) =
     (c # takeWhile is_utf8_cont cs) # utf8_chars (dropWhile is_utf8_cont cs)"
  by pat_completeness auto
termination
  by (relation "measure length") (auto simp: length_dropWhile_le less_Suc_eq_le)

lemma concat_utf8_chars [simp]: "concat (utf8_chars s) = s"
  by (induction s rule: utf8_chars.induct) simp_all

lemma length_utf8_chars_le: "length (utf8_chars s) \<le> length s"
proof (induction s rule: utf8_chars.induct)
  case (2 c cs)
  then show ?case
    using length_dropWhile_le [of is_utf8_cont cs] by simp
qed simp

text \<open>\<open>char::is_whitespace\<close> (the Unicode \<open>White_Space\<close> property) on the bytes of one scalar.\<close>

definition char_is_whitespace :: "string \<Rightarrow> bool" where
  "char_is_whitespace ch \<longleftrightarrow>
     (case map byte ch of
        [b] \<Rightarrow> (9 \<le> b \<and> b \<le> 13) \<or> b = 32
      | [b, c] \<Rightarrow> b = 194 \<and> (c = 133 \<or> c = 160)
      | [b, c, d] \<Rightarrow>
          (b = 225 \<and> c = 154 \<and> d = 128) \<or>
          (b = 226 \<and> c = 128 \<and> ((128 \<le> d \<and> d \<le> 138) \<or> d = 168 \<or> d = 169 \<or> d = 175)) \<or>
          (b = 226 \<and> c = 129 \<and> d = 159) \<or>
          (b = 227 \<and> c = 128 \<and> d = 128)
      | _ \<Rightarrow> False)"

definition str_trim :: "string \<Rightarrow> string" where
  "str_trim s =
     concat (rev (dropWhile char_is_whitespace
       (rev (dropWhile char_is_whitespace (utf8_chars s)))))"

subsection \<open>Decimal numbers\<close>

fun show_nat :: "nat \<Rightarrow> string" where
  "show_nat n =
     (if n < 10 then [char_of (48 + n)]
      else show_nat (n div 10) @ [char_of (48 + n mod 10)])"

declare show_nat.simps [simp del]

definition parse_digits :: "string \<Rightarrow> nat option" where
  "parse_digits s =
     (if s \<noteq> [] \<and> list_all is_ascii_digit s
      then Some (foldl (\<lambda>a c. 10 * a + (byte c - 48)) 0 s)
      else None)"

text \<open>\<open>str::parse\<close> for an unsigned type with maximum \<open>hi\<close>: an optional plus sign, then digits.\<close>

definition parse_unsigned :: "nat \<Rightarrow> string \<Rightarrow> nat option" where
  "parse_unsigned hi s =
     (let ds = (case s of c # cs \<Rightarrow> if c = CHR ''+'' then cs else s | [] \<Rightarrow> s)
      in case parse_digits ds of
           None \<Rightarrow> None
         | Some n \<Rightarrow> if n \<le> hi then Some n else None)"

text \<open>\<open>str::parse::<i64>\<close>: an optional sign, then digits, within the range of \<open>i64\<close>.\<close>

definition parse_i64 :: "string \<Rightarrow> int option" where
  "parse_i64 s =
     (case s of
        [] \<Rightarrow> None
      | c # cs \<Rightarrow>
          if c = CHR ''-'' then
            (case parse_digits cs of
               None \<Rightarrow> None
             | Some n \<Rightarrow> if n \<le> 2 ^ 63 then Some (- int n) else None)
          else
            (case parse_digits (if c = CHR ''+'' then cs else s) of
               None \<Rightarrow> None
             | Some n \<Rightarrow> if n < 2 ^ 63 then Some (int n) else None))"

lemma byte_char_of_digit: "d < 10 \<Longrightarrow> byte (char_of (48 + d)) = 48 + d"
  by (simp add: byte_def)

lemma is_digit_char_of: "(d :: nat) < 10 \<Longrightarrow> is_ascii_digit (char_of (48 + d))"
  by (simp add: is_ascii_digit_def byte_char_of_digit)

lemma show_nat_nonempty [simp]: "show_nat n \<noteq> []"
  by (subst show_nat.simps) simp

lemma show_nat_digits: "list_all is_ascii_digit (show_nat n)"
proof (induction n rule: show_nat.induct)
  case (1 n)
  then show ?case
    by (subst show_nat.simps) (auto simp: is_digit_char_of)
qed

lemma show_nat_value:
  "foldl (\<lambda>a c. 10 * a + (byte c - 48)) 0 (show_nat n) = n"
proof (induction n rule: show_nat.induct)
  case (1 n)
  then show ?case
    by (subst show_nat.simps) (auto simp: byte_char_of_digit)
qed

lemma parse_digits_show_nat [simp]: "parse_digits (show_nat n) = Some n"
  by (simp add: parse_digits_def show_nat_digits show_nat_value)

lemma is_ascii_digit_not_sign: "is_ascii_digit c \<Longrightarrow> c \<noteq> CHR ''+'' \<and> c \<noteq> CHR ''-'' \<and> c \<noteq> CHR '':''"
  by (auto simp: is_ascii_digit_def byte_def)

lemma parse_i64_show_nat:
  assumes "n < 2 ^ 63"
  shows "parse_i64 (show_nat n) = Some (int n)"
proof (cases "show_nat n")
  case Nil
  then show ?thesis by simp
next
  case (Cons c cs)
  then have "is_ascii_digit c"
    using show_nat_digits [of n] by simp
  then have "c \<noteq> CHR ''+''" "c \<noteq> CHR ''-''"
    by (auto dest: is_ascii_digit_not_sign)
  then show ?thesis
    using assms Cons parse_digits_show_nat [of n] by (simp add: parse_i64_def)
qed

lemma show_nat_no_colon: "CHR '':'' \<notin> set (show_nat n)"
  using show_nat_digits [of n] by (auto simp: list_all_iff dest: is_ascii_digit_not_sign)

section \<open>Tables\<close>

definition sql_update :: "('r \<Rightarrow> bool) \<Rightarrow> ('r \<Rightarrow> 'r) \<Rightarrow> 'r list \<Rightarrow> 'r list" where
  "sql_update p f t = map (\<lambda>r. if p r then f r else r) t"

definition sql_count :: "('r \<Rightarrow> bool) \<Rightarrow> 'r list \<Rightarrow> nat" where
  "sql_count p t = length (filter p t)"

lemma length_sql_update [simp]: "length (sql_update p f t) = length t"
  by (simp add: sql_update_def)

lemma sql_update_Nil [simp]: "sql_update p f [] = []"
  by (simp add: sql_update_def)

lemma sql_update_Cons [simp]:
  "sql_update p f (r # t) = (if p r then f r else r) # sql_update p f t"
  by (simp add: sql_update_def)

lemma sql_count_Nil [simp]: "sql_count p [] = 0"
  by (simp add: sql_count_def)

lemma sql_count_Cons [simp]:
  "sql_count p (r # t) = (if p r then Suc (sql_count p t) else sql_count p t)"
  by (simp add: sql_count_def)

lemma set_sql_update: "set (sql_update p f t) = (\<lambda>r. if p r then f r else r) ` set t"
  by (simp add: sql_update_def)

lemma sql_update_memE:
  assumes "m \<in> set (sql_update p f t)"
  obtains r where "r \<in> set t" "p r" "m = f r" | "m \<in> set t" "\<not> p m"
  using assms by (auto simp: set_sql_update split: if_splits)

lemma sql_update_keys:
  "(\<And>r. key (f r) = key r) \<Longrightarrow> map key (sql_update p f t) = map key t"
  by (simp add: sql_update_def)

lemma sql_count_0_iff: "sql_count p t = 0 \<longleftrightarrow> (\<forall>r \<in> set t. \<not> p r)"
  by (simp add: sql_count_def filter_empty_conv)

lemma sql_update_none: "sql_count p t = 0 \<Longrightarrow> sql_update p f t = t"
  by (induction t) (auto split: if_splits)

lemma sql_count_mono: "(\<And>r. r \<in> set t \<Longrightarrow> p r \<Longrightarrow> q r) \<Longrightarrow> sql_count p t \<le> sql_count q t"
  by (induction t) (auto simp: le_SucI)

lemma sql_count_le_length: "sql_count p t \<le> length t"
  by (simp add: sql_count_def)

text \<open>A primary key makes a lookup by key pick the one row.\<close>

lemma find_by_key:
  assumes "distinct (map key t)" and "r \<in> set t"
  shows "find (\<lambda>x. key x = key r) t = Some r"
  using assms by (induction t) (auto simp: image_iff)

lemma find_Some_in: "find p t = Some r \<Longrightarrow> r \<in> set t \<and> p r"
  by (induction t) (auto split: if_splits)

lemma find_None_notin: "find p t = None \<Longrightarrow> r \<in> set t \<Longrightarrow> \<not> p r"
  by (induction t) (auto split: if_splits)

lemma sql_count_key_le:
  assumes "distinct (map key t)"
    and key: "\<And>x. x \<in> set t \<Longrightarrow> p x \<Longrightarrow> key x = k"
  shows "sql_count p t \<le> 1"
  using assms
proof (induction t)
  case (Cons x t)
  show ?case
  proof (cases "p x")
    case True
    then have "key x = k" using Cons.prems(2) by simp
    have "\<not> p r" if "r \<in> set t" for r
    proof
      assume "p r"
      with that have "key r = k" by (intro Cons.prems(2)) simp_all
      with \<open>key x = k\<close> that Cons.prems(1) show False
        by (metis distinct.simps(2) imageI list.simps(9) list.set_map)
    qed
    then have "sql_count p t = 0" by (simp add: sql_count_0_iff)
    with True show ?thesis by simp
  next
    case False
    with Cons show ?thesis by simp
  qed
qed simp

lemma sql_count_key:
  assumes "distinct (map key t)" and "r \<in> set t" and "p r"
    and "\<And>x. x \<in> set t \<Longrightarrow> p x \<Longrightarrow> key x = key r"
  shows "sql_count p t = 1"
proof -
  have "sql_count p t \<noteq> 0" using assms(2,3) by (auto simp: sql_count_0_iff)
  moreover have "sql_count p t \<le> 1" by (rule sql_count_key_le [OF assms(1,4)])
  ultimately show ?thesis by linarith
qed

lemma sql_count_update_le:
  "(\<And>r. r \<in> set t \<Longrightarrow> p r \<Longrightarrow> q (f r) \<Longrightarrow> q r) \<Longrightarrow> sql_count q (sql_update p f t) \<le> sql_count q t"
  by (induction t) (auto simp: le_SucI)

lemma sql_count_update_split:
  "sql_count q (sql_update p f t) \<le> sql_count (\<lambda>r. q r \<and> \<not> p r) t + sql_count p t"
  by (induction t) auto

lemma sql_count_filter_le: "sql_count q (filter p t) \<le> sql_count q t"
  by (induction t) auto

lemma sql_count_append [simp]: "sql_count p (t @ u) = sql_count p t + sql_count p u"
  by (simp add: sql_count_def)

text \<open>Two updates in a row of the one row with a given key are one update.\<close>

lemma sql_update_compose:
  assumes "\<And>r. r \<in> set t \<Longrightarrow> p r \<Longrightarrow> q (f r)" and "\<And>r. r \<in> set t \<Longrightarrow> \<not> p r \<Longrightarrow> \<not> q r"
  shows "sql_update q g (sql_update p f t) = sql_update p (\<lambda>r. g (f r)) t"
  using assms by (induction t) auto

lemma key_unique:
  assumes "distinct (map key t)" and "x \<in> set t" and "y \<in> set t" and "key x = key y"
  shows "x = y"
  using assms by (meson inj_on_def distinct_map)

lemma sql_update_one:
  assumes "distinct (map key t)" and "x \<in> set t" and "p x"
    and "\<And>r. p r \<Longrightarrow> key r = key x"
  shows "sql_update p f t = map (\<lambda>r. if r = x then f x else r) t"
  unfolding sql_update_def
proof (rule map_cong [OF refl])
  fix r
  assume r: "r \<in> set t"
  show "(if p r then f r else r) = (if r = x then f x else r)"
  proof (cases "p r")
    case True
    then have "r = x" using key_unique [OF assms(1) r assms(2)] assms(4) by blast
    with True show ?thesis by simp
  next
    case False
    with assms(3) show ?thesis by auto
  qed
qed

text \<open>One keyed update per scanned row: each row of the scan gets its own update, once.\<close>

lemma fold_keyed_update:
  assumes "distinct (map key t)" "distinct (map key rows)" "set rows \<subseteq> set t"
    and key: "\<And>r m. key (f r m) = key m"
  shows "fold (\<lambda>r. sql_update (\<lambda>m. key m = key r) (f r)) rows t =
     map (\<lambda>m. if m \<in> set rows then f m m else m) t"
  using assms(1-3)
proof (induction rows arbitrary: t)
  case (Cons x rows)
  let ?t = "map (\<lambda>m. if m = x then f x x else m) t"
  have x: "x \<in> set t" "x \<notin> set rows" using Cons.prems by (auto simp: image_iff)
  have notin: "f x x \<notin> set rows"
    using Cons.prems(2) key by (metis distinct.simps(2) image_eqI list.simps(9) list.set_map)
  have step: "sql_update (\<lambda>m. key m = key x) (f x) t = ?t"
    by (rule sql_update_one [of key]) (use Cons.prems(1) x in auto)
  have ids: "map key ?t = map key t" using key by auto
  have "fold (\<lambda>r. sql_update (\<lambda>m. key m = key r) (f r)) rows ?t =
      map (\<lambda>m. if m \<in> set rows then f m m else m) ?t"
  proof (rule Cons.IH)
    show "distinct (map key ?t)" unfolding ids by (rule Cons.prems(1))
    show "set rows \<subseteq> set ?t" using Cons.prems(3) x(2) by (auto simp: image_iff)
  qed (use Cons.prems in auto)
  then show ?case using step notin x(2) by simp
qed simp

text \<open>An enumeration without repetition of all positions shows that a list has no repetition.\<close>

lemma distinct_by_order:
  assumes d: "distinct (map ((!) xs) is)" and len: "length is = length xs" and lt: "\<forall>i \<in> set is. i < length xs"
  shows "distinct xs"
proof -
  have "card (set is) = length xs" using d len by (metis distinct_card distinct_map)
  with lt have "set is = {..<length xs}" by (intro card_subset_eq) auto
  with d have "inj_on ((!) xs) {..<length xs}" by (simp add: distinct_map)
  then show ?thesis by (auto simp: distinct_conv_nth inj_on_def)
qed

section \<open>Association lists and maps\<close>

text \<open>Counts in a map from keys to a number, as \<open>*entry().or_default() += 1\<close> writes them.\<close>

definition map_count :: "('k \<rightharpoonup> nat) \<Rightarrow> 'k \<Rightarrow> nat" where
  "map_count m k = (case m k of None \<Rightarrow> 0 | Some n \<Rightarrow> n)"

lemma map_count_upd [simp]:
  "map_count (m(k \<mapsto> n)) j = (if j = k then n else map_count m j)"
  by (simp add: map_count_def)

lemma map_count_del [simp]:
  "map_count (m(k := None)) j = (if j = k then 0 else map_count m j)"
  by (simp add: map_count_def)

lemma map_count_empty [simp]: "map_count Map.empty k = 0"
  by (simp add: map_count_def)

section \<open>Shared limits\<close>

text \<open>The account ceiling of one engine (\<open>src/groups.rs\<close>).\<close>

definition MAX_ACCOUNTS_PER_ENGINE :: nat where "MAX_ACCOUNTS_PER_ENGINE = 8"

end
