(* ===== verification/Json_Value.thy ===== *)
theory Json_Value
  imports Conn_Prelude
begin

text \<open>
  \<open>serde_json::Value\<close>, as the host protocol, the sidecar records and the metrics projection use it.
  \<open>Number\<close> keeps its three representations; a float is its 64-bit pattern. \<open>Map\<close> is serde's default
  ordered map: an association list with strictly increasing keys (\<open>obj_ok\<close>), which \<open>obj_insert\<close> keeps.
\<close>

datatype jnum = PosInt nat | NegInt int | JFloat nat

datatype json =
    JNull
  | JBool bool
  | JNum jnum
  | JStr string
  | JArr "json list"
  | JObj "(string \<times> json) list"

fun as_object :: "json \<Rightarrow> (string \<times> json) list option" where
  "as_object (JObj m) = Some m"
| "as_object _ = None"

fun as_array :: "json \<Rightarrow> json list option" where
  "as_array (JArr xs) = Some xs"
| "as_array _ = None"

fun as_str :: "json \<Rightarrow> string option" where
  "as_str (JStr s) = Some s"
| "as_str _ = None"

fun as_bool :: "json \<Rightarrow> bool option" where
  "as_bool (JBool b) = Some b"
| "as_bool _ = None"

fun json_as_u64 :: "json \<Rightarrow> nat option" where
  "json_as_u64 (JNum (PosInt n)) = Some n"
| "json_as_u64 _ = None"

definition is_object :: "json \<Rightarrow> bool" where
  "is_object v \<longleftrightarrow> as_object v \<noteq> None"

definition is_u64 :: "json \<Rightarrow> bool" where
  "is_u64 v \<longleftrightarrow> json_as_u64 v \<noteq> None"

text \<open>\<open>Value::get\<close> with a string index: absent on everything but an object.\<close>

definition json_get :: "json \<Rightarrow> string \<Rightarrow> json option" where
  "json_get v k = (case as_object v of None \<Rightarrow> None | Some m \<Rightarrow> map_of m k)"

fun obj_insert :: "string \<Rightarrow> json \<Rightarrow> (string \<times> json) list \<Rightarrow> (string \<times> json) list" where
  "obj_insert k v [] = [(k, v)]"
| "obj_insert k v ((k', v') # m) =
     (if k < k' then (k, v) # (k', v') # m
      else if k = k' then (k, v) # m
      else (k', v') # obj_insert k v m)"

definition obj_ok :: "(string \<times> json) list \<Rightarrow> bool" where
  "obj_ok m \<longleftrightarrow> sorted_wrt (<) (map fst m)"

lemma map_of_obj_insert [simp]: "map_of (obj_insert k v m) = (map_of m)(k \<mapsto> v)"
  by (induction k v m rule: obj_insert.induct) (auto simp: fun_upd_twist)

lemma keys_obj_insert: "set (map fst (obj_insert k v m)) = insert k (set (map fst m))"
  by (induction k v m rule: obj_insert.induct) auto

lemma obj_ok_Nil [simp]: "obj_ok []"
  by (simp add: obj_ok_def)

lemma obj_ok_obj_insert: "obj_ok m \<Longrightarrow> obj_ok (obj_insert k v m)"
proof (induction k v m rule: obj_insert.induct)
  case (2 k v k' v' m)
  have ok: "obj_ok m" "\<forall>x \<in> set (map fst m). k' < x"
    using "2.prems" by (auto simp: obj_ok_def)
  show ?case
  proof (cases "k < k'")
    case True
    with ok show ?thesis by (auto simp: obj_ok_def intro: less_trans)
  next
    case False
    show ?thesis
    proof (cases "k = k'")
      case True
      with ok show ?thesis by (auto simp: obj_ok_def)
    next
      case neq: False
      with False have "k' < k" by (simp add: less_le_not_le linear)
      moreover have "obj_ok (obj_insert k v m)"
        using False neq ok "2.IH" by simp
      ultimately show ?thesis
        using False neq ok keys_obj_insert [of k v m]
        by (auto simp: obj_ok_def)
    qed
  qed
qed (simp add: obj_ok_def)

lemma obj_ok_distinct: "obj_ok m \<Longrightarrow> distinct (map fst m)"
  by (simp add: obj_ok_def strict_sorted_iff)

end
