(* ===== verification/Host_Protocol.thy ===== *)
theory Host_Protocol
  imports Json_Value
begin

text \<open>
  The host wire protocol: the NDJSON envelopes of \<open>src/protocol.rs\<close>, the opaque identifiers of
  \<open>src/ids.rs\<close> and the device-link session of \<open>src/link.rs\<close>. Random identifiers, the wall clock and
  SHA-256 are arguments of the definitions that use them.
\<close>

section \<open>Envelopes\<close>

definition API_VERSION :: string where
  "API_VERSION = ''1.0''"

definition MAX_REQUEST_ID_BYTES :: nat where
  "MAX_REQUEST_ID_BYTES = 128"

record host_request =
  req_api_version :: string
  req_request_id :: string
  req_method :: string
  req_params :: json

record api_error =
  err_code :: string
  err_message :: string
  err_retryable :: bool
  err_data :: "json option"

record host_response =
  resp_api_version :: string
  resp_request_id :: string
  resp_result :: "json option"
  resp_error :: "api_error option"

definition api_error_new :: "string \<Rightarrow> string \<Rightarrow> bool \<Rightarrow> api_error" where
  "api_error_new code message retryable =
     \<lparr>err_code = code, err_message = message, err_retryable = retryable, err_data = None\<rparr>"

definition api_error_with_data :: "string \<Rightarrow> string \<Rightarrow> json \<Rightarrow> api_error" where
  "api_error_with_data code message data =
     \<lparr>err_code = code, err_message = message,
      err_retryable =
        (case Option.bind (json_get data ''retryable'') as_bool of None \<Rightarrow> False | Some b \<Rightarrow> b),
      err_data = Some data\<rparr>"

definition validate_envelope :: "host_request \<Rightarrow> api_error + unit" where
  "validate_envelope r =
     (if req_api_version r \<noteq> API_VERSION then
        Inl (api_error_new ''UNSUPPORTED_VERSION'' ''only connector API 1.0 is supported'' False)
      else if req_request_id r = [] \<or> length (req_request_id r) > MAX_REQUEST_ID_BYTES then
        Inl (api_error_new ''INVALID_REQUEST''
               ''requestId must contain between 1 and 128 bytes'' False)
      else if \<not> is_object (req_params r) then
        Inl (api_error_new ''INVALID_REQUEST'' ''params must be an object'' False)
      else Inr ())"

definition response_success :: "string \<Rightarrow> json \<Rightarrow> host_response" where
  "response_success rid result =
     \<lparr>resp_api_version = API_VERSION, resp_request_id = rid,
      resp_result = Some result, resp_error = None\<rparr>"

definition response_failure :: "string \<Rightarrow> api_error \<Rightarrow> host_response" where
  "response_failure rid error =
     \<lparr>resp_api_version = API_VERSION, resp_request_id = rid,
      resp_result = None, resp_error = Some error\<rparr>"

definition api_error_display :: "api_error \<Rightarrow> string" where
  "api_error_display e = err_code e @ '': '' @ err_message e"

lemmas envelope_defs [conn_defs] =
  API_VERSION_def MAX_REQUEST_ID_BYTES_def api_error_new_def validate_envelope_def
  response_success_def response_failure_def

text \<open>Exactly one outcome: the two constructors of a response never fill both halves.\<close>

definition one_outcome :: "host_response \<Rightarrow> bool" where
  "one_outcome r \<longleftrightarrow> (resp_result r = None) \<noteq> (resp_error r = None)"

lemma one_outcome_success [simp]: "one_outcome (response_success rid v)"
  by (simp add: one_outcome_def response_success_def)

lemma one_outcome_failure [simp]: "one_outcome (response_failure rid e)"
  by (simp add: one_outcome_def response_failure_def)

lemma validate_envelope_ok_iff:
  "validate_envelope r = Inr () \<longleftrightarrow>
     req_api_version r = API_VERSION \<and>
     1 \<le> length (req_request_id r) \<and> length (req_request_id r) \<le> MAX_REQUEST_ID_BYTES \<and>
     is_object (req_params r)"
  by (auto simp: validate_envelope_def Suc_le_eq)

lemma validate_envelope_rejects_closed:
  "validate_envelope r = Inl e \<Longrightarrow>
     err_code e \<in> {''UNSUPPORTED_VERSION'', ''INVALID_REQUEST''} \<and> \<not> err_retryable e \<and> err_data e = None"
  by (auto simp: validate_envelope_def api_error_new_def split: if_splits)

section \<open>Identifiers\<close>

text \<open>\<open>stable_hash_id\<close> hashes the parts joined by one zero byte; \<open>sha256_hex\<close> stands for the hex digest.\<close>

fun stable_hash_input :: "string list \<Rightarrow> string" where
  "stable_hash_input [] = []"
| "stable_hash_input [p] = p"
| "stable_hash_input (p # q # ps) = p @ CHR 0x00 # stable_hash_input (q # ps)"

definition stable_hash_id :: "(string \<Rightarrow> string) \<Rightarrow> string list \<Rightarrow> string" where
  "stable_hash_id sha256_hex parts = sha256_hex (stable_hash_input parts)"

definition nul_free :: "string list \<Rightarrow> bool" where
  "nul_free parts \<longleftrightarrow> list_all (\<lambda>p. CHR 0x00 \<notin> set p) parts"

lemma stable_hash_input_inj:
  assumes "nul_free xs" "nul_free ys" "xs \<noteq> []" "ys \<noteq> []"
    and "stable_hash_input xs = stable_hash_input ys"
  shows "xs = ys"
  using assms
proof (induction xs arbitrary: ys rule: stable_hash_input.induct)
  case (2 p)
  then show ?case
    by (cases ys rule: stable_hash_input.cases) (auto simp: nul_free_def)
next
  case (3 p q ps)
  show ?case
  proof (cases ys rule: stable_hash_input.cases)
    case 1
    with "3.prems" show ?thesis by simp
  next
    case (2 p')
    with "3.prems" show ?thesis by (auto simp: nul_free_def)
  next
    case (3 p' q' ps')
    have nul: "CHR 0x00 \<notin> set p" "CHR 0x00 \<notin> set p'"
      using "3.prems"(1,2) \<open>ys = p' # q' # ps'\<close> by (auto simp: nul_free_def)
    have eq: "p @ CHR 0x00 # stable_hash_input (q # ps) = p' @ CHR 0x00 # stable_hash_input (q' # ps')"
      using "3.prems"(5) \<open>ys = p' # q' # ps'\<close> by simp
    from arg_cong [OF eq, of "split_once (CHR 0x00)"] nul
    have "p = p'" and rest: "stable_hash_input (q # ps) = stable_hash_input (q' # ps')"
      by (simp_all add: split_once_append)
    have "q # ps = q' # ps'"
      by (rule "3.IH") (use "3.prems"(1,2) rest \<open>ys = p' # q' # ps'\<close> in \<open>auto simp: nul_free_def\<close>)
    with \<open>p = p'\<close> \<open>ys = p' # q' # ps'\<close> show ?thesis by simp
  qed
qed simp

text \<open>\<open>mask_address\<close>: at most six scalars become stars, anything longer shows three and two.\<close>

definition mask_address :: "string \<Rightarrow> string" where
  "mask_address raw =
     (let chars = utf8_chars raw in
      if length chars \<le> 6 then replicate (max (length chars) 1) CHR ''*''
      else concat (take 3 chars) @ ''***'' @ concat (rev (take 2 (rev chars))))"

lemma mask_address_short:
  "length (utf8_chars raw) \<le> 6 \<Longrightarrow>
   mask_address raw = replicate (max (length (utf8_chars raw)) 1) CHR ''*''"
  by (simp add: mask_address_def)

lemma rev_take_rev: "rev (take n (rev xs)) = drop (length xs - n) xs"
  by (simp add: rev_take)

lemma mask_address_long:
  "6 < length (utf8_chars raw) \<Longrightarrow>
   mask_address raw =
     concat (take 3 (utf8_chars raw)) @ ''***'' @
     concat (drop (length (utf8_chars raw) - 2) (utf8_chars raw))"
  by (simp add: mask_address_def rev_take_rev Let_def)

section \<open>Device-link sessions\<close>

definition LINK_SESSION_TTL_MS :: nat where
  "LINK_SESSION_TTL_MS = 300000"

record active_link_session =
  ls_session_id :: string
  ls_device_name :: string
  ls_device_link_uri :: string
  ls_expires_at_ms :: nat

definition link_session_new :: "string \<Rightarrow> nat \<Rightarrow> string \<Rightarrow> string \<Rightarrow> nat \<Rightarrow> active_link_session" where
  "link_session_new random_id now_ms device_name device_link_uri ttl_ms =
     \<lparr>ls_session_id = random_id, ls_device_name = device_name,
      ls_device_link_uri = device_link_uri,
      ls_expires_at_ms = sat_add64 now_ms ttl_ms\<rparr>"

definition link_is_expired :: "active_link_session \<Rightarrow> nat \<Rightarrow> bool" where
  "link_is_expired s now \<longleftrightarrow> now \<ge> ls_expires_at_ms s"

definition link_qr_payload :: "active_link_session \<Rightarrow> string" where
  "link_qr_payload s = ls_device_link_uri s"

lemma link_session_live_window:
  assumes "now + LINK_SESSION_TTL_MS \<le> u64_max"
  shows "link_is_expired (link_session_new rid now dev uri LINK_SESSION_TTL_MS) t \<longleftrightarrow>
     now + LINK_SESSION_TTL_MS \<le> t"
  using assms by (simp add: link_is_expired_def link_session_new_def sat_add64_small)

section \<open>Properties\<close>

text \<open>
  An envelope passes \<open>validate_envelope\<close> exactly when the version is the supported one, the
  request id has between 1 and 128 bytes and the parameters are an object; a rejection is always one of
  the two closed codes, not retryable and without data.
\<close>

lemma envelope_validation_exact:
  "(validate_envelope r = Inr () \<longleftrightarrow>
      req_api_version r = API_VERSION \<and>
      1 \<le> length (req_request_id r) \<and> length (req_request_id r) \<le> MAX_REQUEST_ID_BYTES \<and>
      is_object (req_params r)) \<and>
   (case validate_envelope r of
      Inr _ \<Rightarrow> True
    | Inl e \<Rightarrow> err_code e \<in> {''UNSUPPORTED_VERSION'', ''INVALID_REQUEST''} \<and>
        err_retryable e = False \<and> err_data e = None)"
  using validate_envelope_ok_iff [of r] validate_envelope_rejects_closed [of r]
  by (auto split: sum.split)

text \<open>
  \<open>mask_address\<close> does not leak what it hides: two addresses of more than six scalars that agree
  on the first three and the last two scalars have the same mask, whatever lies between.
\<close>

lemma mask_address_hides_middle:
  assumes "6 < length (utf8_chars a)" and "6 < length (utf8_chars b)"
    and "take 3 (utf8_chars a) = take 3 (utf8_chars b)"
    and "drop (length (utf8_chars a) - 2) (utf8_chars a) =
         drop (length (utf8_chars b) - 2) (utf8_chars b)"
  shows "mask_address a = mask_address b"
  using assms by (simp add: mask_address_long)



end
