(* ===== verification/Bootstrap_Auth.thy ===== *)
theory Bootstrap_Auth
  imports Host_Protocol
begin

unbundle bit_operations_syntax

text \<open>
  \<open>src/auth.rs\<close> and the \<open>StoreKey\<close> of \<open>src/store.rs\<close>: the one-shot bootstrap payload and the
  challenge-response handshake. Byte arrays are \<open>string\<close>s. The \<open>hex\<close> and \<open>hmac\<close> crates and the random
  generator are arguments; \<open>hex_laws\<close> states what the code relies on of \<open>hex\<close>. What the operating
  system answers for the bootstrap path is the record \<open>boot_env\<close>. Zeroization of buffers is not
  observable in the model.
\<close>

section \<open>Hexadecimal codec\<close>

definition hex_laws :: "(string \<Rightarrow> string) \<Rightarrow> (string \<Rightarrow> string option) \<Rightarrow> bool" where
  "hex_laws hex_encode hex_decode \<longleftrightarrow>
     (\<forall>bs. length (hex_encode bs) = 2 * length bs \<and> list_all is_lower_hex (hex_encode bs) \<and>
           hex_decode (hex_encode bs) = Some bs) \<and>
     (\<forall>s. list_all is_lower_hex s \<and> even (length s) \<longrightarrow>
           (case hex_decode s of None \<Rightarrow> False | Some bs \<Rightarrow> hex_encode bs = s))"

definition SECRET_BYTES :: nat where "SECRET_BYTES = 32"
definition HEX_SECRET_BYTES :: nat where "HEX_SECRET_BYTES = SECRET_BYTES * 2"
definition PAYLOAD_BYTES :: nat where "PAYLOAD_BYTES = HEX_SECRET_BYTES * 2 + 1"
definition STORE_KEY_BYTES :: nat where "STORE_KEY_BYTES = 32"

definition PROOF_CONTEXT :: string where
  "PROOF_CONTEXT = ''kt-signal-connector-v1'' @ [CHR 0x00]"

lemmas auth_sizes [conn_defs] =
  SECRET_BYTES_def HEX_SECRET_BYTES_def PAYLOAD_BYTES_def STORE_KEY_BYTES_def PROOF_CONTEXT_def

datatype auth_error =
    InsecurePermissions
  | InvalidSecret
  | InvalidStoreKey
  | InvalidProof
  | InvalidInput
  | ReadError
  | RemoveError

datatype store_key_error = StoreKeyInvalid

definition store_key_from_hex ::
    "(string \<Rightarrow> string option) \<Rightarrow> string \<Rightarrow> store_key_error + string" where
  "store_key_from_hex hex_decode encoded =
     (if length encoded \<noteq> STORE_KEY_BYTES * 2 \<or> \<not> list_all is_lower_hex encoded
      then Inl StoreKeyInvalid
      else ok_or StoreKeyInvalid (hex_decode encoded))"

definition raw_key_spec :: "(string \<Rightarrow> string) \<Rightarrow> string \<Rightarrow> string" where
  "raw_key_spec hex_encode key = ''x'' @ [CHR 0x27] @ hex_encode key @ [CHR 0x27]"

datatype env_var = NotPresent | NotUnicode | Present string

definition store_key_from_env ::
    "(string \<Rightarrow> string option) \<Rightarrow> env_var \<Rightarrow> store_key_error + string option" where
  "store_key_from_env hex_decode var =
     (case var of
        Present v \<Rightarrow> result_bind (store_key_from_hex hex_decode v) (\<lambda>k. Inr (Some k))
      | NotPresent \<Rightarrow> Inr None
      | NotUnicode \<Rightarrow> Inl StoreKeyInvalid)"

definition decode_canonical_hex ::
    "(string \<Rightarrow> string option) \<Rightarrow> nat \<Rightarrow> string \<Rightarrow> auth_error + string" where
  "decode_canonical_hex hex_decode n encoded =
     (if length encoded \<noteq> n * 2 \<or> list_ex (\<lambda>b. \<not> is_lower_hex b) encoded
      then Inl InvalidInput
      else result_bind (ok_or InvalidInput (hex_decode encoded))
             (\<lambda>bs. if length bs = n then Inr bs else Inl InvalidInput))"

section \<open>The handshake\<close>

record challenge =
  ch_server_nonce :: string
  ch_algorithm :: string
  ch_api_version :: string

record handshake_params =
  hp_client_nonce :: string
  hp_proof :: string

record pending_challenge =
  pc_nonce :: string

definition challenge_public :: "(string \<Rightarrow> string) \<Rightarrow> pending_challenge \<Rightarrow> challenge" where
  "challenge_public hex_encode c =
     \<lparr>ch_server_nonce = hex_encode (pc_nonce c), ch_algorithm = ''HMAC-SHA256'',
      ch_api_version = API_VERSION\<rparr>"

definition proof_transcript :: "string \<Rightarrow> string \<Rightarrow> string" where
  "proof_transcript server_hex client_hex =
     PROOF_CONTEXT @ server_hex @ [CHR 0x00] @ client_hex @ [CHR 0x00] @ API_VERSION"

definition challenge_verify ::
    "(string \<Rightarrow> string) \<Rightarrow> (string \<Rightarrow> string option) \<Rightarrow> (string \<Rightarrow> string \<Rightarrow> string) \<Rightarrow>
     pending_challenge \<Rightarrow> string \<Rightarrow> handshake_params \<Rightarrow> auth_error + unit" where
  "challenge_verify hex_encode hex_decode hmac c secret params =
     result_bind (decode_canonical_hex hex_decode SECRET_BYTES (hp_client_nonce params)) (\<lambda>client_nonce.
     result_bind (decode_canonical_hex hex_decode SECRET_BYTES (hp_proof params)) (\<lambda>proof.
       if hmac secret (proof_transcript (hex_encode (pc_nonce c)) (hex_encode client_nonce)) = proof
       then Inr () else Inl InvalidProof))"

section \<open>The bootstrap payload\<close>

record bootstrap_payload =
  bp_secret :: string
  bp_store_key :: "string option"

definition decode_secret :: "(string \<Rightarrow> string option) \<Rightarrow> string \<Rightarrow> auth_error + string" where
  "decode_secret hex_decode line =
     (if length line \<noteq> HEX_SECRET_BYTES \<or> list_ex (\<lambda>b. \<not> is_lower_hex b) line
      then Inl InvalidSecret
      else ok_or InvalidSecret (hex_decode line))"

text \<open>
  A key line that is not UTF-8 holds a byte that is no hexadecimal digit, so the two failures of the
  source on line 2 are one here.
\<close>

definition decode_bootstrap_payload ::
    "(string \<Rightarrow> string option) \<Rightarrow> string \<Rightarrow> auth_error + bootstrap_payload" where
  "decode_bootstrap_payload hex_decode encoded =
     result_bind
       (if length encoded = HEX_SECRET_BYTES then Inr (take HEX_SECRET_BYTES encoded, None)
        else if length encoded = PAYLOAD_BYTES \<and> encoded ! HEX_SECRET_BYTES = CHR 0x0A
        then Inr (take HEX_SECRET_BYTES encoded, Some (drop (HEX_SECRET_BYTES + 1) encoded))
        else Inl InvalidSecret)
       (\<lambda>(secret_line, key_line).
         result_bind (decode_secret hex_decode secret_line) (\<lambda>secret.
         result_bind
           (case key_line of
              None \<Rightarrow> Inr None
            | Some line \<Rightarrow>
                (case store_key_from_hex hex_decode line of
                   Inl _ \<Rightarrow> Inl InvalidStoreKey
                 | Inr k \<Rightarrow> Inr (Some k)))
           (\<lambda>store_key. Inr \<lparr>bp_secret = secret, bp_store_key = store_key\<rparr>)))"

record file_meta =
  fm_is_file :: bool
  fm_is_dir :: bool
  fm_mode :: nat
  fm_uid :: nat
  fm_dev :: nat
  fm_ino :: nat

text \<open>
  What the operating system answers for the path: \<open>be_parent\<close> is the metadata of the canonical parent,
  \<open>be_open\<close> the metadata of the opened handle, \<open>be_read\<close> what reading it to the end yields. \<open>None\<close> is
  an I/O error.
\<close>

record boot_env =
  be_uid :: nat
  be_parent :: "file_meta option"
  be_lstat :: "file_meta option"
  be_open :: "file_meta option option"
  be_read :: "string option"
  be_remove_ok :: bool

definition has_private_permissions :: "nat \<Rightarrow> file_meta \<Rightarrow> bool" where
  "has_private_permissions uid m \<longleftrightarrow> (fm_mode m AND 0x3F) = 0 \<and> fm_uid m = uid"

definition has_private_parent :: "boot_env \<Rightarrow> bool" where
  "has_private_parent env =
     (case be_parent env of
        None \<Rightarrow> False
      | Some m \<Rightarrow> fm_is_dir m \<and> has_private_permissions (be_uid env) m)"

definition same_file :: "file_meta \<Rightarrow> file_meta \<Rightarrow> bool" where
  "same_file a b \<longleftrightarrow> fm_dev a = fm_dev b \<and> fm_ino a = fm_ino b"

definition read_limited :: "string option \<Rightarrow> auth_error + string" where
  "read_limited content =
     (case content of None \<Rightarrow> Inl ReadError | Some s \<Rightarrow> Inr (take (PAYLOAD_BYTES + 2) s))"

definition load_bootstrap_payload_from_reader ::
    "(string \<Rightarrow> string option) \<Rightarrow> string option \<Rightarrow> auth_error + bootstrap_payload" where
  "load_bootstrap_payload_from_reader hex_decode content =
     result_bind (read_limited content) (decode_bootstrap_payload hex_decode)"

text \<open>The second component says whether \<open>fs::remove_file\<close> was called on the path.\<close>

definition load_bootstrap_payload ::
    "(string \<Rightarrow> string option) \<Rightarrow> boot_env \<Rightarrow> (auth_error + bootstrap_payload) \<times> bool" where
  "load_bootstrap_payload hex_decode env =
     (if \<not> has_private_parent env then (Inl InsecurePermissions, False)
      else case be_lstat env of
        None \<Rightarrow> (Inl ReadError, False)
      | Some metadata \<Rightarrow>
          if \<not> fm_is_file metadata \<or> \<not> has_private_permissions (be_uid env) metadata
          then (Inl InsecurePermissions, False)
          else case be_open env of
            None \<Rightarrow> (Inl ReadError, False)
          | Some None \<Rightarrow> (Inl ReadError, False)
          | Some (Some opened) \<Rightarrow>
              if \<not> same_file metadata opened then (Inl InsecurePermissions, False)
              else
                (result_bind (read_limited (be_read env)) (\<lambda>encoded.
                   if be_remove_ok env then decode_bootstrap_payload hex_decode encoded
                   else Inl RemoveError),
                 True))"

section \<open>Lemmas\<close>

lemma hex_laws_encode:
  assumes "hex_laws e d"
  shows "length (e bs) = 2 * length bs" "list_all is_lower_hex (e bs)" "d (e bs) = Some bs"
  using assms by (simp_all add: hex_laws_def)

lemma hex_laws_decode:
  assumes "hex_laws e d" "list_all is_lower_hex s" "length s = 2 * n"
  obtains bs where "d s = Some bs" "e bs = s" "length bs = n"
proof -
  have "even (length s)" using assms(3) by simp
  with assms(1,2) obtain bs where bs: "d s = Some bs" "e bs = s"
    by (auto simp: hex_laws_def split: option.splits)
  with hex_laws_encode(1) [OF assms(1), of bs] assms(3) have "length bs = n" by simp
  with bs show ?thesis by (rule that)
qed

lemma list_ex_not_iff: "list_ex (\<lambda>x. \<not> P x) xs \<longleftrightarrow> \<not> list_all P xs"
  by (induction xs) auto

lemma decode_canonical_hex_iff:
  assumes "hex_laws e d"
  shows "decode_canonical_hex d n s = Inr bs \<longleftrightarrow> length bs = n \<and> s = e bs"
proof
  assume "decode_canonical_hex d n s = Inr bs"
  then have "list_all is_lower_hex s" "length s = 2 * n" "d s = Some bs" "length bs = n"
    by (auto simp: decode_canonical_hex_def list_ex_not_iff result_bind_eq_Inr_iff mult.commute
        split: if_splits)
  then show "length bs = n \<and> s = e bs"
    by (metis hex_laws_decode [OF assms] option.inject)
next
  assume "length bs = n \<and> s = e bs"
  then show "decode_canonical_hex d n s = Inr bs"
    using hex_laws_encode [OF assms, of bs]
    by (simp add: decode_canonical_hex_def list_ex_not_iff)
qed

lemma decode_canonical_hex_error: "decode_canonical_hex d n s = Inl x \<Longrightarrow> x = InvalidInput"
  by (auto simp: decode_canonical_hex_def result_bind_eq_Inl_iff ok_or_def
      split: if_splits option.splits)

lemma decode_secret_iff:
  assumes "hex_laws e d"
  shows "decode_secret d line = Inr s \<longleftrightarrow> length s = SECRET_BYTES \<and> line = e s"
  using hex_laws_encode [OF assms] hex_laws_decode [OF assms, of line 32]
  by (auto simp: decode_secret_def auth_sizes list_ex_not_iff split: if_splits) metis+

lemma store_key_from_hex_iff:
  assumes "hex_laws e d"
  shows "store_key_from_hex d line = Inr k \<longleftrightarrow> length k = STORE_KEY_BYTES \<and> line = e k"
  using hex_laws_encode [OF assms] hex_laws_decode [OF assms, of line 32]
  by (auto simp: store_key_from_hex_def auth_sizes split: if_splits) metis+

text \<open>The canonical rendering of a payload, the shape the decoder accepts.\<close>

definition payload_ok :: "bootstrap_payload \<Rightarrow> bool" where
  "payload_ok p \<longleftrightarrow> length (bp_secret p) = SECRET_BYTES \<and>
     (case bp_store_key p of None \<Rightarrow> True | Some k \<Rightarrow> length k = STORE_KEY_BYTES)"

definition render_payload :: "(string \<Rightarrow> string) \<Rightarrow> bootstrap_payload \<Rightarrow> string" where
  "render_payload hex_encode p =
     hex_encode (bp_secret p) @
     (case bp_store_key p of None \<Rightarrow> [] | Some k \<Rightarrow> CHR 0x0A # hex_encode k)"

lemma decode_bootstrap_payload_sound:
  assumes laws: "hex_laws e d" and ok: "decode_bootstrap_payload d enc = Inr p"
  shows "payload_ok p \<and> enc = render_payload e p"
proof (cases "length enc = HEX_SECRET_BYTES")
  case True
  with ok obtain s where "decode_secret d enc = Inr s" "p = \<lparr>bp_secret = s, bp_store_key = None\<rparr>"
    by (auto simp: decode_bootstrap_payload_def result_bind_eq_Inr_iff)
  then show ?thesis
    by (simp add: decode_secret_iff [OF laws] payload_ok_def render_payload_def)
next
  case False
  with ok have len: "length enc = PAYLOAD_BYTES" and nl: "enc ! HEX_SECRET_BYTES = CHR 0x0A"
    by (auto simp: decode_bootstrap_payload_def split: if_splits)
  with False ok obtain s k where
    s: "decode_secret d (take HEX_SECRET_BYTES enc) = Inr s" and
    k: "store_key_from_hex d (drop (HEX_SECRET_BYTES + 1) enc) = Inr k" and
    p: "p = \<lparr>bp_secret = s, bp_store_key = Some k\<rparr>"
    by (auto simp: decode_bootstrap_payload_def result_bind_eq_Inr_iff split: sum.splits)
  have "enc = take HEX_SECRET_BYTES enc @ enc ! HEX_SECRET_BYTES # drop (Suc HEX_SECRET_BYTES) enc"
    by (rule id_take_nth_drop) (simp add: len auth_sizes)
  with s k p nl show ?thesis
    by (simp add: decode_secret_iff [OF laws] store_key_from_hex_iff [OF laws] payload_ok_def
        render_payload_def)
qed

lemma decode_bootstrap_payload_complete:
  assumes laws: "hex_laws e d" and ok: "payload_ok p"
  shows "decode_bootstrap_payload d (render_payload e p) = Inr p"
proof -
  let ?s = "bp_secret p"
  have len: "length (e ?s) = HEX_SECRET_BYTES"
    using ok hex_laws_encode(1) [OF laws] by (simp add: payload_ok_def auth_sizes)
  have s: "decode_secret d (e ?s) = Inr ?s"
    using ok by (simp add: decode_secret_iff [OF laws] payload_ok_def)
  show ?thesis
  proof (cases "bp_store_key p")
    case None
    with len s show ?thesis
      by (simp add: decode_bootstrap_payload_def render_payload_def)
  next
    case (Some k)
    then have "length (e k) = HEX_SECRET_BYTES" "store_key_from_hex d (e k) = Inr k"
      using ok hex_laws_encode(1) [OF laws]
      by (simp_all add: store_key_from_hex_iff [OF laws] payload_ok_def auth_sizes)
    with len s Some show ?thesis
      by (simp add: decode_bootstrap_payload_def render_payload_def PAYLOAD_BYTES_def nth_append)
  qed
qed

lemma load_removes_iff:
  "snd (load_bootstrap_payload d env) \<longleftrightarrow>
     has_private_parent env \<and>
     (\<exists>m o'. be_lstat env = Some m \<and> fm_is_file m \<and> has_private_permissions (be_uid env) m \<and>
        be_open env = Some (Some o') \<and> same_file m o')"
  by (auto simp: load_bootstrap_payload_def split: option.split)

lemma load_ok_removed:
  "fst (load_bootstrap_payload d env) = Inr p \<Longrightarrow>
     snd (load_bootstrap_payload d env) \<and> be_remove_ok env \<and>
     load_bootstrap_payload_from_reader d (be_read env) = Inr p"
  by (auto simp: load_bootstrap_payload_def load_bootstrap_payload_from_reader_def
      result_bind_eq_Inr_iff split: option.splits if_splits)

text \<open>A reference codec, the instance at which the laws are seen to hold.\<close>

definition ref_hex_digit :: "nat \<Rightarrow> char" where
  "ref_hex_digit n = (if n < 10 then char_of (48 + n) else char_of (87 + n))"

definition ref_hex_value :: "char \<Rightarrow> nat" where
  "ref_hex_value c = (if byte c < 58 then byte c - 48 else byte c - 87)"

fun ref_hex_encode :: "string \<Rightarrow> string" where
  "ref_hex_encode [] = []"
| "ref_hex_encode (c # cs) =
     ref_hex_digit (byte c div 16) # ref_hex_digit (byte c mod 16) # ref_hex_encode cs"

fun ref_hex_decode :: "string \<Rightarrow> string option" where
  "ref_hex_decode [] = Some []"
| "ref_hex_decode [c] = None"
| "ref_hex_decode (a # b # s) =
     (if is_lower_hex a \<and> is_lower_hex b
      then map_option (Cons (char_of (16 * ref_hex_value a + ref_hex_value b))) (ref_hex_decode s)
      else None)"

lemma ref_hex_digit_props:
  assumes "n < 16"
  shows "is_lower_hex (ref_hex_digit n)" "ref_hex_value (ref_hex_digit n) = n"
  using assms by (auto simp: ref_hex_digit_def ref_hex_value_def ascii_defs)

lemma ref_hex_value_props:
  assumes "is_lower_hex c"
  shows "ref_hex_value c < 16" "ref_hex_digit (ref_hex_value c) = c"
  using assms by (auto simp: ref_hex_digit_def ref_hex_value_def ascii_defs)

lemma char_of_byte: "char_of (byte c) = c"
  by (simp add: byte_def)

lemma byte_split: "byte c div 16 < 16" "byte c mod 16 < 16" "char_of (16 * (byte c div 16) + byte c mod 16) = c"
proof -
  have "byte c < 256" by (simp add: byte_def)
  then show "byte c div 16 < 16" by (simp add: div_less_iff_less_mult)
  show "byte c mod 16 < 16" by simp
  show "char_of (16 * (byte c div 16) + byte c mod 16) = c"
    by (simp only: mult_div_mod_eq) (simp add: byte_def)
qed

lemma ref_hex_encode_props:
  "length (ref_hex_encode bs) = 2 * length bs"
  "list_all is_lower_hex (ref_hex_encode bs)"
  "ref_hex_decode (ref_hex_encode bs) = Some bs"
  by (induction bs) (simp_all add: ref_hex_digit_props byte_split char_of_byte)

lemma byte_join:
  assumes "a < 16" "b < 16"
  shows "byte (char_of (16 * a + b)) div 16 = a" "byte (char_of (16 * a + b)) mod 16 = b"
proof -
  have "byte (char_of (16 * a + b)) = 16 * a + b" using assms by (simp add: byte_def)
  with assms show "byte (char_of (16 * a + b)) div 16 = a" "byte (char_of (16 * a + b)) mod 16 = b"
    by simp_all
qed

lemma ref_hex_decode_props:
  "list_all is_lower_hex s \<Longrightarrow> even (length s) \<Longrightarrow>
   \<exists>bs. ref_hex_decode s = Some bs \<and> ref_hex_encode bs = s"
  by (induction s rule: ref_hex_decode.induct)
    (auto simp: byte_join ref_hex_value_props)

lemma ref_hex_laws: "hex_laws ref_hex_encode ref_hex_decode"
  using ref_hex_encode_props ref_hex_decode_props by (fastforce simp: hex_laws_def)

section \<open>Properties\<close>



text \<open>
  The bootstrap payload is a canonical format: what the decoder accepts is exactly the rendering of
  a 32-byte secret, alone or followed by a newline and a 32-byte store key, and it returns those bytes.
\<close>

lemma bootstrap_payload_roundtrip:
  assumes "hex_laws hex_encode hex_decode"
  shows "decode_bootstrap_payload hex_decode encoded = Inr p \<longleftrightarrow>
     payload_ok p \<and> encoded = render_payload hex_encode p"
  using decode_bootstrap_payload_sound [OF assms] decode_bootstrap_payload_complete [OF assms] by blast

text \<open>
  C37. Read and destroy: once a private regular file in a private directory has been opened and is the
  file that was inspected, it is removed whatever it carried and whether or not it could be read; a
  payload is only ever returned when the removal was issued and succeeded.
\<close>

theorem bootstrap_read_and_destroy:
  "(snd (load_bootstrap_payload hex_decode env) \<longleftrightarrow>
      has_private_parent env \<and>
      (\<exists>m opened. be_lstat env = Some m \<and> fm_is_file m \<and> has_private_permissions (be_uid env) m \<and>
         be_open env = Some (Some opened) \<and> same_file m opened)) \<and>
   (case fst (load_bootstrap_payload hex_decode env) of
      Inr p \<Rightarrow> snd (load_bootstrap_payload hex_decode env) \<and> be_remove_ok env \<and>
        load_bootstrap_payload_from_reader hex_decode (be_read env) = Inr p
    | Inl _ \<Rightarrow> True)"
  using load_removes_iff [of hex_decode env] load_ok_removed [of hex_decode env]
  by (auto split: sum.split)

end
