(* ===== verification/Store_Tables.thy ===== *)
theory Store_Tables
  imports Json_Value "HOL-Library.Product_Lexorder"
begin

text \<open>
  The tables of \<open>src/store.rs\<close> that the message operations read and write, one record per row with the
  columns of \<open>SCHEMA_DDL\<close> these operations touch. \<open>INTEGER\<close> columns are \<open>int\<close>, \<open>TEXT\<close> columns are
  \<open>string\<close>, \<open>NULL\<close> is \<open>None\<close>. A store method is a function of the whole store that returns its
  result and the store after the transaction; a transaction that is dropped on an error leaves the store
  as it was. Faults of the SQLite engine itself (\<open>StoreError::Unavailable\<close> from a failing statement) are
  modelled only where a constraint of the schema causes them.
\<close>

record message_row =
  m_id :: string
  m_account :: string
  m_conv :: string
  m_direction :: string
  m_sender :: string
  m_sent_at :: int
  m_received_at :: "int option"
  m_stored_at :: "int option"
  m_body :: "string option"
  m_body_bytes :: "int option"
  m_body_truncated :: bool
  m_status :: string
  m_crid :: "string option"
  m_quote_snapshot :: "string option"
  m_attachments :: "string option"
  m_attachment_locators :: "string option"
  m_live_locators :: "string option"
  m_rich :: "string option"
  m_sticker :: "string option"
  m_mentions_self :: bool
  m_expire_at :: "int option"
  m_is_erased :: bool
  m_first :: "int option"
  m_attempts :: int
  m_next :: "int option"
  m_outcomes :: "string option"
  m_delivered_at :: "int option"
  m_read_at :: "int option"
  m_viewed_at :: "int option"

record conversation_row =
  c_id :: string
  c_account :: string
  c_kind :: string
  c_peer_key :: string
  c_preview :: "string option"
  c_last_at :: "int option"
  c_unread :: int
  c_mentions :: int
  c_watermark :: "int option"

record account_row =
  a_id :: string
  a_signal :: "string option"
  a_last_at :: "int option"
  a_unread :: int
  a_group :: string

record store =
  messages :: "message_row list"
  conversations :: "conversation_row list"
  accounts :: "account_row list"

datatype store_error =
    Unavailable
  | AccountNotFound
  | ConversationNotFound
  | MessageNotFound
  | OperationConflict
  | InvalidCursor
  | ReadWatermarkTargetInvalid

text \<open>\<open>COALESCE(a, b)\<close> on two nullable columns, and \<open>CASE WHEN x IS NULL OR x < v THEN v ELSE x\<close>.\<close>

definition coalesce :: "'a option \<Rightarrow> 'a option \<Rightarrow> 'a option" where
  "coalesce a b = (case a of None \<Rightarrow> b | Some x \<Rightarrow> Some x)"

definition bump_at :: "int option \<Rightarrow> int \<Rightarrow> int option" where
  "bump_at x v = (case x of None \<Rightarrow> Some v | Some w \<Rightarrow> if w < v then Some v else Some w)"

lemma coalesce_simps [simp]: "coalesce None b = b" "coalesce (Some x) b = Some x"
  by (simp_all add: coalesce_def)

lemma bump_at_ge: "bump_at x v = Some w \<Longrightarrow> v \<le> w \<and> (case x of None \<Rightarrow> True | Some u \<Rightarrow> u \<le> w)"
  by (auto simp: bump_at_def split: option.splits if_splits)

lemma bump_at_not_None [simp]: "bump_at x v \<noteq> None"
  by (auto simp: bump_at_def split: option.splits)

text \<open>A row by its primary key.\<close>

definition message_by_pk :: "string \<Rightarrow> message_row list \<Rightarrow> message_row option" where
  "message_by_pk mid t = find (\<lambda>m. m_id m = mid) t"

definition blank_message :: message_row where
  "blank_message =
     \<lparr>m_id = [], m_account = [], m_conv = [], m_direction = [], m_sender = [], m_sent_at = 0,
      m_received_at = None, m_stored_at = None, m_body = None, m_body_bytes = None,
      m_body_truncated = False, m_status = [], m_crid = None, m_quote_snapshot = None,
      m_attachments = None, m_attachment_locators = None, m_live_locators = None, m_rich = None,
      m_sticker = None, m_mentions_self = False, m_expire_at = None, m_is_erased = False,
      m_first = None, m_attempts = 0, m_next = None, m_outcomes = None, m_delivered_at = None,
      m_read_at = None, m_viewed_at = None\<rparr>"

text \<open>The primary keys of the three tables.\<close>

definition store_keys_ok :: "store \<Rightarrow> bool" where
  "store_keys_ok st \<longleftrightarrow> distinct (map m_id (messages st)) \<and> distinct (map c_id (conversations st)) \<and>
     distinct (map a_id (accounts st))"

end
