(* ===== verification/Send_Queue.thy ===== *)
theory Send_Queue
  imports Store_Tables
begin

text \<open>
  The send-retry queue of \<open>src/store.rs\<close>: how a dispatched row settles, how a definitive failure is
  scheduled for an automatic retry, and how the drain pass claims due rows. \<open>parse_json\<close> stands for
  \<open>serde_json::from_str\<close>; a counted-outcomes value is its serialized text.
\<close>

section \<open>The schedule\<close>

definition RETRY_WINDOW_MS :: nat where "RETRY_WINDOW_MS = 24 * 60 * 60 * 1000"
definition RETRY_BACKOFF_BASE_MS :: nat where "RETRY_BACKOFF_BASE_MS = 190"
definition RETRY_BACKOFF_FACTOR_NUM :: nat where "RETRY_BACKOFF_FACTOR_NUM = 19"
definition RETRY_BACKOFF_FACTOR_DEN :: nat where "RETRY_BACKOFF_FACTOR_DEN = 10"
definition RETRY_BACKOFF_MAX_MS :: nat where "RETRY_BACKOFF_MAX_MS = 15 * 60 * 1000"
definition MAX_RETRY_ATTEMPTS :: nat where "MAX_RETRY_ATTEMPTS = 128"
definition MAX_RETRY_QUEUED_PER_ACCOUNT :: nat where "MAX_RETRY_QUEUED_PER_ACCOUNT = 256"
definition RATE_LIMIT_RETRY_AFTER_MS :: nat where "RATE_LIMIT_RETRY_AFTER_MS = 60000"

lemmas retry_consts [conn_defs] =
  RETRY_WINDOW_MS_def RETRY_BACKOFF_BASE_MS_def RETRY_BACKOFF_FACTOR_NUM_def
  RETRY_BACKOFF_FACTOR_DEN_def RETRY_BACKOFF_MAX_MS_def MAX_RETRY_ATTEMPTS_def
  MAX_RETRY_QUEUED_PER_ACCOUNT_def RATE_LIMIT_RETRY_AFTER_MS_def

datatype send_retry_schedule = NoRetry | Backoff | RateLimit

fun retry_backoff_loop :: "nat \<Rightarrow> nat \<Rightarrow> nat" where
  "retry_backoff_loop 0 delay = min delay RETRY_BACKOFF_MAX_MS"
| "retry_backoff_loop (Suc k) delay =
     (let delay' = sat_mul64 delay RETRY_BACKOFF_FACTOR_NUM div RETRY_BACKOFF_FACTOR_DEN in
      if delay' \<ge> RETRY_BACKOFF_MAX_MS then RETRY_BACKOFF_MAX_MS
      else retry_backoff_loop k delay')"

definition retry_backoff_delay_ms :: "nat \<Rightarrow> nat" where
  "retry_backoff_delay_ms retry_number = retry_backoff_loop (retry_number - 1) RETRY_BACKOFF_BASE_MS"

definition has_attachment_descriptors :: "(string \<Rightarrow> json option) \<Rightarrow> string option \<Rightarrow> bool" where
  "has_attachment_descriptors parse_json attachments_json =
     (case attachments_json of
        None \<Rightarrow> False
      | Some s \<Rightarrow>
          (case Option.bind (parse_json s) as_array of
             None \<Rightarrow> True
           | Some xs \<Rightarrow> xs \<noteq> []))"

section \<open>Settlement\<close>

definition update_message_status ::
    "string \<Rightarrow> string \<Rightarrow> nat option \<Rightarrow> store \<Rightarrow> (message_row \<times> bool) option \<times> store" where
  "update_message_status mid status sent_at st =
     (let guard = (\<lambda>m. m_id m = mid \<and> m_status m \<noteq> status);
          changed = sql_count guard (messages st);
          t = sql_update guard
                (\<lambda>m. m\<lparr>m_status := status,
                       m_sent_at := (case sent_at of None \<Rightarrow> m_sent_at m | Some v \<Rightarrow> as_i64 v)\<rparr>)
                (messages st)
      in (map_option (\<lambda>r. (r, changed = 1)) (message_by_pk mid t), st\<lparr>messages := t\<rparr>))"

definition clear_queue_face :: "message_row \<Rightarrow> message_row" where
  "clear_queue_face m = m\<lparr>m_first := None, m_attempts := 0, m_next := None\<rparr>"

definition rearm_failed_message :: "string \<Rightarrow> store \<Rightarrow> (message_row \<times> bool) option \<times> store" where
  "rearm_failed_message mid st =
     (let guard = (\<lambda>m. m_id m = mid \<and> m_status m = ''failed'');
          changed = sql_count guard (messages st);
          t = sql_update guard (\<lambda>m. (clear_queue_face m)\<lparr>m_status := ''pending''\<rparr>) (messages st)
      in (map_option (\<lambda>r. (r, changed = 1)) (message_by_pk mid t), st\<lparr>messages := t\<rparr>))"

definition retire_retry_schedule :: "string \<Rightarrow> store \<Rightarrow> store" where
  "retire_retry_schedule mid st =
     st\<lparr>messages := sql_update (\<lambda>m. m_id m = mid) clear_queue_face (messages st)\<rparr>"

definition retire_retry_schedule_in :: "string \<Rightarrow> message_row list \<Rightarrow> message_row list" where
  "retire_retry_schedule_in mid t =
     sql_update (\<lambda>m. m_id m = mid \<and> m_status m = ''failed'') (\<lambda>m. m\<lparr>m_next := None\<rparr>) t"

definition queued_for :: "string \<Rightarrow> message_row \<Rightarrow> bool" where
  "queued_for acct m \<longleftrightarrow>
     m_account m = acct \<and> m_direction m = ''outgoing'' \<and> m_status m = ''failed'' \<and> m_next m \<noteq> None"

definition retry_eligible :: "(string \<Rightarrow> json option) \<Rightarrow> message_row \<Rightarrow> bool" where
  "retry_eligible parse_json m \<longleftrightarrow>
     m_direction m = ''outgoing'' \<and>
     (case m_body m of None \<Rightarrow> False | Some b \<Rightarrow> b \<noteq> []) \<and>
     m_crid m \<noteq> None \<and>
     \<not> has_attachment_descriptors parse_json (m_attachments m) \<and>
     as_u64 (m_attempts m) < MAX_RETRY_ATTEMPTS"

definition settle_send_failed_schedule ::
    "(string \<Rightarrow> json option) \<Rightarrow> string \<Rightarrow> nat \<Rightarrow> send_retry_schedule \<Rightarrow>
     message_row list \<Rightarrow> message_row list" where
  "settle_send_failed_schedule parse_json mid now schedule t =
     (if schedule = NoRetry then t
      else case find (\<lambda>m. m_id m = mid \<and> m_status m = ''failed'') t of
        None \<Rightarrow> t
      | Some row \<Rightarrow>
          if \<not> retry_eligible parse_json row then retire_retry_schedule_in mid t
          else if sql_count (\<lambda>m. queued_for (m_account row) m \<and> m_id m \<noteq> mid) t
                    \<ge> MAX_RETRY_QUEUED_PER_ACCOUNT
          then retire_retry_schedule_in mid t
          else
            let delay = (case schedule of
                           RateLimit \<Rightarrow> RATE_LIMIT_RETRY_AFTER_MS
                         | _ \<Rightarrow> retry_backoff_delay_ms (as_u64 (m_attempts row) mod 2 ^ 32 + 1))
            in sql_update (\<lambda>m. m_id m = mid \<and> m_status m = ''failed'')
                 (\<lambda>m. m\<lparr>m_next := Some (as_i64 (sat_add64 now delay)),
                        m_attempts := m_attempts m + 1,
                        m_first := coalesce (m_first m) (Some (as_i64 now))\<rparr>) t)"

definition settle_send_failed ::
    "(string \<Rightarrow> json option) \<Rightarrow> string \<Rightarrow> nat \<Rightarrow> send_retry_schedule \<Rightarrow> string option \<Rightarrow> store \<Rightarrow>
     (message_row \<times> bool) option \<times> store" where
  "settle_send_failed parse_json mid now schedule outcomes st =
     (let guard = (\<lambda>m. m_id m = mid \<and> m_status m = ''pending'');
          changed = sql_count guard (messages st);
          t = (if schedule = Backoff \<or> schedule = RateLimit
               then sql_update guard (\<lambda>m. m\<lparr>m_status := ''failed''\<rparr>) (messages st)
               else sql_update guard
                      (\<lambda>m. (clear_queue_face m)\<lparr>m_status := ''failed'',
                             m_outcomes := coalesce outcomes (m_outcomes m)\<rparr>) (messages st))
      in if changed = 0 then (None, st\<lparr>messages := t\<rparr>)
         else let t' = settle_send_failed_schedule parse_json mid now schedule t
              in (map_option (\<lambda>r. (r, True)) (message_by_pk mid t'), st\<lparr>messages := t'\<rparr>))"

text \<open>\<open>ConnectorService::complete_send_unknown\<close>: retire, then mark.\<close>

definition complete_send_unknown :: "string \<Rightarrow> store \<Rightarrow> (message_row \<times> bool) option \<times> store" where
  "complete_send_unknown mid st = update_message_status mid ''unknown'' None (retire_retry_schedule mid st)"

definition bump_summaries :: "string \<Rightarrow> string \<Rightarrow> int \<Rightarrow> store \<Rightarrow> store" where
  "bump_summaries acct conv at st =
     st\<lparr>conversations :=
          sql_update (\<lambda>c. c_id c = conv \<and> c_account c = acct)
            (\<lambda>c. c\<lparr>c_last_at := bump_at (c_last_at c) at\<rparr>) (conversations st),
        accounts :=
          sql_update (\<lambda>a. a_id a = acct) (\<lambda>a. a\<lparr>a_last_at := bump_at (a_last_at a) at\<rparr>) (accounts st)\<rparr>"

definition settle_unknown_send :: "string \<Rightarrow> bool \<Rightarrow> store \<Rightarrow> (message_row \<times> bool) option \<times> store" where
  "settle_unknown_send mid dispatched st =
     (let status = (if dispatched then ''sent'' else ''failed'');
          guard = (\<lambda>m. m_id m = mid \<and> m_status m = ''unknown'');
          changed = sql_count guard (messages st);
          t = sql_update guard (\<lambda>m. (clear_queue_face m)\<lparr>m_status := status\<rparr>) (messages st)
      in if changed \<noteq> 1 then (None, st)
         else if \<not> dispatched then
           let t' = sql_update (\<lambda>m. m_id m = mid \<and> m_next m \<noteq> None) (\<lambda>m. m\<lparr>m_next := None\<rparr>) t
           in (map_option (\<lambda>r. (r, True)) (message_by_pk mid t'), st\<lparr>messages := t'\<rparr>)
         else case message_by_pk mid t of
           None \<Rightarrow> (None, st\<lparr>messages := t\<rparr>)
         | Some r \<Rightarrow>
             (Some (r, True), bump_summaries (m_account r) (m_conv r) (m_sent_at r) (st\<lparr>messages := t\<rparr>)))"

definition echo_duplicate :: "string \<Rightarrow> string \<Rightarrow> string \<Rightarrow> nat \<Rightarrow> message_row \<Rightarrow> bool" where
  "echo_duplicate mid acct conv sent_at m \<longleftrightarrow>
     m_account m = acct \<and> m_conv m = conv \<and> m_direction m = ''outgoing'' \<and>
     m_sent_at m = as_i64 sent_at \<and> m_id m \<noteq> mid \<and> m_sender m = acct \<and> m_crid m = None"

definition complete_outgoing_send ::
    "string \<Rightarrow> string \<Rightarrow> string \<Rightarrow> nat \<Rightarrow> string option \<Rightarrow> store \<Rightarrow>
     (message_row \<times> bool) option \<times> store" where
  "complete_outgoing_send mid acct conv sent_at outcomes st =
     (let own = (\<lambda>m. m_id m = mid \<and> m_account m = acct \<and> m_conv m = conv);
          previous_status = map_option m_status (find own (messages st));
          duplicate_ids = take 2 (sort (map m_id (filter (echo_duplicate mid acct conv sent_at) (messages st))));
          t0 = (case duplicate_ids of [d] \<Rightarrow> filter (\<lambda>m. m_id m \<noteq> d) (messages st) | _ \<Rightarrow> messages st);
          updated = sql_count own t0;
          t = sql_update own
                (\<lambda>m. (clear_queue_face m)\<lparr>m_status := ''sent'', m_sent_at := as_i64 sent_at,
                       m_outcomes := outcomes\<rparr>) t0
      in if updated \<noteq> 1 then (None, st)
         else
           let st' = bump_summaries acct conv (as_i64 sent_at) (st\<lparr>messages := t\<rparr>)
           in (map_option (\<lambda>r. (r, previous_status \<noteq> Some ''sent'')) (find own t), st'))"

text \<open>The startup sweep of \<open>Store::open\<close>: a pending row that outlived its process.\<close>

definition startup_pending_sweep :: "store \<Rightarrow> store" where
  "startup_pending_sweep st =
     st\<lparr>messages := sql_update (\<lambda>m. m_status m = ''pending'')
          (\<lambda>m. (clear_queue_face m)\<lparr>m_status := ''failed''\<rparr>) (messages st)\<rparr>"

text \<open>The ladder write of \<open>apply_peer_receipt\<close>.\<close>

definition receipt_ladder_update ::
    "string \<Rightarrow> string \<Rightarrow> nat \<Rightarrow> string \<Rightarrow> nat \<Rightarrow> bool \<Rightarrow> store \<Rightarrow> store" where
  "receipt_ladder_update acct conv timestamp nxt when first_view st =
     st\<lparr>messages :=
          sql_update (\<lambda>m. m_account m = acct \<and> m_conv m = conv \<and> m_sent_at m = as_i64 timestamp)
            (\<lambda>m. m\<lparr>m_status := nxt,
                   m_delivered_at := (if nxt = ''delivered'' then coalesce (m_delivered_at m) (Some (as_i64 when))
                                      else m_delivered_at m),
                   m_read_at := (if nxt = ''read'' then coalesce (m_read_at m) (Some (as_i64 when))
                                 else m_read_at m),
                   m_viewed_at := (if first_view then coalesce (m_viewed_at m) (Some (as_i64 when))
                                   else m_viewed_at m)\<rparr>) (messages st)\<rparr>"

section \<open>The drain pass\<close>

record retry_claim =
  rc_message_id :: string
  rc_account_id :: string
  rc_conversation_id :: string
  rc_client_request_id :: string
  rc_sent_at :: nat

definition retry_due :: "nat \<Rightarrow> message_row \<Rightarrow> bool" where
  "retry_due now m \<longleftrightarrow>
     m_direction m = ''outgoing'' \<and> m_status m = ''failed'' \<and>
     (case m_next m of None \<Rightarrow> False | Some v \<Rightarrow> v \<le> as_i64 now)"

definition scan_due :: "nat \<Rightarrow> nat \<Rightarrow> message_row list \<Rightarrow> message_row list" where
  "scan_due now limit t = take limit (sort_key (\<lambda>m. (the (m_next m), m_id m)) (filter (retry_due now) t))"

definition retry_window_start :: "nat \<Rightarrow> message_row \<Rightarrow> nat" where
  "retry_window_start now m =
     min (case m_first m of None \<Rightarrow> as_u64 (m_sent_at m) | Some v \<Rightarrow> as_u64 v) now"

definition retry_window_over :: "nat \<Rightarrow> message_row \<Rightarrow> bool" where
  "retry_window_over now m \<longleftrightarrow> now - retry_window_start now m \<ge> RETRY_WINDOW_MS"

definition claim_of :: "message_row \<Rightarrow> string \<Rightarrow> retry_claim" where
  "claim_of m crid =
     \<lparr>rc_message_id = m_id m, rc_account_id = m_account m, rc_conversation_id = m_conv m,
      rc_client_request_id = crid, rc_sent_at = as_u64 (m_sent_at m)\<rparr>"

definition claim_one ::
    "(string \<Rightarrow> json option) \<Rightarrow> nat \<Rightarrow> message_row \<Rightarrow> message_row list \<times> retry_claim list \<Rightarrow>
     message_row list \<times> retry_claim list" where
  "claim_one parse_json now row = (\<lambda>(t, claims).
     if has_attachment_descriptors parse_json (m_attachments row)
     then (retire_retry_schedule_in (m_id row) t, claims)
     else if retry_window_over now row
     then (retire_retry_schedule_in (m_id row) t, claims)
     else
       let guard = (\<lambda>m. m_id m = m_id row \<and> m_status m = ''failed'');
           claimed = sql_count guard t;
           t' = sql_update guard (\<lambda>m. m\<lparr>m_status := ''pending''\<rparr>) t
       in (t', if claimed = 1
               then (case m_crid row of None \<Rightarrow> claims | Some crid \<Rightarrow> claims @ [claim_of row crid])
               else claims))"

definition claim_due_retries ::
    "(string \<Rightarrow> json option) \<Rightarrow> nat \<Rightarrow> nat \<Rightarrow> store \<Rightarrow> retry_claim list \<times> store" where
  "claim_due_retries parse_json now limit st =
     (let (t, claims) = fold (claim_one parse_json now) (scan_due now limit (messages st)) (messages st, [])
      in (claims, st\<lparr>messages := t\<rparr>))"

definition next_retry_due_at :: "store \<Rightarrow> nat option" where
  "next_retry_due_at st =
     (case [the (m_next m). m \<leftarrow> messages st,
              m_direction m = ''outgoing'' \<and> m_status m = ''failed'' \<and> m_next m \<noteq> None] of
        [] \<Rightarrow> None
      | v # vs \<Rightarrow> Some (nat (max (Min (set (v # vs))) 0)))"

section \<open>The queue invariant\<close>

definition row_ok :: "message_row \<Rightarrow> bool" where
  "row_ok m \<longleftrightarrow>
     (m_status m = ''unknown'' \<longrightarrow> m_next m = None) \<and>
     0 \<le> m_attempts m \<and> m_attempts m \<le> int MAX_RETRY_ATTEMPTS \<and>
     (m_next m \<noteq> None \<longrightarrow>
        m_direction m = ''outgoing'' \<and> m_crid m \<noteq> None \<and> m_first m \<noteq> None \<and> 1 \<le> m_attempts m)"

definition queue_inv :: "message_row list \<Rightarrow> bool" where
  "queue_inv t \<longleftrightarrow> distinct (map m_id t) \<and> (\<forall>m \<in> set t. row_ok m) \<and>
     (\<forall>acct. sql_count (queued_for acct) t \<le> MAX_RETRY_QUEUED_PER_ACCOUNT)"

lemma queue_invI:
  "distinct (map m_id t) \<Longrightarrow> (\<And>m. m \<in> set t \<Longrightarrow> row_ok m) \<Longrightarrow>
   (\<And>acct. sql_count (queued_for acct) t \<le> MAX_RETRY_QUEUED_PER_ACCOUNT) \<Longrightarrow> queue_inv t"
  by (simp add: queue_inv_def)

lemma queue_inv_update:
  assumes "queue_inv t"
    and "\<And>m. m_id (f m) = m_id m"
    and "\<And>m. m \<in> set t \<Longrightarrow> p m \<Longrightarrow> row_ok m \<Longrightarrow> row_ok (f m)"
    and "\<And>m acct. m \<in> set t \<Longrightarrow> p m \<Longrightarrow> queued_for acct (f m) \<Longrightarrow> queued_for acct m"
  shows "queue_inv (sql_update p f t)"
proof (rule queue_invI)
  show "distinct (map m_id (sql_update p f t))"
    using assms(1) by (simp add: queue_inv_def sql_update_keys assms(2))
  show "row_ok m" if "m \<in> set (sql_update p f t)" for m
    using that assms(1,3) by (auto simp: set_sql_update queue_inv_def)
  show "sql_count (queued_for acct) (sql_update p f t) \<le> MAX_RETRY_QUEUED_PER_ACCOUNT" for acct
    using assms(1) sql_count_update_le [of t p "queued_for acct" f] assms(4) [of _ acct]
    by (meson order_trans queue_inv_def)
qed

lemma queue_inv_filter:
  assumes "queue_inv t"
  shows "queue_inv (filter p t)"
proof (rule queue_invI)
  show "distinct (map m_id (filter p t))"
    using assms by (auto simp: queue_inv_def intro: distinct_map_filter)
  show "row_ok m" if "m \<in> set (filter p t)" for m
    using that assms by (auto simp: queue_inv_def)
  show "sql_count (queued_for acct) (filter p t) \<le> MAX_RETRY_QUEUED_PER_ACCOUNT" for acct
    using assms sql_count_filter_le [of "queued_for acct" p t] by (meson order_trans queue_inv_def)
qed

definition fresh_row :: "message_row list \<Rightarrow> message_row \<Rightarrow> bool" where
  "fresh_row t m \<longleftrightarrow> m_id m \<notin> set (map m_id t) \<and> m_first m = None \<and> m_attempts m = 0 \<and> m_next m = None"

lemma queue_inv_insert: "queue_inv t \<Longrightarrow> fresh_row t m \<Longrightarrow> queue_inv (t @ [m])"
  by (auto simp: queue_inv_def fresh_row_def row_ok_def queued_for_def)

lemmas row_effects [row_simps] = row_ok_def queued_for_def clear_queue_face_def

lemma rearm_queue_inv: "queue_inv (messages st) \<Longrightarrow> queue_inv (messages (snd (rearm_failed_message mid st)))"
  by (auto simp: rearm_failed_message_def Let_def row_simps intro!: queue_inv_update)

lemma retire_queue_inv: "queue_inv (messages st) \<Longrightarrow> queue_inv (messages (retire_retry_schedule mid st))"
  by (auto simp: retire_retry_schedule_def row_simps intro!: queue_inv_update)

lemma retire_in_queue_inv: "queue_inv t \<Longrightarrow> queue_inv (retire_retry_schedule_in mid t)"
  by (auto simp: retire_retry_schedule_in_def row_simps intro!: queue_inv_update)

lemma startup_queue_inv: "queue_inv (messages st) \<Longrightarrow> queue_inv (messages (startup_pending_sweep st))"
  by (auto simp: startup_pending_sweep_def row_simps intro!: queue_inv_update)

lemma receipt_queue_inv:
  "queue_inv (messages st) \<Longrightarrow> nxt = ''delivered'' \<or> nxt = ''read'' \<Longrightarrow>
   queue_inv (messages (receipt_ladder_update acct conv ts nxt w fv st))"
  by (auto simp: receipt_ladder_update_def row_simps intro!: queue_inv_update)

lemma retired_next_None:
  "m \<in> set (messages (retire_retry_schedule mid st)) \<Longrightarrow> m_id m = mid \<Longrightarrow> m_next m = None"
  by (simp add: retire_retry_schedule_def) (erule sql_update_memE; simp add: clear_queue_face_def)

lemma unknown_queue_inv:
  assumes "queue_inv (messages st)"
  shows "queue_inv (messages (snd (complete_send_unknown mid st)))"
proof -
  have "queue_inv (sql_update (\<lambda>m. m_id m = mid \<and> m_status m \<noteq> ''unknown'')
          (\<lambda>m. m\<lparr>m_status := ''unknown'', m_sent_at := m_sent_at m\<rparr>)
          (messages (retire_retry_schedule mid st)))"
    by (rule queue_inv_update [OF retire_queue_inv [OF assms]])
      (simp_all add: retired_next_None row_ok_def queued_for_def)
  then show ?thesis
    by (simp add: complete_send_unknown_def update_message_status_def Let_def)
qed

lemma messages_bump [simp]: "messages (bump_summaries acct conv at st) = messages st"
  by (simp add: bump_summaries_def)

lemma settle_unknown_queue_inv:
  assumes "queue_inv (messages st)"
  shows "queue_inv (messages (snd (settle_unknown_send mid dispatched st)))"
proof -
  have "queue_inv (sql_update (\<lambda>m. m_id m = mid \<and> m_status m = ''unknown'')
          (\<lambda>m. (clear_queue_face m)\<lparr>m_status := s\<rparr>) (messages st))" for s
    using assms by (rule queue_inv_update) (auto simp: row_simps)
  moreover have "queue_inv t \<Longrightarrow>
      queue_inv (sql_update (\<lambda>m. m_id m = mid \<and> m_next m \<noteq> None) (\<lambda>m. m\<lparr>m_next := None\<rparr>) t)" for t
    by (erule queue_inv_update) (auto simp: row_simps)
  ultimately show ?thesis
    using assms by (auto simp: settle_unknown_send_def Let_def split: option.split)
qed

lemma complete_queue_inv:
  assumes "queue_inv (messages st)"
  shows "queue_inv (messages (snd (complete_outgoing_send mid acct conv sent_at outcomes st)))"
proof -
  have "queue_inv t \<Longrightarrow> queue_inv (sql_update own
          (\<lambda>m. (clear_queue_face m)\<lparr>m_status := ''sent'', m_sent_at := at, m_outcomes := o'\<rparr>) t)"
    for t own at o'
    by (erule queue_inv_update) (auto simp: row_simps)
  moreover have "queue_inv (case ds of [d] \<Rightarrow> filter (\<lambda>m. m_id m \<noteq> d) (messages st) | _ \<Rightarrow> messages st)" for ds
    using assms by (auto intro: queue_inv_filter split: list.split)
  ultimately show ?thesis
    using assms by (simp add: complete_outgoing_send_def Let_def)
qed

section \<open>Settling a failed send\<close>

definition refused_row :: "message_row \<Rightarrow> message_row" where
  "refused_row m = m\<lparr>m_status := ''failed'', m_next := None\<rparr>"

definition scheduled_row :: "nat \<Rightarrow> nat \<Rightarrow> message_row \<Rightarrow> message_row" where
  "scheduled_row now delay m =
     m\<lparr>m_status := ''failed'', m_next := Some (as_i64 (sat_add64 now delay)),
       m_attempts := m_attempts m + 1, m_first := coalesce (m_first m) (Some (as_i64 now))\<rparr>"

definition retry_delay :: "send_retry_schedule \<Rightarrow> message_row \<Rightarrow> nat" where
  "retry_delay schedule m =
     (case schedule of
        RateLimit \<Rightarrow> RATE_LIMIT_RETRY_AFTER_MS
      | _ \<Rightarrow> retry_backoff_delay_ms (as_u64 (m_attempts m) mod 2 ^ 32 + 1))"

definition under_ceiling :: "string \<Rightarrow> string \<Rightarrow> message_row list \<Rightarrow> bool" where
  "under_ceiling acct mid t \<longleftrightarrow>
     sql_count (\<lambda>m. queued_for acct m \<and> m_id m \<noteq> mid) t < MAX_RETRY_QUEUED_PER_ACCOUNT"

text \<open>What the settlement makes of the one pending row, branch by branch.\<close>

definition settled_row ::
    "(string \<Rightarrow> json option) \<Rightarrow> nat \<Rightarrow> send_retry_schedule \<Rightarrow> string option \<Rightarrow> message_row list \<Rightarrow>
     message_row \<Rightarrow> message_row" where
  "settled_row parse_json now schedule outcomes t m =
     (if schedule = NoRetry
      then (clear_queue_face m)\<lparr>m_status := ''failed'', m_outcomes := coalesce outcomes (m_outcomes m)\<rparr>
      else if retry_eligible parse_json m \<and> under_ceiling (m_account m) (m_id m) t
      then scheduled_row now (retry_delay schedule m) m
      else refused_row m)"

lemma retry_eligible_status [simp]:
  "retry_eligible parse_json (m\<lparr>m_status := s\<rparr>) = retry_eligible parse_json m"
  by (simp add: retry_eligible_def)

lemma retry_delay_status [simp]: "retry_delay sch (m\<lparr>m_status := s\<rparr>) = retry_delay sch m"
  by (cases sch) (simp_all add: retry_delay_def)

lemma settle_guard_flip:
  assumes "distinct (map m_id t)" "r \<in> set t" "m_id r = mid" "m_status r = ''pending''"
    and "\<And>m. m_id (f m) = m_id m" "\<And>m. m_status (f m) = ''failed''"
  shows "sql_update (\<lambda>m. m_id m = mid \<and> m_status m = ''failed'') g
           (sql_update (\<lambda>m. m_id m = mid \<and> m_status m = ''pending'') f t) =
         sql_update (\<lambda>m. m_id m = mid \<and> m_status m = ''pending'') (\<lambda>m. g (f m)) t"
proof (rule sql_update_compose)
  fix m
  assume "m \<in> set t" "\<not> (m_id m = mid \<and> m_status m = ''pending'')"
  then show "\<not> (m_id m = mid \<and> m_status m = ''failed'')"
    using key_unique [OF assms(1), of m r] assms(2-4) by auto
qed (use assms(5,6) in auto)

lemma sql_update_pending_eq:
  assumes "distinct (map m_id t)" "r \<in> set t" "m_status r = ''pending''"
  shows "sql_update (\<lambda>m. m_id m = m_id r \<and> m_status m = ''pending'') f t =
         map (\<lambda>m. if m = r then f r else m) t"
  by (rule sql_update_one [of m_id]) (use assms in auto)

lemma find_replaced:
  assumes "distinct (map m_id t)" "r \<in> set t" "m_id r' = m_id r" "p r'" "\<And>m. p m \<Longrightarrow> m_id m = m_id r"
  shows "find p (map (\<lambda>m. if m = r then r' else m) t) = Some r'"
  using assms
proof (induction t)
  case (Cons x t)
  then show ?case by (cases "x = r") (auto simp: image_iff)
qed simp

lemma count_others_unchanged:
  assumes "m_id r' = m_id r"
  shows "sql_count (\<lambda>m. q m \<and> m_id m \<noteq> m_id r) (map (\<lambda>m. if m = r then r' else m) t) =
         sql_count (\<lambda>m. q m \<and> m_id m \<noteq> m_id r) t"
  using assms by (induction t) auto

lemma settle_schedule_effect:
  assumes t: "distinct (map m_id t)" "r \<in> set t" "m_status r = ''pending''" and sched: "schedule \<noteq> NoRetry"
  shows "settle_send_failed_schedule parse_json (m_id r) now schedule
           (sql_update (\<lambda>m. m_id m = m_id r \<and> m_status m = ''pending'') (\<lambda>m. m\<lparr>m_status := ''failed''\<rparr>) t) =
         map (\<lambda>m. if m = r then settled_row parse_json now schedule outcomes t r else m) t"
proof -
  let ?t = "sql_update (\<lambda>m. m_id m = m_id r \<and> m_status m = ''pending'') (\<lambda>m. m\<lparr>m_status := ''failed''\<rparr>) t"
  let ?r = "r\<lparr>m_status := ''failed''\<rparr>"
  have tab: "?t = map (\<lambda>m. if m = r then ?r else m) t" by (rule sql_update_pending_eq [OF t])
  have row: "find (\<lambda>m. m_id m = m_id r \<and> m_status m = ''failed'') ?t = Some ?r"
    unfolding tab by (rule find_replaced) (use t in auto)
  have cnt: "sql_count (\<lambda>m. queued_for a m \<and> m_id m \<noteq> m_id r) ?t =
      sql_count (\<lambda>m. queued_for a m \<and> m_id m \<noteq> m_id r) t" for a
    unfolding tab by (rule count_others_unchanged) simp
  have upd: "sql_update (\<lambda>m. m_id m = m_id r \<and> m_status m = ''failed'') g ?t =
      map (\<lambda>m. if m = r then g ?r else m) t" for g
    by (subst settle_guard_flip [OF t(1,2) refl t(3)]) (simp_all add: sql_update_pending_eq [OF t])
  show ?thesis
    using sched row
    by (cases schedule)
      (simp_all add: settle_send_failed_schedule_def cnt retire_retry_schedule_in_def upd settled_row_def
        under_ceiling_def refused_row_def scheduled_row_def retry_delay_def Let_def not_less)
qed

lemma settle_send_failed_effect:
  assumes t: "distinct (map m_id (messages st))" "r \<in> set (messages st)" "m_status r = ''pending''"
  shows "settle_send_failed parse_json (m_id r) now schedule outcomes st =
     (Some (settled_row parse_json now schedule outcomes (messages st) r, True),
      st\<lparr>messages := map (\<lambda>m. if m = r then settled_row parse_json now schedule outcomes (messages st) r
                              else m) (messages st)\<rparr>)"
proof -
  let ?t = "messages st" and ?s = "settled_row parse_json now schedule outcomes (messages st) r"
  have one: "sql_count (\<lambda>m. m_id m = m_id r \<and> m_status m = ''pending'') ?t \<noteq> 0"
    using t(2,3) by (auto simp: sql_count_0_iff)
  have sid: "m_id ?s = m_id r"
    by (simp add: settled_row_def clear_queue_face_def scheduled_row_def refused_row_def)
  have readback: "message_by_pk (m_id r) (map (\<lambda>m. if m = r then ?s else m) ?t) = Some ?s"
    unfolding message_by_pk_def by (rule find_replaced) (use t sid in auto)
  show ?thesis
  proof (cases "schedule = NoRetry")
    case True
    then have s: "?s = (clear_queue_face r)\<lparr>m_status := ''failed'', m_outcomes := coalesce outcomes (m_outcomes r)\<rparr>"
      by (simp add: settled_row_def)
    show ?thesis
      unfolding s
      using one True readback [unfolded s]
      by (simp add: settle_send_failed_def settle_send_failed_schedule_def sql_update_pending_eq [OF t]
          Let_def)
  next
    case False
    then have "schedule = Backoff \<or> schedule = RateLimit" by (cases schedule) auto
    then show ?thesis
      using one readback settle_schedule_effect [OF t False, of parse_json now outcomes]
      by (simp add: settle_send_failed_def Let_def)
  qed
qed

lemma settle_send_failed_late:
  assumes "\<forall>m \<in> set (messages st). m_id m = mid \<longrightarrow> m_status m \<noteq> ''pending''"
  shows "settle_send_failed parse_json mid now schedule outcomes st = (None, st)"
proof -
  have z: "sql_count (\<lambda>m. m_id m = mid \<and> m_status m = ''pending'') (messages st) = 0"
    using assms by (auto simp: sql_count_0_iff)
  show ?thesis by (simp add: settle_send_failed_def z sql_update_none [OF z] Let_def)
qed

lemma eligible_attempts:
  assumes "retry_eligible parse_json m" and "0 \<le> m_attempts m" and "m_attempts m \<le> int MAX_RETRY_ATTEMPTS"
  shows "m_attempts m < int MAX_RETRY_ATTEMPTS"
  using assms by (auto simp: retry_eligible_def as_u64_def retry_consts nat_less_iff)

lemma settled_row_ok: "row_ok m \<Longrightarrow> row_ok (settled_row parse_json now schedule outcomes t m)"
  using eligible_attempts [of parse_json m]
  by (auto simp: settled_row_def scheduled_row_def refused_row_def row_simps coalesce_def
      retry_eligible_def split: option.split)

lemma settled_row_keys [simp]:
  "m_id (settled_row parse_json now schedule outcomes t m) = m_id m"
  "m_account (settled_row parse_json now schedule outcomes t m) = m_account m"
  by (simp_all add: settled_row_def clear_queue_face_def scheduled_row_def refused_row_def)

lemma settled_row_queued:
  "queued_for acct (settled_row parse_json now schedule outcomes t m) \<Longrightarrow>
   m_account m = acct \<and> under_ceiling acct (m_id m) t"
  by (auto simp: settled_row_def refused_row_def scheduled_row_def row_simps split: if_splits)

lemma queued_count_replace:
  assumes "distinct (map m_id t)" "r \<in> set t" "under_ceiling acct (m_id r) t"
  shows "sql_count (queued_for acct) (sql_update (\<lambda>m. m = r) (\<lambda>_. s) t) \<le> MAX_RETRY_QUEUED_PER_ACCOUNT"
proof -
  have "sql_count (\<lambda>m. queued_for acct m \<and> m \<noteq> r) t =
      sql_count (\<lambda>m. queued_for acct m \<and> m_id m \<noteq> m_id r) t"
    unfolding sql_count_def
    by (rule arg_cong [of _ _ length], rule filter_cong [OF refl])
      (use key_unique [OF assms(1) _ assms(2)] in blast)
  moreover have "sql_count (\<lambda>m. m = r) t \<le> 1"
    by (rule sql_count_key_le [OF assms(1)]) auto
  ultimately show ?thesis
    using sql_count_update_split [of "queued_for acct" "\<lambda>m. m = r" "\<lambda>_. s" t] assms(3)
    by (simp add: under_ceiling_def)
qed

lemma queue_inv_settled_row:
  assumes inv: "queue_inv t" and r: "r \<in> set t"
  shows "queue_inv (sql_update (\<lambda>m. m = r) (\<lambda>_. settled_row parse_json now schedule outcomes t r) t)"
    (is "queue_inv (sql_update ?p ?f t)")
proof (rule queue_invI)
  have dist: "distinct (map m_id t)" using inv by (simp add: queue_inv_def)
  have "map m_id (sql_update ?p ?f t) = map m_id t"
    by (auto simp: sql_update_def)
  with dist show "distinct (map m_id (sql_update ?p ?f t))" by simp
  show "row_ok m" if "m \<in> set (sql_update ?p ?f t)" for m
    using that inv r settled_row_ok by (elim sql_update_memE) (simp_all add: queue_inv_def)
  fix acct
  show "sql_count (queued_for acct) (sql_update ?p ?f t) \<le> MAX_RETRY_QUEUED_PER_ACCOUNT"
  proof (cases "queued_for acct (settled_row parse_json now schedule outcomes t r)")
    case True
    then show ?thesis using settled_row_queued [OF True] by (intro queued_count_replace dist r) simp
  next
    case False
    then have "sql_count (queued_for acct) (sql_update ?p ?f t) \<le> sql_count (queued_for acct) t"
      by (intro sql_count_update_le) simp
    with inv show ?thesis by (meson order_trans queue_inv_def)
  qed
qed

lemma settle_queue_inv:
  assumes inv: "queue_inv (messages st)"
  shows "queue_inv (messages (snd (settle_send_failed parse_json mid now schedule outcomes st)))"
proof (cases "\<exists>r \<in> set (messages st). m_id r = mid \<and> m_status r = ''pending''")
  case False
  then show ?thesis using inv by (subst settle_send_failed_late) auto
next
  case True
  then obtain r where r: "r \<in> set (messages st)" "m_id r = mid" "m_status r = ''pending''" by blast
  have "distinct (map m_id (messages st))" using inv by (simp add: queue_inv_def)
  from settle_send_failed_effect [OF this r(1,3), of parse_json now schedule outcomes] r(2)
  have "messages (snd (settle_send_failed parse_json mid now schedule outcomes st)) =
      sql_update (\<lambda>m. m = r) (\<lambda>_. settled_row parse_json now schedule outcomes (messages st) r) (messages st)"
    by (simp add: sql_update_def)
  with queue_inv_settled_row [OF inv r(1)] show ?thesis by simp
qed

section \<open>Claims\<close>

definition claim_refused :: "(string \<Rightarrow> json option) \<Rightarrow> nat \<Rightarrow> message_row \<Rightarrow> bool" where
  "claim_refused parse_json now m \<longleftrightarrow>
     has_attachment_descriptors parse_json (m_attachments m) \<or> retry_window_over now m"

definition claim_effect :: "(string \<Rightarrow> json option) \<Rightarrow> nat \<Rightarrow> message_row \<Rightarrow> message_row" where
  "claim_effect parse_json now m =
     (if claim_refused parse_json now m then m\<lparr>m_next := None\<rparr> else m\<lparr>m_status := ''pending''\<rparr>)"

definition claims_of :: "(string \<Rightarrow> json option) \<Rightarrow> nat \<Rightarrow> message_row list \<Rightarrow> retry_claim list" where
  "claims_of parse_json now rows =
     concat (map (\<lambda>m. if claim_refused parse_json now m then []
                      else case m_crid m of None \<Rightarrow> [] | Some crid \<Rightarrow> [claim_of m crid]) rows)"

lemma claim_effect_id [simp]: "m_id (claim_effect parse_json now m) = m_id m"
  by (simp add: claim_effect_def)

lemma claim_one_effect:
  assumes t: "distinct (map m_id t)" "x \<in> set t" "m_status x = ''failed''"
  shows "claim_one parse_json now x (t, cs) =
     (map (\<lambda>m. if m = x then claim_effect parse_json now x else m) t, cs @ claims_of parse_json now [x])"
proof -
  have upd: "sql_update (\<lambda>m. m_id m = m_id x \<and> m_status m = ''failed'') f t =
      map (\<lambda>m. if m = x then f x else m) t" for f
    by (rule sql_update_one [of m_id]) (use t in auto)
  have one: "sql_count (\<lambda>m. m_id m = m_id x \<and> m_status m = ''failed'') t = 1"
    by (rule sql_count_key [of m_id, OF t(1,2)]) (use t(3) in auto)
  show ?thesis
    by (simp add: claim_one_def retire_retry_schedule_in_def upd one claim_effect_def claim_refused_def
        claims_of_def Let_def split: option.split)
qed

lemma claim_fold_effect:
  assumes "distinct (map m_id t)" "distinct (map m_id rows)" "set rows \<subseteq> set t"
    and "\<forall>m \<in> set rows. m_status m = ''failed''"
  shows "fold (claim_one parse_json now) rows (t, cs) =
     (map (\<lambda>m. if m \<in> set rows then claim_effect parse_json now m else m) t,
      cs @ claims_of parse_json now rows)"
  using assms
proof (induction rows arbitrary: t cs)
  case Nil
  then show ?case by (simp add: claims_of_def)
next
  case (Cons x rows)
  let ?t = "map (\<lambda>m. if m = x then claim_effect parse_json now x else m) t"
  have x: "x \<in> set t" "m_status x = ''failed''" "x \<notin> set rows"
    using Cons.prems by (auto simp: image_iff)
  have notin: "claim_effect parse_json now x \<notin> set rows"
    using Cons.prems(2) by (metis claim_effect_id distinct.simps(2) image_eqI list.simps(9) list.set_map)
  have ids: "map m_id ?t = map m_id t" by auto
  have "fold (claim_one parse_json now) rows (?t, cs @ claims_of parse_json now [x]) =
     (map (\<lambda>m. if m \<in> set rows then claim_effect parse_json now m else m) ?t,
      (cs @ claims_of parse_json now [x]) @ claims_of parse_json now rows)"
  proof (rule Cons.IH)
    show "distinct (map m_id ?t)" unfolding ids by (rule Cons.prems(1))
    show "set rows \<subseteq> set ?t" using Cons.prems(3) x(3) by (auto simp: image_iff)
  qed (use Cons.prems in auto)
  moreover have "map (\<lambda>m. if m \<in> set rows then claim_effect parse_json now m else m) ?t =
      map (\<lambda>m. if m \<in> set (x # rows) then claim_effect parse_json now m else m) t"
    using notin x(3) by simp
  ultimately show ?case
    using claim_one_effect [OF Cons.prems(1) x(1,2), of parse_json now cs]
    by (simp add: claims_of_def)
qed

lemma set_scan_due: "set (scan_due now limit t) \<subseteq> {m \<in> set t. retry_due now m}"
  by (auto simp: scan_due_def dest!: in_set_takeD)

lemma distinct_scan_due:
  assumes "distinct (map m_id t)"
  shows "distinct (map m_id (scan_due now limit t))"
proof -
  have "distinct (map m_id (sort_key (\<lambda>m. (the (m_next m), m_id m)) (filter (retry_due now) t)))"
    using assms by (simp add: distinct_map inj_on_def)
  then show ?thesis by (simp add: scan_due_def take_map [symmetric] distinct_take)
qed

lemma claim_due_retries_effect:
  assumes "distinct (map m_id (messages st))"
  shows "claim_due_retries parse_json now limit st =
     (claims_of parse_json now (scan_due now limit (messages st)),
      st\<lparr>messages := map (\<lambda>m. if m \<in> set (scan_due now limit (messages st))
                              then claim_effect parse_json now m else m) (messages st)\<rparr>)"
proof -
  have "set (scan_due now limit (messages st)) \<subseteq> set (messages st)"
    and "\<forall>m \<in> set (scan_due now limit (messages st)). m_status m = ''failed''"
    using set_scan_due [of now limit "messages st"] by (auto simp: retry_due_def)
  with claim_fold_effect [OF assms distinct_scan_due [OF assms], of now limit parse_json now "[]"]
  show ?thesis by (simp add: claim_due_retries_def)
qed

lemma claim_queue_inv:
  assumes inv: "queue_inv (messages st)"
  shows "queue_inv (messages (snd (claim_due_retries parse_json now limit st)))"
proof -
  let ?S = "set (scan_due now limit (messages st))"
  have dist: "distinct (map m_id (messages st))" using inv by (simp add: queue_inv_def)
  have "queue_inv (sql_update (\<lambda>m. m \<in> ?S) (claim_effect parse_json now) (messages st))"
    by (rule queue_inv_update [OF inv])
      (simp_all add: claim_effect_def row_ok_def queued_for_def split: if_splits)
  then show ?thesis
    by (simp add: claim_due_retries_effect [OF dist] sql_update_def)
qed

section \<open>Steps\<close>

text \<open>
  The writers of the message table that touch the status or the queue columns, in any order:
  insertion (the retry columns take their schema defaults), removal (retention, expiry, account
  deletion), and the settlements, claims and sweeps above.
\<close>

inductive send_step :: "(string \<Rightarrow> json option) \<Rightarrow> store \<Rightarrow> store \<Rightarrow> bool" for parse_json where
  ss_insert: "fresh_row (messages st) m \<Longrightarrow> send_step parse_json st (st\<lparr>messages := messages st @ [m]\<rparr>)"
| ss_remove: "send_step parse_json st (st\<lparr>messages := filter p (messages st)\<rparr>)"
| ss_failed: "send_step parse_json st (snd (settle_send_failed parse_json mid now schedule outcomes st))"
| ss_unknown: "send_step parse_json st (snd (complete_send_unknown mid st))"
| ss_reconcile: "send_step parse_json st (snd (settle_unknown_send mid dispatched st))"
| ss_complete: "send_step parse_json st (snd (complete_outgoing_send mid acct conv sent_at outcomes st))"
| ss_rearm: "send_step parse_json st (snd (rearm_failed_message mid st))"
| ss_retire: "send_step parse_json st (retire_retry_schedule mid st)"
| ss_claim: "send_step parse_json st (snd (claim_due_retries parse_json now limit st))"
| ss_startup: "send_step parse_json st (startup_pending_sweep st)"
| ss_receipt: "nxt = ''delivered'' \<or> nxt = ''read'' \<Longrightarrow>
    send_step parse_json st (receipt_ladder_update acct conv timestamp nxt when first_view st)"

inductive send_reach :: "(string \<Rightarrow> json option) \<Rightarrow> store \<Rightarrow> bool" for parse_json where
  sr_init: "messages st = [] \<Longrightarrow> send_reach parse_json st"
| sr_step: "send_reach parse_json st \<Longrightarrow> send_step parse_json st st' \<Longrightarrow> send_reach parse_json st'"

lemma send_step_queue_inv:
  assumes "send_step parse_json st st'" and "queue_inv (messages st)"
  shows "queue_inv (messages st')"
  using assms
proof (cases rule: send_step.cases)
  case (ss_insert m)
  then show ?thesis using assms(2) queue_inv_insert by simp
next
  case (ss_remove p)
  then show ?thesis using assms(2) queue_inv_filter by simp
qed (use assms(2) in \<open>simp_all add: settle_queue_inv unknown_queue_inv settle_unknown_queue_inv
    complete_queue_inv rearm_queue_inv retire_queue_inv claim_queue_inv startup_queue_inv receipt_queue_inv\<close>)

lemma send_reach_queue_inv: "send_reach parse_json st \<Longrightarrow> queue_inv (messages st)"
proof (induction rule: send_reach.induct)
  case (sr_init st)
  then show ?case by (simp add: queue_inv_def)
next
  case (sr_step st st')
  then show ?case by (blast intro: send_step_queue_inv)
qed

text \<open>How one update acts on the row with a given key.\<close>

lemma sql_update_row_cases:
  assumes "distinct (map m_id t)" "m \<in> set t" "m' \<in> set (sql_update p f t)"
    and "m_id m' = m_id m" "\<And>x. m_id (f x) = m_id x"
  shows "m' = (if p m then f m else m)"
  using assms(3)
proof (rule sql_update_memE)
  fix r
  assume r: "r \<in> set t" "p r" "m' = f r"
  then have "r = m" using key_unique [OF assms(1) _ assms(2), of r] assms(4,5) by simp
  with r show ?thesis by simp
next
  assume r: "m' \<in> set t" "\<not> p m'"
  then have "m' = m" using key_unique [OF assms(1) _ assms(2), of m'] assms(4) by simp
  with r show ?thesis by simp
qed

lemma settle_send_failed_row:
  assumes "distinct (map m_id (messages st))"
    and "m' \<in> set (messages (snd (settle_send_failed parse_json mid now schedule outcomes st)))"
  shows "m' \<in> set (messages st) \<or> m_status m' = ''failed''"
proof (cases "\<exists>r \<in> set (messages st). m_id r = mid \<and> m_status r = ''pending''")
  case False
  then show ?thesis
    using assms(2) settle_send_failed_late [of st mid parse_json now schedule outcomes] by auto
next
  case True
  then obtain r where r: "r \<in> set (messages st)" "m_id r = mid" "m_status r = ''pending''" by blast
  have st: "m_status (settled_row parse_json now schedule outcomes (messages st) r) = ''failed''"
    by (simp add: settled_row_def clear_queue_face_def scheduled_row_def refused_row_def)
  from assms(2) settle_send_failed_effect [OF assms(1) r(1,3), of parse_json now schedule outcomes] r(2)
  have "m' \<in> (\<lambda>m. if m = r then settled_row parse_json now schedule outcomes (messages st) r else m) ` set (messages st)"
    by simp
  then show ?thesis using st by (elim imageE) (simp split: if_splits)
qed

lemma unknown_not_dispatched_row:
  assumes "distinct (map m_id t)" "m \<in> set t" "m_status m = ''unknown''" "m' \<in> set (sql_update p f t)"
    and "m_id m' = m_id m" "\<And>x. m_id (f x) = m_id x" "p m \<Longrightarrow> m_status (f m) \<noteq> ''pending''"
  shows "m_status m' \<noteq> ''pending''"
  using sql_update_row_cases [OF assms(1,2,4,5,6)] assms(3,7) by (simp split: if_splits)

lemma unknown_stays_under_claim:
  assumes "distinct (map m_id (messages st))" "m \<in> set (messages st)" "m_status m = ''unknown''"
    and "m' \<in> set (messages (snd (claim_due_retries parse_json now limit st)))" "m_id m' = m_id m"
  shows "m_status m' \<noteq> ''pending''"
proof (rule unknown_not_dispatched_row [OF assms(1-3)])
  show "m' \<in> set (sql_update (\<lambda>m. m \<in> set (scan_due now limit (messages st)))
      (claim_effect parse_json now) (messages st))"
    using assms(4) by (simp add: claim_due_retries_effect [OF assms(1)] sql_update_def)
  show "m_status (claim_effect parse_json now m) \<noteq> ''pending''" if "m \<in> set (scan_due now limit (messages st))"
    using that assms(3) set_scan_due [of now limit "messages st"] by (auto simp: retry_due_def)
qed (use assms(5) in simp_all)

lemma unknown_stays_under_complete:
  assumes "distinct (map m_id (messages st))" "m \<in> set (messages st)" "m_status m = ''unknown''"
    and "m' \<in> set (messages (snd (complete_outgoing_send mid acct conv at o' st)))" "m_id m' = m_id m"
  shows "m_status m' \<noteq> ''pending''"
proof -
  let ?own = "\<lambda>m. m_id m = mid \<and> m_account m = acct \<and> m_conv m = conv"
  let ?f = "\<lambda>m. (clear_queue_face m)\<lparr>m_status := ''sent'', m_sent_at := as_i64 at, m_outcomes := o'\<rparr>"
  obtain q where "m' \<in> set (messages st) \<or> m' \<in> set (sql_update ?own ?f (filter q (messages st)))"
  proof (rule that)
    let ?ds = "take 2 (sort (map m_id (filter (echo_duplicate mid acct conv at) (messages st))))"
    have "(case ?ds of [d] \<Rightarrow> filter (\<lambda>m. m_id m \<noteq> d) (messages st) | _ \<Rightarrow> messages st) =
        filter (\<lambda>m. case ?ds of [d] \<Rightarrow> m_id m \<noteq> d | _ \<Rightarrow> True) (messages st)"
      by (auto split: list.split)
    then show "m' \<in> set (messages st) \<or> m' \<in> set (sql_update ?own ?f
        (filter (\<lambda>m. case ?ds of [d] \<Rightarrow> m_id m \<noteq> d | _ \<Rightarrow> True) (messages st)))"
      using assms(4) by (simp add: complete_outgoing_send_def Let_def split: if_splits)
  qed
  then show ?thesis
  proof
    assume "m' \<in> set (messages st)"
    then show ?thesis using key_unique [OF assms(1) _ assms(2), of m'] assms(3,5) by auto
  next
    assume "m' \<in> set (sql_update ?own ?f (filter q (messages st)))"
    then show ?thesis
    proof (rule sql_update_memE)
      assume "m' \<in> set (filter q (messages st))"
      then show ?thesis using key_unique [OF assms(1) _ assms(2), of m'] assms(3,5) by auto
    qed (simp add: clear_queue_face_def)
  qed
qed

lemma unknown_stays_under_settle:
  assumes "distinct (map m_id (messages st))" "m \<in> set (messages st)" "m_status m = ''unknown''"
    and "m' \<in> set (messages (snd (settle_unknown_send mid dispatched st)))" "m_id m' = m_id m"
  shows "m_status m' \<noteq> ''pending''"
proof -
  let ?t = "sql_update (\<lambda>m. m_id m = mid \<and> m_status m = ''unknown'')
    (\<lambda>m. (clear_queue_face m)\<lparr>m_status := (if dispatched then ''sent'' else ''failed'')\<rparr>) (messages st)"
  let ?u = "sql_update (\<lambda>m. m_id m = mid \<and> m_next m \<noteq> None) (\<lambda>m. m\<lparr>m_next := None\<rparr>) ?t"
  have t: "m_status x \<noteq> ''pending''" if "x \<in> set ?t" "m_id x = m_id m" for x
    by (rule unknown_not_dispatched_row [OF assms(1-3) that]) (simp_all add: clear_queue_face_def)
  have u: "m_status x \<noteq> ''pending''" if "x \<in> set ?u" "m_id x = m_id m" for x
    using that(1) by (rule sql_update_memE) (use t that(2) in auto)
  have k: "m_status x \<noteq> ''pending''" if "x \<in> set (messages st)" "m_id x = m_id m" for x
    using key_unique [OF assms(1) that(1) assms(2)] that(2) assms(3) by simp
  show ?thesis
    using assms(4) t [OF _ assms(5)] u [OF _ assms(5)] k [OF _ assms(5)]
    by (auto simp: settle_unknown_send_def Let_def split: if_splits option.splits)
qed

lemma unknown_stays_under_unknown:
  assumes "distinct (map m_id (messages st))" "m \<in> set (messages st)" "m_status m = ''unknown''"
    and "m' \<in> set (messages (snd (complete_send_unknown mid st)))" "m_id m' = m_id m"
  shows "m_status m' \<noteq> ''pending''"
proof -
  have t: "m_status x \<noteq> ''pending''" if "x \<in> set (messages (retire_retry_schedule mid st))" "m_id x = m_id m" for x
    by (rule unknown_not_dispatched_row [OF assms(1-3), of x "\<lambda>m. m_id m = mid" clear_queue_face])
      (use that assms(3) in \<open>simp_all add: retire_retry_schedule_def clear_queue_face_def\<close>)
  from assms(4) have "m' \<in> set (sql_update (\<lambda>m. m_id m = mid \<and> m_status m \<noteq> ''unknown'')
      (\<lambda>m. m\<lparr>m_status := ''unknown'', m_sent_at := m_sent_at m\<rparr>) (messages (retire_retry_schedule mid st)))"
    by (simp add: complete_send_unknown_def update_message_status_def Let_def)
  then show ?thesis by (rule sql_update_memE) (use t assms(5) in auto)
qed

lemma unknown_never_dispatchable:
  assumes "send_step parse_json st st'" and "distinct (map m_id (messages st))"
    and "m \<in> set (messages st)" "m_status m = ''unknown''" "m' \<in> set (messages st')" "m_id m' = m_id m"
  shows "m_status m' \<noteq> ''pending''"
  using assms(1)
proof (cases rule: send_step.cases)
  case (ss_insert x)
  with assms(3-6) key_unique [OF assms(2), of m' m] show ?thesis by (auto simp: fresh_row_def)
next
  case (ss_remove p)
  with assms(3-6) key_unique [OF assms(2), of m' m] show ?thesis by auto
next
  case (ss_failed mid now schedule outcomes)
  with assms(5) settle_send_failed_row [OF assms(2)] have "m' \<in> set (messages st) \<or> m_status m' = ''failed''"
    by blast
  with assms(3,4,6) key_unique [OF assms(2), of m' m] show ?thesis by auto
next
  case (ss_unknown mid)
  with assms(5) have "m' \<in> set (messages (snd (complete_send_unknown mid st)))" by simp
  then show ?thesis by (rule unknown_stays_under_unknown [OF assms(2-4) _ assms(6)])
next
  case (ss_reconcile mid dispatched)
  with assms(5) have "m' \<in> set (messages (snd (settle_unknown_send mid dispatched st)))" by simp
  then show ?thesis by (rule unknown_stays_under_settle [OF assms(2-4) _ assms(6)])
next
  case (ss_complete mid acct conv sent_at outcomes)
  with assms(5) have "m' \<in> set (messages (snd (complete_outgoing_send mid acct conv sent_at outcomes st)))" by simp
  then show ?thesis by (rule unknown_stays_under_complete [OF assms(2-4) _ assms(6)])
next
  case (ss_claim now limit)
  with assms(5) have "m' \<in> set (messages (snd (claim_due_retries parse_json now limit st)))" by simp
  then show ?thesis by (rule unknown_stays_under_claim [OF assms(2-4) _ assms(6)])
next
  case (ss_rearm mid)
  show ?thesis
    by (rule unknown_not_dispatched_row [OF assms(2-4) _ assms(6),
          of "\<lambda>m. m_id m = mid \<and> m_status m = ''failed''" "\<lambda>m. (clear_queue_face m)\<lparr>m_status := ''pending''\<rparr>"])
      (use ss_rearm assms(4,5) in \<open>simp_all add: rearm_failed_message_def Let_def clear_queue_face_def\<close>)
next
  case (ss_retire mid)
  show ?thesis
    by (rule unknown_not_dispatched_row [OF assms(2-4) _ assms(6), of "\<lambda>m. m_id m = mid" clear_queue_face])
      (use ss_retire assms(4,5) in \<open>simp_all add: retire_retry_schedule_def clear_queue_face_def\<close>)
next
  case ss_startup
  show ?thesis
    by (rule unknown_not_dispatched_row [OF assms(2-4) _ assms(6), of "\<lambda>m. m_status m = ''pending''"
          "\<lambda>m. (clear_queue_face m)\<lparr>m_status := ''failed''\<rparr>"])
      (use ss_startup assms(5) in \<open>simp_all add: startup_pending_sweep_def clear_queue_face_def\<close>)
next
  case (ss_receipt nxt acct conv ts w fv)
  have "m' \<in> set (messages (receipt_ladder_update acct conv ts nxt w fv st))" using ss_receipt assms(5) by simp
  then show ?thesis
    unfolding receipt_ladder_update_def
    by (simp, elim sql_update_memE)
      (use ss_receipt assms(3,4,6) key_unique [OF assms(2), of m' m] in auto)
qed

section \<open>The backoff curve\<close>

lemma retry_backoff_loop_le: "retry_backoff_loop k d \<le> RETRY_BACKOFF_MAX_MS"
  by (induction k d rule: retry_backoff_loop.induct) (simp_all add: Let_def)

lemma retry_backoff_loop_numeral:
  "retry_backoff_loop (numeral k) delay =
     (let delay' = sat_mul64 delay RETRY_BACKOFF_FACTOR_NUM div RETRY_BACKOFF_FACTOR_DEN in
      if delay' \<ge> RETRY_BACKOFF_MAX_MS then RETRY_BACKOFF_MAX_MS
      else retry_backoff_loop (pred_numeral k) delay')"
  by (simp add: numeral_eq_Suc)

lemmas backoff_eval =
  retry_backoff_delay_ms_def retry_consts sat_mul64_def u64_max_def retry_backoff_loop_numeral Let_def

lemma retry_backoff_beats:
  "retry_backoff_delay_ms 1 = 190" "retry_backoff_delay_ms 2 = 361" "retry_backoff_delay_ms 3 = 685"
  "retry_backoff_delay_ms 4 = 1301" "retry_backoff_delay_ms 5 = 2471" "retry_backoff_delay_ms 6 = 4694"
  "retry_backoff_delay_ms 7 = 8918" "retry_backoff_delay_ms 8 = 16944" "retry_backoff_delay_ms 9 = 32193"
  "retry_backoff_delay_ms 10 = 61166" "retry_backoff_delay_ms 11 = 116215"
  "retry_backoff_delay_ms 12 = 220808" "retry_backoff_delay_ms 13 = 419535"
  "retry_backoff_delay_ms 14 = 797116"
  by (simp_all add: backoff_eval)

lemma retry_backoff_capped:
  assumes "15 \<le> n"
  shows "retry_backoff_delay_ms n = RETRY_BACKOFF_MAX_MS"
proof -
  obtain j where n: "n = 15 + j" using assms by (auto simp: le_iff_add)
  have "n - 1 = Suc (Suc (Suc (Suc (Suc (Suc (Suc (Suc (Suc (Suc (Suc (Suc (Suc (Suc j)))))))))))))"
    by (simp add: n)
  then show ?thesis by (simp add: backoff_eval)
qed

lemma retry_backoff_0: "retry_backoff_delay_ms 0 = 190"
  by (simp add: backoff_eval)

lemma retry_backoff_loop_mono: "retry_backoff_loop k d \<le> retry_backoff_loop (Suc k) d"
proof (induction k arbitrary: d)
  case 0
  have "d \<le> d * 19 div 10" by simp
  then show ?case by (auto simp: Let_def retry_consts sat_mul64_def u64_max_def min_def)
next
  case (Suc k)
  show ?case
    using Suc.IH [of "sat_mul64 d RETRY_BACKOFF_FACTOR_NUM div RETRY_BACKOFF_FACTOR_DEN"]
    by (subst (1 2) retry_backoff_loop.simps(2)) (simp add: Let_def del: retry_backoff_loop.simps)
qed

lemma retry_backoff_mono: "retry_backoff_delay_ms n \<le> retry_backoff_delay_ms (Suc n)"
  using retry_backoff_loop_mono [of "n - 1" RETRY_BACKOFF_BASE_MS]
  by (cases n) (simp_all add: retry_backoff_delay_ms_def del: retry_backoff_loop.simps)

lemma retry_backoff_total:
  "sum_list (map retry_backoff_delay_ms [1..<15]) = 1682597"
proof -
  have "[1..<15] = 1 # [2..<15 :: nat]" by (simp add: upt_conv_Cons numeral_2_eq_2 del: upt_rec_numeral)
  then show ?thesis by (simp add: retry_backoff_beats del: One_nat_def)
qed

lemma retry_backoff_capped_total:
  "sum_list (map retry_backoff_delay_ms [15..<m]) = (m - 15) * RETRY_BACKOFF_MAX_MS"
proof -
  have "map retry_backoff_delay_ms [15..<m] = map (\<lambda>_. RETRY_BACKOFF_MAX_MS) [15..<m]"
    by (rule map_cong) (auto simp: retry_backoff_capped)
  then show ?thesis by (simp add: map_replicate_const sum_list_replicate)
qed

section \<open>A row that is rate limited at every beat\<close>

text \<open>One round: the settlement at \<open>now\<close>, then the drain pass at the Retry-After beat.\<close>

definition rate_limit_round ::
    "(string \<Rightarrow> json option) \<Rightarrow> nat \<Rightarrow> string \<Rightarrow> nat \<Rightarrow> store \<Rightarrow> store" where
  "rate_limit_round parse_json limit mid now st =
     snd (claim_due_retries parse_json (now + RATE_LIMIT_RETRY_AFTER_MS) limit
       (snd (settle_send_failed parse_json mid now RateLimit None st)))"

fun rate_limit_run ::
    "(string \<Rightarrow> json option) \<Rightarrow> nat \<Rightarrow> string \<Rightarrow> nat \<Rightarrow> nat \<Rightarrow> store \<Rightarrow> store" where
  "rate_limit_run parse_json limit mid t0 0 st = st"
| "rate_limit_run parse_json limit mid t0 (Suc k) st =
     rate_limit_round parse_json limit mid (t0 + k * RATE_LIMIT_RETRY_AFTER_MS)
       (rate_limit_run parse_json limit mid t0 k st)"

definition rate_limited_row :: "nat \<Rightarrow> nat \<Rightarrow> message_row \<Rightarrow> message_row" where
  "rate_limited_row t0 k r =
     (if k = 0 then r
      else r\<lparr>m_next := Some (int (t0 + k * RATE_LIMIT_RETRY_AFTER_MS)), m_attempts := int k,
             m_first := Some (int t0)\<rparr>)"

definition plain_text_row :: "message_row \<Rightarrow> bool" where
  "plain_text_row r \<longleftrightarrow> m_status r = ''pending'' \<and> m_direction r = ''outgoing'' \<and> m_crid r \<noteq> None \<and>
     m_attachments r = None \<and> m_body r \<noteq> None \<and> m_body r \<noteq> Some [] \<and> m_first r = None \<and>
     m_attempts r = 0 \<and> m_next r = None"

lemma rate_limited_row_eligible:
  assumes "plain_text_row r" "k < 128"
  shows "retry_eligible parse_json (rate_limited_row t0 k r)" "m_status (rate_limited_row t0 k r) = ''pending''"
    "m_id (rate_limited_row t0 k r) = m_id r"
  using assms
  by (auto simp: plain_text_row_def retry_eligible_def rate_limited_row_def has_attachment_descriptors_def
      as_u64_def retry_consts split: option.splits)

lemma rate_limited_row_settled:
  assumes "plain_text_row r" "k < 128" "t0 < 2 ^ 62"
  shows "settled_row parse_json (t0 + k * RATE_LIMIT_RETRY_AFTER_MS) RateLimit None
           [rate_limited_row t0 k r] (rate_limited_row t0 k r) =
         (rate_limited_row t0 (Suc k) r)\<lparr>m_status := ''failed''\<rparr>"
proof -
  let ?x = "rate_limited_row t0 k r"
  have elig: "retry_eligible parse_json ?x" using assms by (simp add: rate_limited_row_eligible)
  have ceil: "under_ceiling a (m_id ?x) [?x]" for a
    by (simp add: under_ceiling_def retry_consts)
  have small: "t0 + k * 60000 + 60000 < 2 ^ 63" using assms by simp
  have "settled_row parse_json (t0 + k * 60000) RateLimit None [?x] ?x = scheduled_row (t0 + k * 60000) 60000 ?x"
    using elig ceil by (simp add: settled_row_def retry_delay_def retry_consts)
  also have "\<dots> = (rate_limited_row t0 (Suc k) r)\<lparr>m_status := ''failed''\<rparr>"
    using assms(1) small
    by (simp add: scheduled_row_def rate_limited_row_def plain_text_row_def sat_add64_def u64_max_def
        as_i64_def retry_consts)
  finally show ?thesis by (simp add: retry_consts)
qed

lemma rate_limited_row_claimed:
  assumes "plain_text_row r" "k < 128" "t0 < 2 ^ 62" "0 < limit"
    and "x = (rate_limited_row t0 (Suc k) r)\<lparr>m_status := ''failed''\<rparr>"
  shows "scan_due (t0 + Suc k * 60000) limit [x] = [x]"
    and "claim_effect parse_json (t0 + Suc k * 60000) x = rate_limited_row t0 (Suc k) r"
proof -
  have small: "t0 + Suc k * 60000 < 2 ^ 63" using assms by simp
  have due: "retry_due (t0 + Suc k * 60000) x"
    using assms(1,5) small by (simp add: retry_due_def rate_limited_row_def plain_text_row_def as_i64_def retry_consts)
  then show "scan_due (t0 + Suc k * 60000) limit [x] = [x]"
    using assms(4) by (cases limit) (simp_all add: scan_due_def)
  have "\<not> claim_refused parse_json (t0 + Suc k * 60000) x"
    using assms
    by (simp add: claim_refused_def has_attachment_descriptors_def rate_limited_row_def plain_text_row_def
        retry_window_over_def retry_window_start_def as_u64_def retry_consts)
  then show "claim_effect parse_json (t0 + Suc k * 60000) x = rate_limited_row t0 (Suc k) r"
    using assms(1,5) by (simp add: claim_effect_def rate_limited_row_def plain_text_row_def)
qed

lemma rate_limit_round_effect:
  assumes "plain_text_row r" "k < 128" "t0 < 2 ^ 62" "0 < limit"
    and st: "messages st = [rate_limited_row t0 k r]"
  shows "messages (rate_limit_round parse_json limit (m_id r) (t0 + k * RATE_LIMIT_RETRY_AFTER_MS) st) =
    [rate_limited_row t0 (Suc k) r]"
proof -
  let ?x = "rate_limited_row t0 k r" and ?y = "(rate_limited_row t0 (Suc k) r)\<lparr>m_status := ''failed''\<rparr>"
  let ?now = "t0 + k * RATE_LIMIT_RETRY_AFTER_MS"
  have x: "?x \<in> set (messages st)" "m_status ?x = ''pending''" "m_id ?x = m_id r"
    using st rate_limited_row_eligible [OF assms(1,2)] by simp_all
  have d: "distinct (map m_id (messages st))" using st by simp
  let ?st = "snd (settle_send_failed parse_json (m_id r) ?now RateLimit None st)"
  have m: "messages ?st = [?y]"
    using settle_send_failed_effect [OF d x(1,2), of parse_json ?now RateLimit None] st x(3)
      rate_limited_row_settled [OF assms(1-3), of parse_json] by simp
  have now: "?now + RATE_LIMIT_RETRY_AFTER_MS = t0 + Suc k * 60000" by (simp add: retry_consts)
  have d': "distinct (map m_id (messages ?st))" using m by simp
  show ?thesis
    using claim_due_retries_effect [OF d', of parse_json "t0 + Suc k * 60000" limit]
      rate_limited_row_claimed [OF assms(1-4) refl] m
    by (simp add: rate_limit_round_def now)
qed

lemma rate_limit_run_effect:
  assumes "plain_text_row r" "k \<le> 128" "t0 < 2 ^ 62" "0 < limit" and "messages st = [r]"
  shows "messages (rate_limit_run parse_json limit (m_id r) t0 k st) = [rate_limited_row t0 k r]"
  using assms(2)
proof (induction k)
  case 0
  then show ?case using assms(5) by (simp add: rate_limited_row_def)
next
  case (Suc k)
  then show ?case using rate_limit_round_effect [OF assms(1) _ assms(3,4)] by simp
qed

lemma rate_limit_budget_spent:
  assumes "plain_text_row r" "t0 < 2 ^ 62"
    and "messages st = [rate_limited_row t0 128 r]"
  shows "messages (snd (settle_send_failed parse_json (m_id r) now RateLimit None st)) =
    [(rate_limited_row t0 128 r)\<lparr>m_status := ''failed'', m_next := None\<rparr>]"
proof -
  let ?x = "rate_limited_row t0 128 r"
  have x: "?x \<in> set (messages st)" "m_status ?x = ''pending''" "m_id ?x = m_id r"
    and d: "distinct (map m_id (messages st))"
    using assms(1,3) by (simp_all add: rate_limited_row_def plain_text_row_def)
  have "\<not> retry_eligible parse_json ?x"
    by (simp add: retry_eligible_def rate_limited_row_def as_u64_def retry_consts)
  then have "settled_row parse_json now RateLimit None (messages st) ?x = ?x\<lparr>m_status := ''failed'', m_next := None\<rparr>"
    by (simp add: settled_row_def refused_row_def)
  with settle_send_failed_effect [OF d x(1,2), of parse_json now RateLimit None] assms(3) x(3)
  show ?thesis by simp
qed
section \<open>Facts about claims\<close>

lemma claims_ofD:
  "c \<in> set (claims_of parse_json now rows) \<Longrightarrow>
   \<exists>m \<in> set rows. \<not> claim_refused parse_json now m \<and> (\<exists>crid. m_crid m = Some crid \<and> c = claim_of m crid)"
  by (auto simp: claims_of_def split: if_splits option.splits) metis

lemma claims_of_Cons:
  "claims_of parse_json now (m # rows) = claims_of parse_json now [m] @ claims_of parse_json now rows"
  by (simp add: claims_of_def)

lemma claims_of_one: "\<exists>crid. claims_of parse_json now [m] = [] \<or> claims_of parse_json now [m] = [claim_of m crid]"
  by (auto simp: claims_of_def split: option.split)

lemma claim_of_id [simp]: "rc_message_id (claim_of m crid) = m_id m"
  by (simp add: claim_of_def)

lemma distinct_claims_of:
  "distinct (map m_id rows) \<Longrightarrow> distinct (map rc_message_id (claims_of parse_json now rows))"
proof (induction rows)
  case (Cons m rows)
  have "m_id m \<notin> set (map rc_message_id (claims_of parse_json now rows))"
  proof
    assume "m_id m \<in> set (map rc_message_id (claims_of parse_json now rows))"
    then obtain c where c: "c \<in> set (claims_of parse_json now rows)" "rc_message_id c = m_id m" by auto
    then obtain r where "r \<in> set rows" "m_id r = m_id m" using claims_ofD [OF c(1)] by auto
    with Cons.prems show False by (metis distinct.simps(2) imageI list.set_map list.simps(9))
  qed
  with Cons claims_of_one [of parse_json now m] show ?case
    by (subst claims_of_Cons) auto
qed (simp add: claims_of_def)

lemma length_claims_of: "length (claims_of parse_json now rows) \<le> length rows"
proof (induction rows)
  case (Cons m rows)
  with claims_of_one [of parse_json now m] show ?case by (subst claims_of_Cons) auto
qed (simp add: claims_of_def)

lemma claimed_row_pending:
  assumes d: "distinct (map m_id (messages st))"
    and c: "c \<in> set (fst (claim_due_retries parse_json now limit st))"
  obtains m where "m \<in> set (messages st)" "rc_message_id c = m_id m" "retry_due now m"
    "\<not> claim_refused parse_json now m"
    "m\<lparr>m_status := ''pending''\<rparr> \<in> set (messages (snd (claim_due_retries parse_json now limit st)))"
proof -
  from c obtain m where m: "m \<in> set (scan_due now limit (messages st))" "\<not> claim_refused parse_json now m"
      "rc_message_id c = m_id m"
    unfolding claim_due_retries_effect [OF d] fst_conv by (auto dest!: claims_ofD)
  have mem: "m \<in> set (messages st)" "retry_due now m"
    using set_scan_due [of now limit "messages st"] m(1) by auto
  have "claim_effect parse_json now m \<in> set (messages (snd (claim_due_retries parse_json now limit st)))"
    unfolding claim_due_retries_effect [OF d] using m(1) mem(1) by (auto simp: image_iff)
  with m(2) have "m\<lparr>m_status := ''pending''\<rparr> \<in> set (messages (snd (claim_due_retries parse_json now limit st)))"
    by (simp add: claim_effect_def)
  with mem m show ?thesis by (intro that)
qed

lemma claim_keeps_ids:
  "distinct (map m_id (messages st)) \<Longrightarrow>
   map m_id (messages (snd (claim_due_retries parse_json now limit st))) = map m_id (messages st)"
  by (simp add: claim_due_retries_effect)

section \<open>Properties\<close>

definition sample_row :: message_row where
  "sample_row = blank_message\<lparr>m_id := ''m1'', m_account := ''acct'', m_conv := ''conv'',
     m_direction := ''outgoing'', m_sender := ''acct'', m_sent_at := 900, m_body := Some ''hello'',
     m_status := ''pending'', m_crid := Some ''req-1''\<rparr>"

definition sample_store :: store where
  "sample_store = \<lparr>messages = [sample_row], conversations = [], accounts = []\<rparr>"

lemmas sample_defs = sample_store_def sample_row_def blank_message_def

lemma sample_reach: "send_reach parse_json sample_store"
proof -
  have "send_reach parse_json \<lparr>messages = [], conversations = [], accounts = []\<rparr>" by (rule sr_init) simp
  moreover have "send_step parse_json \<lparr>messages = [], conversations = [], accounts = []\<rparr>
      (\<lparr>messages = [], conversations = [], accounts = []\<rparr>\<lparr>messages :=
         messages \<lparr>messages = [], conversations = [], accounts = []\<rparr> @ [sample_row]\<rparr>)"
    by (rule ss_insert) (simp add: fresh_row_def sample_defs)
  ultimately show ?thesis unfolding sample_store_def by (auto intro: sr_step)
qed

text \<open>
  C9. In every store that inserts, settlements, claims, reconciliations, receipts, removals and restarts
  can reach, in any order: a row whose outcome is unknown carries no retry schedule, a scheduled row is an
  outgoing row with a client request id and a window anchor, no row has more than 128 automatic attempts,
  and no account has more than 256 rows waiting for a retry.
\<close>

theorem send_queue_bounded:
  assumes "send_reach parse_json st"
  shows "distinct (map m_id (messages st)) \<and>
    (\<forall>m \<in> set (messages st).
       (m_status m = ''unknown'' \<longrightarrow> m_next m = None) \<and>
       0 \<le> m_attempts m \<and> m_attempts m \<le> int MAX_RETRY_ATTEMPTS \<and>
       (m_next m \<noteq> None \<longrightarrow>
          m_direction m = ''outgoing'' \<and> m_crid m \<noteq> None \<and> m_first m \<noteq> None \<and> 1 \<le> m_attempts m)) \<and>
    (\<forall>acct. sql_count (queued_for acct) (messages st) \<le> MAX_RETRY_QUEUED_PER_ACCOUNT)"
  using send_reach_queue_inv [OF assms] by (simp add: queue_inv_def row_ok_def)

theorem send_queue_bounded_witness:
  "sql_count (queued_for ''acct'')
     (messages (snd (settle_send_failed (\<lambda>_. None) ''m1'' 1000 Backoff None sample_store)))
     \<le> MAX_RETRY_QUEUED_PER_ACCOUNT"
proof -
  have "send_reach (\<lambda>_. None) (snd (settle_send_failed (\<lambda>_. None) ''m1'' 1000 Backoff None sample_store))"
    by (rule sr_step [OF sample_reach]) (rule ss_failed)
  from send_queue_bounded [OF this] show ?thesis by blast
qed



text \<open>
  C35. Settling a failed send acts on the one pending row and on no other: a plain failure clears the queue
  columns; an automatic arm schedules the row exactly when it is an eligible text row with attempts left
  and the account is under its ceiling, keeping the first anchor of the window, and refuses it otherwise.
  A late answer for a row that is no longer pending changes nothing.
\<close>

theorem settle_send_failed_exact:
  assumes "distinct (map m_id (messages st))"
  shows "(\<forall>r \<in> set (messages st). m_status r = ''pending'' \<longrightarrow>
      settle_send_failed parse_json (m_id r) now schedule outcomes st =
        (Some (settled_row parse_json now schedule outcomes (messages st) r, True),
         st\<lparr>messages := map (\<lambda>m. if m = r then settled_row parse_json now schedule outcomes (messages st) r
                                 else m) (messages st)\<rparr>)) \<and>
    ((\<forall>m \<in> set (messages st). m_id m = mid \<longrightarrow> m_status m \<noteq> ''pending'') \<longrightarrow>
      settle_send_failed parse_json mid now schedule outcomes st = (None, st))"
  using settle_send_failed_effect [OF assms] settle_send_failed_late by blast

theorem settle_send_failed_exact_witness:
  "fst (settle_send_failed (\<lambda>_. None) ''m1'' 1000 Backoff None sample_store) =
     Some (sample_row\<lparr>m_status := ''failed'', m_next := Some 1190, m_attempts := 1, m_first := Some 1000\<rparr>, True)"
proof -
  have "settle_send_failed (\<lambda>_. None) (m_id sample_row) 1000 Backoff None sample_store =
     (Some (settled_row (\<lambda>_. None) 1000 Backoff None (messages sample_store) sample_row, True),
      sample_store\<lparr>messages := map (\<lambda>m. if m = sample_row
         then settled_row (\<lambda>_. None) 1000 Backoff None (messages sample_store) sample_row else m)
         (messages sample_store)\<rparr>)"
    using settle_send_failed_exact [of sample_store] by (simp add: sample_defs)
  moreover have "settled_row (\<lambda>_. None) 1000 Backoff None (messages sample_store) sample_row =
      sample_row\<lparr>m_status := ''failed'', m_next := Some 1190, m_attempts := 1, m_first := Some 1000\<rparr>"
    by (simp add: settled_row_def retry_eligible_def under_ceiling_def scheduled_row_def retry_delay_def
        has_attachment_descriptors_def backoff_eval sat_add64_def as_i64_def as_u64_def sample_defs)
  ultimately show ?thesis by (simp add: sample_defs)
qed





text \<open>
  The backoff curve is monotone, never exceeds fifteen minutes and sits at that ceiling exactly from
  the fifteenth beat on; on this curve the 24-hour window runs out before the attempt budget: the first 109
  beats already fill it, and 109 is below 128.
\<close>

lemma retry_backoff_window_binds:
  "retry_backoff_delay_ms n \<le> retry_backoff_delay_ms (Suc n) \<and>
   retry_backoff_delay_ms n \<le> RETRY_BACKOFF_MAX_MS \<and>
   retry_backoff_delay_ms 14 < RETRY_BACKOFF_MAX_MS \<and>
   retry_backoff_delay_ms (15 + n) = RETRY_BACKOFF_MAX_MS \<and>
   RETRY_WINDOW_MS \<le> sum_list (map retry_backoff_delay_ms [1..<110]) \<and> 109 < MAX_RETRY_ATTEMPTS"
proof -
  have "[1..<110] = [1..<15] @ [15..<110 :: nat]" by (simp add: upt_add_eq_append [of 1 15 95, simplified])
  then have "sum_list (map retry_backoff_delay_ms [1..<110]) = 1682597 + 95 * RETRY_BACKOFF_MAX_MS"
    using retry_backoff_total retry_backoff_capped_total [of 110] by simp
  then show ?thesis
    using retry_backoff_mono [of n] retry_backoff_loop_le [of "n - 1" RETRY_BACKOFF_BASE_MS]
      retry_backoff_capped [of "15 + n"]
    by (simp add: retry_backoff_beats retry_backoff_delay_ms_def [of n] retry_consts)
qed

text \<open>
  On the rate-limit arm the attempt budget binds first: a text row that is rate limited at every
  one-minute beat and claimed on time has used all 128 attempts 128 minutes after its first failure, well
  inside the 24-hour window, and its next rate-limited settlement retires it for good.
\<close>

lemma rate_limit_budget_binds_first:
  assumes "plain_text_row r" and "t0 < 2 ^ 62" and "0 < limit" and "messages st = [r]"
  shows "messages (snd (settle_send_failed parse_json (m_id r) (t0 + 128 * RATE_LIMIT_RETRY_AFTER_MS) RateLimit None
           (rate_limit_run parse_json limit (m_id r) t0 128 st))) =
         [r\<lparr>m_status := ''failed'', m_next := None, m_attempts := 128, m_first := Some (int t0)\<rparr>] \<and>
     128 * RATE_LIMIT_RETRY_AFTER_MS < RETRY_WINDOW_MS"
  using rate_limit_budget_spent [OF assms(1,2) rate_limit_run_effect [OF assms(1) order_refl assms(2-4)]]
  by (simp add: rate_limited_row_def retry_consts)

end
