(* ===== verification/Chat_State.thy ===== *)
theory Chat_State
  imports Store_Tables
begin

text \<open>
  Conversation state of \<open>src/store.rs\<close>: inserting a message with its summary and badge updates, the
  attachment repair of a replayed insert, clearing the unread badge, the read watermark, and the sweep of
  expired messages. Serialization of descriptor lists and of the rich record is an argument
  (\<open>att_codec\<close>, \<open>rich_codec\<close>); so is the store's clock.
\<close>

section \<open>Attachments\<close>

record locator =
  loc_key :: "string option"
  loc_cdn_key :: "string option"
  loc_cdn_number :: "nat option"
  loc_upload_timestamp :: "nat option"
  loc_digest :: "string option"
  loc_plaintext_hash :: "string option"

definition default_locator :: locator where
  "default_locator =
     \<lparr>loc_key = None, loc_cdn_key = None, loc_cdn_number = None, loc_upload_timestamp = None,
      loc_digest = None, loc_plaintext_hash = None\<rparr>"

text \<open>A descriptor: its id, its locator face, and the other fields carried as one opaque value.\<close>

record attachment =
  att_id :: string
  att_locator :: "locator option"
  att_rest :: string

record att_codec =
  de_attachments :: "string \<Rightarrow> attachment list option"
  ser_attachments :: "attachment list \<Rightarrow> string"
  de_locators :: "string \<Rightarrow> locator list option"
  ser_locators :: "locator list \<Rightarrow> string"

text \<open>One step of the merge loop: position \<open>i\<close> of the incoming list.\<close>

definition merge_face_step ::
    "nat \<times> attachment \<Rightarrow> attachment list \<times> locator list \<times> bool \<Rightarrow> attachment list \<times> locator list \<times> bool" where
  "merge_face_step = (\<lambda>(i, candidate) (descriptors, faces, changed).
     let (descriptors, changed) =
           (if length descriptors \<le> i then (descriptors @ [candidate], True)
            else if att_id (descriptors ! i) = [] then (descriptors[i := candidate], True)
            else (descriptors, changed))
     in case att_locator candidate of
          None \<Rightarrow> (descriptors, faces, changed)
        | Some face \<Rightarrow>
            if face = default_locator then (descriptors, faces, changed)
            else
              let (faces, changed) =
                    (if length faces \<le> i
                     then (faces @ replicate (i + 1 - length faces) default_locator, True)
                     else (faces, changed))
              in if faces ! i = default_locator then (descriptors, faces[i := face], True)
                 else (descriptors, faces, changed))"

definition merge_attachment_faces_in ::
    "att_codec \<Rightarrow> string \<Rightarrow> string \<Rightarrow> attachment list \<Rightarrow> message_row list \<Rightarrow> bool \<times> message_row list" where
  "merge_attachment_faces_in codec acct mid incoming t =
     (if incoming = [] \<or> list_ex (\<lambda>d. att_id d = []) incoming then (False, t)
      else case find (\<lambda>m. m_account m = acct \<and> m_id m = mid) t of
        None \<Rightarrow> (False, t)
      | Some row \<Rightarrow>
          (case (case m_attachments row of None \<Rightarrow> Some [] | Some s \<Rightarrow> de_attachments codec s) of
             None \<Rightarrow> (False, t)
           | Some descriptors \<Rightarrow>
               (case (case m_live_locators row of None \<Rightarrow> Some [] | Some s \<Rightarrow> de_locators codec s) of
                  None \<Rightarrow> (False, t)
                | Some faces \<Rightarrow>
                    (let (ds, fs, changed) =
                           fold merge_face_step (enumerate 0 incoming) (descriptors, faces, False)
                     in if \<not> changed then (False, t)
                        else (True,
                          sql_update (\<lambda>m. m_account m = acct \<and> m_id m = mid)
                            (\<lambda>m. m\<lparr>m_attachments := (if ds = [] then None else Some (ser_attachments codec ds)),
                                   m_live_locators := (if fs = [] then None else Some (ser_locators codec fs))\<rparr>)
                            t)))))"

section \<open>Inserting a message\<close>

record message_record =
  mr_id :: string
  mr_account :: string
  mr_conv :: string
  mr_direction :: string
  mr_sender :: string
  mr_sent_at :: nat
  mr_received_at :: "nat option"
  mr_text :: "string option"
  mr_text_bytes :: "nat option"
  mr_text_truncated :: bool
  mr_text_retrievable :: bool
  mr_status :: string
  mr_quote_snapshot :: "string option"
  mr_attachments :: "attachment list"
  mr_rich :: "string option"
  mr_sticker :: "string option"
  mr_mentions_self :: bool
  mr_expire_seconds :: "nat option"
  mr_expire_start_at :: "nat option"

definition expire_deadline :: "message_record \<Rightarrow> nat \<Rightarrow> nat option" where
  "expire_deadline m stored_at =
     (case mr_expire_seconds m of
        None \<Rightarrow> None
      | Some seconds \<Rightarrow>
          if seconds > 0 then
            Some (min (sat_add64
                        (case coalesce (mr_expire_start_at m) (mr_received_at m) of
                           None \<Rightarrow> stored_at | Some v \<Rightarrow> v)
                        (sat_mul64 seconds 1000))
                      (2 ^ 63 - 1))
          else None)"

definition row_of_record :: "att_codec \<Rightarrow> message_record \<Rightarrow> string option \<Rightarrow> nat \<Rightarrow> message_row" where
  "row_of_record codec m crid stored_at =
     blank_message\<lparr>m_id := mr_id m, m_account := mr_account m, m_conv := mr_conv m,
       m_direction := mr_direction m, m_sender := mr_sender m, m_sent_at := as_i64 (mr_sent_at m),
       m_received_at := map_option as_i64 (mr_received_at m), m_stored_at := Some (as_i64 stored_at),
       m_body := mr_text m, m_body_bytes := map_option int (mr_text_bytes m),
       m_body_truncated := (mr_text_truncated m \<and> \<not> mr_text_retrievable m), m_status := mr_status m,
       m_crid := crid, m_quote_snapshot := mr_quote_snapshot m,
       m_attachments := (if mr_attachments m = [] then None
                         else Some (ser_attachments codec (mr_attachments m))),
       m_live_locators := (if mr_attachments m = [] then None
                           else Some (ser_locators codec
                             (map (\<lambda>d. case att_locator d of None \<Rightarrow> default_locator | Some l \<Rightarrow> l)
                                (mr_attachments m)))),
       m_rich := mr_rich m, m_sticker := mr_sticker m, m_mentions_self := mr_mentions_self m,
       m_expire_at := map_option as_i64 (expire_deadline m stored_at)\<rparr>"

text \<open>The conflicts \<open>INSERT OR IGNORE\<close> ignores: the primary key and the partial unique index.\<close>

definition insert_conflicts :: "message_record \<Rightarrow> string option \<Rightarrow> message_row list \<Rightarrow> bool" where
  "insert_conflicts m crid t \<longleftrightarrow>
     list_ex (\<lambda>r. m_id r = mr_id m \<or> (crid \<noteq> None \<and> m_account r = mr_account m \<and> m_crid r = crid)) t"

text \<open>The two summary updates that ride the insert.\<close>

definition bump_conversation :: "message_record \<Rightarrow> string option \<Rightarrow> bool \<Rightarrow> conversation_row \<Rightarrow> conversation_row" where
  "bump_conversation m preview increment_unread c =
     (let at = as_i64 (mr_sent_at m);
          newer = (case c_last_at c of None \<Rightarrow> True | Some v \<Rightarrow> v < at)
      in c\<lparr>c_preview := (if newer then preview else c_preview c),
           c_last_at := bump_at (c_last_at c) at,
           c_unread := c_unread c + (if increment_unread then 1 else 0),
           c_mentions := c_mentions c + (if increment_unread \<and> mr_mentions_self m then 1 else 0)\<rparr>)"

definition bump_account :: "message_record \<Rightarrow> bool \<Rightarrow> account_row \<Rightarrow> account_row" where
  "bump_account m increment_unread a =
     a\<lparr>a_last_at := bump_at (a_last_at a) (as_i64 (mr_sent_at m)),
       a_unread := a_unread a + (if increment_unread then 1 else 0)\<rparr>"

definition insert_message ::
    "att_codec \<Rightarrow> nat \<Rightarrow> message_record \<Rightarrow> string option \<Rightarrow> string option \<Rightarrow> bool \<Rightarrow> store \<Rightarrow>
     (store_error + bool) \<times> store" where
  "insert_message codec now m crid preview increment_unread st =
     (if insert_conflicts m crid (messages st) then
        (Inr False, st\<lparr>messages := snd (merge_attachment_faces_in codec (mr_account m) (mr_id m)
                          (mr_attachments m) (messages st))\<rparr>)
      else if \<not> list_ex (\<lambda>a. a_id a = mr_account m) (accounts st) \<or>
              \<not> list_ex (\<lambda>c. c_id c = mr_conv m) (conversations st)
      then (Inl Unavailable, st)
      else if sql_count (\<lambda>c. c_id c = mr_conv m) (conversations st) \<noteq> 1 then (Inl ConversationNotFound, st)
      else if sql_count (\<lambda>a. a_id a = mr_account m) (accounts st) \<noteq> 1 then (Inl AccountNotFound, st)
      else
        (Inr True,
         st\<lparr>messages := messages st @ [row_of_record codec m crid now],
            conversations := sql_update (\<lambda>c. c_id c = mr_conv m)
              (bump_conversation m preview increment_unread) (conversations st),
            accounts := sql_update (\<lambda>a. a_id a = mr_account m)
              (bump_account m increment_unread) (accounts st)\<rparr>))"

section \<open>The unread badge and the watermark\<close>

definition clear_conversation_unread :: "string \<Rightarrow> string \<Rightarrow> store \<Rightarrow> (store_error + nat) \<times> store" where
  "clear_conversation_unread acct conv st =
     (let own = (\<lambda>c. c_id c = conv \<and> c_account c = acct);
          prev = (case find own (conversations st) of None \<Rightarrow> 0 | Some c \<Rightarrow> c_unread c)
      in if prev \<le> 0 then (Inr 0, st)
         else
           let cs = sql_update own (\<lambda>c. c\<lparr>c_unread := 0, c_mentions := 0\<rparr>) (conversations st);
               as = sql_update (\<lambda>a. a_id a = acct)
                      (\<lambda>a. a\<lparr>a_unread := (if a_unread a > prev then a_unread a - prev else 0)\<rparr>) (accounts st)
           in if sql_count own (conversations st) \<noteq> 1 then (Inl ConversationNotFound, st)
              else if sql_count (\<lambda>a. a_id a = acct) (accounts st) \<noteq> 1 then (Inl AccountNotFound, st)
              else (Inr (nat prev mod 2 ^ 32), st\<lparr>conversations := cs, accounts := as\<rparr>))"

definition fold_watermark :: "string \<Rightarrow> string \<Rightarrow> int \<Rightarrow> conversation_row list \<Rightarrow> conversation_row list" where
  "fold_watermark acct conv at cs =
     sql_update (\<lambda>c. c_id c = conv \<and> c_account c = acct)
       (\<lambda>c. c\<lparr>c_watermark := Some (max (case c_watermark c of None \<Rightarrow> 0 | Some w \<Rightarrow> w) at)\<rparr>) cs"

definition newest_incoming :: "string \<Rightarrow> string \<Rightarrow> message_row list \<Rightarrow> int option" where
  "newest_incoming acct conv t =
     (case map m_sent_at (filter (\<lambda>m. m_account m = acct \<and> m_conv m = conv \<and> m_direction m = ''incoming'') t) of
        [] \<Rightarrow> None
      | v # vs \<Rightarrow> Some (fold max vs v))"

definition advance_read_watermark_latest :: "string \<Rightarrow> string \<Rightarrow> store \<Rightarrow> store" where
  "advance_read_watermark_latest acct conv st =
     (case newest_incoming acct conv (messages st) of
        None \<Rightarrow> st
      | Some newest \<Rightarrow>
          if newest > 0 then st\<lparr>conversations := fold_watermark acct conv newest (conversations st)\<rparr> else st)"

text \<open>Binding a \<open>u64\<close> above \<open>i64::MAX\<close> to an SQL parameter fails.\<close>

definition advance_read_watermark_to :: "string \<Rightarrow> string \<Rightarrow> nat \<Rightarrow> store \<Rightarrow> (store_error + unit) \<times> store" where
  "advance_read_watermark_to acct conv sent_at st =
     (if sent_at < 2 ^ 63
      then (Inr (), st\<lparr>conversations := fold_watermark acct conv (int sent_at) (conversations st)\<rparr>)
      else (Inl Unavailable, st))"

definition advance_read_watermark_to_message ::
    "string \<Rightarrow> string \<Rightarrow> string \<Rightarrow> store \<Rightarrow> (store_error + unit) \<times> store" where
  "advance_read_watermark_to_message acct conv mid st =
     (case find (\<lambda>m. m_id m = mid \<and> m_account m = acct \<and> m_conv m = conv) (messages st) of
        None \<Rightarrow> (Inl ReadWatermarkTargetInvalid, st)
      | Some m \<Rightarrow>
          if m_sent_at m \<le> 0 then (Inl ReadWatermarkTargetInvalid, st)
          else
            let st' = st\<lparr>conversations := fold_watermark acct conv (m_sent_at m) (conversations st)\<rparr>
            in if sql_count (\<lambda>c. c_id c = conv \<and> c_account c = acct) (conversations st) \<noteq> 1
               then (Inl ConversationNotFound, st')
               else (Inr (), st'))"

section \<open>The expiry sweep\<close>

definition PREVIEW_CHARS :: nat where "PREVIEW_CHARS = 120"

text \<open>\<open>x LIKE '%pattern%'\<close>: SQLite compares ASCII letters without case.\<close>

definition ascii_lower :: "char \<Rightarrow> char" where
  "ascii_lower c = (if is_ascii_uppercase c then char_of (byte c + 32) else c)"

definition like_contains :: "string \<Rightarrow> string \<Rightarrow> bool" where
  "like_contains p s = contains (map ascii_lower p) (map ascii_lower s)"

definition VIEW_ONCE_MARKER :: string where
  "VIEW_ONCE_MARKER = [CHR 0x22] @ ''viewOnce'' @ [CHR 0x22] @ '':true''"

definition VIEW_ONCE_INVALID_MARKER :: string where
  "VIEW_ONCE_INVALID_MARKER = [CHR 0x22] @ ''viewOnceInvalid'' @ [CHR 0x22] @ '':true''"

definition is_view_once :: "message_row \<Rightarrow> bool" where
  "is_view_once m =
     (case m_rich m of None \<Rightarrow> False
      | Some r \<Rightarrow> like_contains VIEW_ONCE_MARKER r \<or> like_contains VIEW_ONCE_INVALID_MARKER r)"

definition expire_due :: "nat \<Rightarrow> message_row \<Rightarrow> bool" where
  "expire_due now m =
     ((case m_expire_at m of None \<Rightarrow> False | Some v \<Rightarrow> v \<le> as_i64 now) \<and> \<not> m_is_erased m)"

record rich =
  rich_view_once :: "bool option"
  rich_view_once_invalid :: "bool option"
  rich_view_once_opened_at :: "nat option"
  rich_expire_timer_version :: "nat option"
  rich_is_recipient_update :: "bool option"
  rich_unidentified_status :: "string option"
  rich_story_message_recipients :: "string option"
  rich_content :: "string option"

record rich_codec =
  de_rich :: "string \<Rightarrow> rich option"
  ser_rich :: "rich \<Rightarrow> string option"

definition default_rich :: rich where
  "default_rich =
     \<lparr>rich_view_once = None, rich_view_once_invalid = None, rich_view_once_opened_at = None,
      rich_expire_timer_version = None, rich_is_recipient_update = None, rich_unidentified_status = None,
      rich_story_message_recipients = None, rich_content = None\<rparr>"

definition erased_rich_json :: "rich_codec \<Rightarrow> string option \<Rightarrow> string option" where
  "erased_rich_json codec rich_json =
     (case rich_json of
        None \<Rightarrow> None
      | Some s \<Rightarrow>
          (let r = (case de_rich codec s of None \<Rightarrow> default_rich | Some r \<Rightarrow> r)
           in ser_rich codec (r\<lparr>rich_content := None\<rparr>)))"

definition erase_row :: "rich_codec \<Rightarrow> string option \<Rightarrow> message_row \<Rightarrow> message_row" where
  "erase_row codec rich_json m =
     m\<lparr>m_body := None, m_body_bytes := None, m_body_truncated := False, m_quote_snapshot := None,
       m_attachments := None, m_attachment_locators := None, m_live_locators := None,
       m_sticker := None, m_rich := erased_rich_json codec rich_json, m_is_erased := True\<rparr>"

definition newest_row :: "message_row list \<Rightarrow> message_row option" where
  "newest_row t = (case sort_key (\<lambda>m. (m_sent_at m, m_id m)) t of [] \<Rightarrow> None | x # xs \<Rightarrow> Some (last (x # xs)))"

definition repair_summary :: "message_row list \<Rightarrow> string \<Rightarrow> conversation_row list \<Rightarrow> conversation_row list" where
  "repair_summary t conv cs =
     (let rows = filter (\<lambda>m. m_conv m = conv) t;
          incoming = sql_count (\<lambda>m. m_conv m = conv \<and> m_direction m = ''incoming'') t
      in sql_update (\<lambda>c. c_id c = conv)
           (\<lambda>c. c\<lparr>c_last_at := (case map m_sent_at rows of [] \<Rightarrow> None | v # vs \<Rightarrow> Some (fold max vs v)),
                  c_preview := Option.bind (newest_row rows)
                    (\<lambda>m. map_option (\<lambda>b. concat (take PREVIEW_CHARS (utf8_chars b))) (m_body m)),
                  c_unread := min (c_unread c) (int incoming)\<rparr>) cs)"

definition repair_accounts :: "conversation_row list \<Rightarrow> account_row list \<Rightarrow> account_row list" where
  "repair_accounts cs as =
     map (\<lambda>a. a\<lparr>a_unread := sum_list (map c_unread (filter (\<lambda>c. c_account c = a_id a) cs)),
                a_last_at :=
                  (case List.map_filter c_last_at (filter (\<lambda>c. c_account c = a_id a) cs) of
                     [] \<Rightarrow> None | v # vs \<Rightarrow> Some (fold max vs v))\<rparr>) as"

definition expire_order :: "message_row \<Rightarrow> int \<times> string" where
  "expire_order m = (the (m_expire_at m), m_id m)"

definition due_view_once :: "nat \<Rightarrow> nat \<Rightarrow> message_row list \<Rightarrow> message_row list" where
  "due_view_once now cap t =
     take cap (sort_key expire_order (filter (\<lambda>m. expire_due now m \<and> is_view_once m) t))"

definition due_plain :: "nat \<Rightarrow> nat \<Rightarrow> message_row list \<Rightarrow> message_row list" where
  "due_plain now cap t =
     take cap (sort_key expire_order (filter (\<lambda>m. expire_due now m \<and> \<not> is_view_once m) t))"

record expired_group =
  eg_account :: string
  eg_conv :: string
  eg_message_ids :: "string list"

text \<open>
  The groups of deleted rows, keyed and ordered as the \<open>BTreeMap\<close> is. SQLite leaves the order of
  \<open>RETURNING\<close> rows open; the ids of a group are in table order here.
\<close>

definition expired_groups :: "message_row list \<Rightarrow> expired_group list" where
  "expired_groups deleted =
     map (\<lambda>(acct, conv).
            \<lparr>eg_account = acct, eg_conv = conv,
             eg_message_ids = map m_id (filter (\<lambda>m. m_account m = acct \<and> m_conv m = conv) deleted)\<rparr>)
       (remdups (sort (map (\<lambda>m. (m_account m, m_conv m)) deleted)))"

definition sweep_expired_messages ::
    "rich_codec \<Rightarrow> nat \<Rightarrow> nat \<Rightarrow> store \<Rightarrow> expired_group list \<times> store" where
  "sweep_expired_messages codec now cap st =
     (let burned = due_view_once now cap (messages st);
          t1 = fold (\<lambda>r. sql_update (\<lambda>m. m_id m = m_id r) (erase_row codec (m_rich r))) burned (messages st);
          delete_cap = cap - length burned;
          doomed = (if delete_cap > 0 then due_plain now delete_cap t1 else []);
          deleted = filter (\<lambda>m. m_id m \<in> set (map m_id doomed)) t1;
          t2 = filter (\<lambda>m. m_id m \<notin> set (map m_id doomed)) t1;
          touched = remdups (sort (map (\<lambda>m. (m_account m, m_conv m)) (burned @ deleted)));
          cs = fold (\<lambda>(_, conv). repair_summary t2 conv) touched (conversations st)
      in (expired_groups deleted,
          st\<lparr>messages := t2, conversations := cs, accounts := repair_accounts cs (accounts st)\<rparr>))"

section \<open>Badge totals\<close>

definition account_total :: "string \<Rightarrow> conversation_row list \<Rightarrow> int" where
  "account_total acct cs = sum_list (map c_unread (filter (\<lambda>c. c_account c = acct) cs))"

definition unread_ok :: "store \<Rightarrow> bool" where
  "unread_ok st \<longleftrightarrow>
     distinct (map c_id (conversations st)) \<and> distinct (map a_id (accounts st)) \<and>
     (\<forall>c \<in> set (conversations st). 0 \<le> c_unread c) \<and>
     (\<forall>a \<in> set (accounts st). a_unread a = account_total (a_id a) (conversations st))"

lemma account_total_update:
  assumes "\<And>c. c_account (f c) = c_account c"
    and "\<And>c. c \<in> set cs \<Longrightarrow> p c \<Longrightarrow> c_unread (f c) = c_unread c + d"
  shows "account_total acct (sql_update p f cs) =
     account_total acct cs + d * int (sql_count (\<lambda>c. p c \<and> c_account c = acct) cs)"
  using assms(2) by (induction cs) (auto simp: account_total_def assms(1) algebra_simps)

lemma account_total_nonneg: "(\<And>c. c \<in> set cs \<Longrightarrow> 0 \<le> c_unread c) \<Longrightarrow> 0 \<le> account_total acct cs"
  by (induction cs) (auto simp: account_total_def)

lemma account_total_ge:
  assumes "\<And>c. c \<in> set cs \<Longrightarrow> 0 \<le> c_unread c" "c \<in> set cs" "c_account c = acct"
  shows "c_unread c \<le> account_total acct cs"
  using assms
proof (induction cs)
  case (Cons x cs)
  have "0 \<le> account_total acct cs" using Cons.prems(1) by (intro account_total_nonneg) simp
  with Cons show ?case by (force simp: account_total_def)
qed simp

lemma key_count_scoped:
  assumes "distinct (map c_id cs)" "c \<in> set cs"
    and "\<And>x. x \<in> set cs \<Longrightarrow> p x \<longleftrightarrow> x = c"
  shows "sql_count (\<lambda>x. p x \<and> c_account x = acct) cs = (if c_account c = acct then 1 else 0)"
proof (cases "c_account c = acct")
  case True
  have "sql_count (\<lambda>x. p x \<and> c_account x = acct) cs = 1"
    by (rule sql_count_key [OF assms(1,2)]) (use assms True in auto)
  with True show ?thesis by simp
next
  case False
  then have "sql_count (\<lambda>x. p x \<and> c_account x = acct) cs = 0"
    using assms(3) by (auto simp: sql_count_0_iff)
  with False show ?thesis by simp
qed

lemma unread_ok_messages [simp]: "unread_ok (st\<lparr>messages := t\<rparr>) = unread_ok st"
  by (simp add: unread_ok_def)

lemma bump_conversation_frame [simp]:
  "c_id (bump_conversation m p inc c) = c_id c"
  "c_account (bump_conversation m p inc c) = c_account c"
  "c_unread (bump_conversation m p inc c) = c_unread c + (if inc then 1 else 0)"
  by (simp_all add: bump_conversation_def Let_def)

lemma bump_account_frame [simp]:
  "a_id (bump_account m inc a) = a_id a"
  "a_unread (bump_account m inc a) = a_unread a + (if inc then 1 else 0)"
  by (simp_all add: bump_account_def)

lemma insert_totals:
  assumes ok: "unread_ok st"
    and c: "c \<in> set (conversations st)" "c_id c = mr_conv m" "c_account c = mr_account m"
  shows "unread_ok (st\<lparr>messages := ms,
      conversations := sql_update (\<lambda>c. c_id c = mr_conv m) (bump_conversation m p inc) (conversations st),
      accounts := sql_update (\<lambda>a. a_id a = mr_account m) (bump_account m inc) (accounts st)\<rparr>)"
    (is "unread_ok (st\<lparr>messages := ms, conversations := ?cs, accounts := ?as\<rparr>)")
proof -
  have keys: "distinct (map c_id (conversations st))" "distinct (map a_id (accounts st))"
    using ok by (simp_all add: unread_ok_def)
  have uniq: "c_id x = mr_conv m \<longleftrightarrow> x = c" if "x \<in> set (conversations st)" for x
    using key_unique [OF keys(1) that c(1)] c(2) by auto
  have tot: "account_total acct ?cs =
      account_total acct (conversations st) + (if inc then 1 else 0) * int (if mr_account m = acct then 1 else 0)" for acct
    using key_count_scoped [OF keys(1) c(1) uniq, of acct] c(3)
    by (subst account_total_update [where d = "if inc then 1 else 0"]) simp_all
  have nn: "0 \<le> c_unread x" if "x \<in> set ?cs" for x
    using that ok by (elim sql_update_memE) (simp_all add: unread_ok_def)
  have sums: "a_unread a = account_total (a_id a) ?cs" if "a \<in> set ?as" for a
    using that ok by (elim sql_update_memE) (simp_all add: tot unread_ok_def)
  show ?thesis using nn sums keys by (simp add: unread_ok_def sql_update_keys)
qed

lemma insert_message_unread_ok:
  assumes ok: "unread_ok st"
    and conv: "\<And>c. c \<in> set (conversations st) \<Longrightarrow> c_id c = mr_conv m \<Longrightarrow> c_account c = mr_account m"
  shows "unread_ok (snd (insert_message codec now m crid preview inc st))"
proof (cases "list_ex (\<lambda>c. c_id c = mr_conv m) (conversations st)")
  case True
  then obtain c where "c \<in> set (conversations st)" "c_id c = mr_conv m" by (auto simp: list_ex_iff)
  with insert_totals [OF ok, of c m] conv ok show ?thesis by (simp add: insert_message_def)
next
  case False
  with ok show ?thesis by (simp add: insert_message_def)
qed

lemma clear_unread_ok:
  assumes ok: "unread_ok st"
  shows "unread_ok (snd (clear_conversation_unread acct conv st))"
proof -
  let ?own = "\<lambda>c. c_id c = conv \<and> c_account c = acct"
  have keys: "distinct (map c_id (conversations st))" "distinct (map a_id (accounts st))"
    and nn: "\<And>c. c \<in> set (conversations st) \<Longrightarrow> 0 \<le> c_unread c"
    and sums: "\<And>a. a \<in> set (accounts st) \<Longrightarrow> a_unread a = account_total (a_id a) (conversations st)"
    using ok by (simp_all add: unread_ok_def)
  show ?thesis
  proof (cases "find ?own (conversations st)")
    case None
    then show ?thesis using ok by (simp add: clear_conversation_unread_def)
  next
    case (Some c)
    then have c: "c \<in> set (conversations st)" "c_id c = conv" "c_account c = acct"
      using find_Some_in [OF Some] by simp_all
    let ?f = "\<lambda>c. c\<lparr>c_unread := 0, c_mentions := 0\<rparr>"
    let ?g = "\<lambda>a. a\<lparr>a_unread := (if a_unread a > c_unread c then a_unread a - c_unread c else 0)\<rparr>"
    let ?cs = "sql_update ?own ?f (conversations st)" and ?as = "sql_update (\<lambda>a. a_id a = acct) ?g (accounts st)"
    have uniq: "x \<in> set (conversations st) \<Longrightarrow> ?own x \<longleftrightarrow> x = c" for x
      using key_unique [OF keys(1) _ c(1), of x] c by auto
    have cnt: "sql_count (\<lambda>x. ?own x \<and> c_account x = b) (conversations st) = (if acct = b then 1 else 0)" for b
      using key_count_scoped [OF keys(1) c(1) uniq, of b] c(3) by simp
    have tot: "account_total b ?cs = account_total b (conversations st) + (- c_unread c) * int (if acct = b then 1 else 0)" for b
      by (subst account_total_update [where d = "- c_unread c"]) (use uniq cnt in auto)
    have "unread_ok (st\<lparr>conversations := ?cs, accounts := ?as\<rparr>)"
    proof -
      have "0 \<le> c_unread x" if "x \<in> set ?cs" for x
        using that nn by (elim sql_update_memE) simp_all
      moreover have "a_unread a = account_total (a_id a) ?cs" if "a \<in> set ?as" for a
        using that sums account_total_ge [OF nn c(1,3)]
        by (elim sql_update_memE) (auto simp: tot)
      ultimately show ?thesis using keys by (simp add: unread_ok_def sql_update_keys)
    qed
    then show ?thesis using ok Some by (simp add: clear_conversation_unread_def Let_def cong: if_cong)
  qed
qed

section \<open>The sweep\<close>

lemma erase_row_id [simp]: "m_id (erase_row codec r m) = m_id m"
  by (simp add: erase_row_def)

lemma due_view_once_subset:
  "set (due_view_once now cap t) \<subseteq> {m \<in> set t. expire_due now m \<and> is_view_once m}"
  by (auto simp: due_view_once_def dest!: in_set_takeD)

lemma due_plain_subset:
  "set (due_plain now cap t) \<subseteq> {m \<in> set t. expire_due now m \<and> \<not> is_view_once m}"
  by (auto simp: due_plain_def dest!: in_set_takeD)

lemma distinct_due_view_once:
  assumes "distinct (map m_id t)"
  shows "distinct (map m_id (due_view_once now cap t))"
proof -
  have "distinct (map m_id (sort_key expire_order (filter (\<lambda>m. expire_due now m \<and> is_view_once m) t)))"
    using assms by (simp add: distinct_map inj_on_def)
  then show ?thesis by (simp add: due_view_once_def take_map [symmetric] distinct_take)
qed

definition burned_table :: "rich_codec \<Rightarrow> nat \<Rightarrow> nat \<Rightarrow> message_row list \<Rightarrow> message_row list" where
  "burned_table codec now cap t =
     map (\<lambda>m. if m \<in> set (due_view_once now cap t) then erase_row codec (m_rich m) m else m) t"

lemma burn_fold:
  assumes "distinct (map m_id t)"
  shows "fold (\<lambda>r. sql_update (\<lambda>m. m_id m = m_id r) (erase_row codec (m_rich r))) (due_view_once now cap t) t =
     burned_table codec now cap t"
  unfolding burned_table_def
  by (rule fold_keyed_update [of m_id t _ "\<lambda>r. erase_row codec (m_rich r)"])
    (use assms distinct_due_view_once [of t] due_view_once_subset [of now cap t] in auto)

lemma repair_summary_frame:
  "map c_id (repair_summary t conv cs) = map c_id cs"
  "map c_mentions (repair_summary t conv cs) = map c_mentions cs"
  "map c_account (repair_summary t conv cs) = map c_account cs"
  by (simp_all add: repair_summary_def Let_def sql_update_keys)

lemma repair_fold_frame:
  "map c_id (fold (\<lambda>(_, conv). repair_summary t conv) ks cs) = map c_id cs"
  "map c_mentions (fold (\<lambda>(_, conv). repair_summary t conv) ks cs) = map c_mentions cs"
  by (induction ks arbitrary: cs) (auto simp: repair_summary_frame)

lemma repair_summary_nonneg:
  "(\<forall>c \<in> set cs. 0 \<le> c_unread c) \<Longrightarrow> \<forall>c \<in> set (repair_summary t conv cs). 0 \<le> c_unread c"
  unfolding repair_summary_def Let_def by (intro ballI, elim sql_update_memE) simp_all

lemma repair_fold_nonneg:
  "(\<forall>c \<in> set cs. 0 \<le> c_unread c) \<Longrightarrow>
   \<forall>c \<in> set (fold (\<lambda>(_, conv). repair_summary t conv) ks cs). 0 \<le> c_unread c"
proof (induction ks arbitrary: cs)
  case (Cons k ks)
  show ?case using Cons.IH [OF repair_summary_nonneg [OF Cons.prems]] by (cases k) simp
qed simp

lemma sweep_unread_ok:
  assumes "unread_ok st"
  shows "unread_ok (snd (sweep_expired_messages codec now cap st))"
proof -
  have "unread_ok (st\<lparr>messages := ms, conversations := fold (\<lambda>(_, conv). repair_summary t conv) ks (conversations st),
      accounts := repair_accounts (fold (\<lambda>(_, conv). repair_summary t conv) ks (conversations st)) (accounts st)\<rparr>)" for ms t ks
    using assms repair_fold_nonneg [of "conversations st" t ks]
    by (simp add: unread_ok_def repair_fold_frame repair_accounts_def account_total_def comp_def)
  then show ?thesis by (simp add: sweep_expired_messages_def Let_def)
qed

lemma sweep_mentions:
  "map c_mentions (conversations (snd (sweep_expired_messages codec now cap st))) =
   map c_mentions (conversations st)"
  by (simp add: sweep_expired_messages_def Let_def repair_fold_frame)

lemma burned_table_ids: "map m_id (burned_table codec now cap t) = map m_id t"
  by (auto simp: burned_table_def)

definition sweep_doomed :: "rich_codec \<Rightarrow> nat \<Rightarrow> nat \<Rightarrow> message_row list \<Rightarrow> message_row list" where
  "sweep_doomed codec now cap t =
     (let n = cap - length (due_view_once now cap t)
      in if n > 0 then due_plain now n (burned_table codec now cap t) else [])"

lemma sweep_doomed_subset:
  "set (sweep_doomed codec now cap t) \<subseteq>
     {m \<in> set (burned_table codec now cap t). expire_due now m \<and> \<not> is_view_once m}"
  using due_plain_subset [of now "cap - length (due_view_once now cap t)" "burned_table codec now cap t"]
  by (auto simp: sweep_doomed_def Let_def)

lemma length_sweep_doomed: "length (sweep_doomed codec now cap t) \<le> cap - length (due_view_once now cap t)"
  by (simp add: sweep_doomed_def due_plain_def Let_def)

lemma sweep_messages:
  assumes "distinct (map m_id (messages st))"
  shows "messages (snd (sweep_expired_messages codec now cap st)) =
     filter (\<lambda>m. m_id m \<notin> set (map m_id (sweep_doomed codec now cap (messages st))))
       (burned_table codec now cap (messages st))"
  by (simp add: sweep_expired_messages_def burn_fold [OF assms] sweep_doomed_def Let_def)

lemma sweep_spares:
  assumes d: "distinct (map m_id t)" and x: "x \<in> set (burned_table codec now cap t)"
    and spared: "\<not> expire_due now x \<or> is_view_once x"
  shows "m_id x \<notin> set (map m_id (sweep_doomed codec now cap t))"
proof
  have dt: "distinct (map m_id (burned_table codec now cap t))" using d by (simp only: burned_table_ids)
  assume "m_id x \<in> set (map m_id (sweep_doomed codec now cap t))"
  then obtain y where y: "y \<in> set (sweep_doomed codec now cap t)" "m_id y = m_id x" by auto
  have "y \<in> set (burned_table codec now cap t)" "expire_due now y" "\<not> is_view_once y"
    using sweep_doomed_subset [of codec now cap t] y(1) by blast+
  with key_unique [OF dt _ x, of y] y(2) spared show False by simp
qed

lemma sweep_keeps_undue:
  assumes d: "distinct (map m_id (messages st))" and m: "m \<in> set (messages st)" "\<not> expire_due now m"
  shows "m \<in> set (messages (snd (sweep_expired_messages codec now cap st)))"
proof -
  have "m \<notin> set (due_view_once now cap (messages st))"
    using due_view_once_subset [of now cap "messages st"] m(2) by auto
  with m(1) have "m \<in> set (burned_table codec now cap (messages st))" by (force simp: burned_table_def)
  with sweep_spares [OF d this] m(2) show ?thesis by (simp add: sweep_messages [OF d])
qed

lemma sweep_keeps_view_once:
  assumes d: "distinct (map m_id (messages st))" and m: "m \<in> set (messages st)" "is_view_once m"
  shows "\<exists>m' \<in> set (messages (snd (sweep_expired_messages codec now cap st))).
     m_id m' = m_id m \<and> (m' = m \<or> m' = erase_row codec (m_rich m) m)"
proof -
  define x where "x = (if m \<in> set (due_view_once now cap (messages st)) then erase_row codec (m_rich m) m else m)"
  have mt: "x \<in> set (burned_table codec now cap (messages st))" using m(1) by (auto simp: burned_table_def x_def)
  have "\<not> expire_due now x \<or> is_view_once x"
    using m(2) by (simp add: x_def erase_row_def expire_due_def)
  with sweep_spares [OF d mt] mt have "x \<in> set (messages (snd (sweep_expired_messages codec now cap st)))"
    by (simp add: sweep_messages [OF d])
  then show ?thesis by (rule bexI [rotated]) (simp add: x_def)
qed

lemma keyed_filter_length:
  assumes "distinct (map m_id t)"
  shows "length (filter (\<lambda>m. m_id m \<in> set (map m_id ds)) t) \<le> length ds"
proof -
  let ?F = "filter (\<lambda>m. m_id m \<in> set (map m_id ds)) t"
  have "distinct (map m_id ?F)" by (rule distinct_map_filter [OF assms])
  then have "length ?F = card (set (map m_id ?F))" using distinct_card [of "map m_id ?F"] by simp
  also have "\<dots> \<le> card (set (map m_id ds))" by (intro card_mono) auto
  also have "\<dots> \<le> length ds" using card_length [of "map m_id ds"] by simp
  finally show ?thesis .
qed

lemma sweep_removed_bound:
  assumes d: "distinct (map m_id (messages st))"
  shows "length (messages st) + length (due_view_once now cap (messages st)) \<le>
     length (messages (snd (sweep_expired_messages codec now cap st))) + cap"
proof -
  let ?t = "burned_table codec now cap (messages st)" and ?D = "sweep_doomed codec now cap (messages st)"
  have dt: "distinct (map m_id ?t)" using d by (simp only: burned_table_ids)
  have "length (filter (\<lambda>m. m_id m \<in> set (map m_id ?D)) ?t) \<le> cap - length (due_view_once now cap (messages st))"
    using keyed_filter_length [OF dt, of ?D] length_sweep_doomed [of codec now cap "messages st"] by linarith
  moreover have "length (filter (\<lambda>m. m_id m \<in> set (map m_id ?D)) ?t) +
      length (filter (\<lambda>m. m_id m \<notin> set (map m_id ?D)) ?t) = length ?t"
    by (rule sum_length_filter_compl)
  moreover have "length ?t = length (messages st)" by (simp add: burned_table_def)
  moreover have "length (due_view_once now cap (messages st)) \<le> cap" by (simp add: due_view_once_def)
  ultimately show ?thesis unfolding sweep_messages [OF d] by linarith
qed

section \<open>Merging attachment faces\<close>

definition merged_descriptor :: "attachment list \<Rightarrow> attachment list \<Rightarrow> nat \<Rightarrow> nat \<Rightarrow> attachment" where
  "merged_descriptor stored incoming n j =
     (if j < n \<and> (length stored \<le> j \<or> att_id (stored ! j) = []) then incoming ! j else stored ! j)"

definition merge_inv ::
    "attachment list \<Rightarrow> locator list \<Rightarrow> attachment list \<Rightarrow> nat \<Rightarrow> attachment list \<times> locator list \<times> bool \<Rightarrow> bool" where
  "merge_inv stored faces incoming n = (\<lambda>(ds, fs, _).
     length ds = max (length stored) n \<and>
     (\<forall>j < length ds. ds ! j = merged_descriptor stored incoming n j) \<and>
     length faces \<le> length fs \<and>
     (\<forall>j < length faces. faces ! j \<noteq> default_locator \<longrightarrow> fs ! j = faces ! j))"

lemma merge_face_step_inv:
  assumes inv: "merge_inv stored faces incoming n s" and n: "n < length incoming"
  shows "merge_inv stored faces incoming (Suc n) (merge_face_step (n, incoming ! n) s)"
proof -
  obtain ds fs ch where s: "s = (ds, fs, ch)" by (cases s)
  have len: "length ds = max (length stored) n"
    and ds: "\<And>j. j < length ds \<Longrightarrow> ds ! j = merged_descriptor stored incoming n j"
    and fs: "length faces \<le> length fs" "\<And>j. j < length faces \<Longrightarrow> faces ! j \<noteq> default_locator \<Longrightarrow> fs ! j = faces ! j"
    using inv s by (auto simp: merge_inv_def)
  let ?c = "incoming ! n"
  define ds' where "ds' = (if length ds \<le> n then ds @ [?c]
      else if att_id (ds ! n) = [] then ds[n := ?c] else ds)"
  have len': "length ds' = max (length stored) (Suc n)" using len by (auto simp: ds'_def)
  have ds': "ds' ! j = merged_descriptor stored incoming (Suc n) j" if "j < length ds'" for j
  proof (cases "length ds \<le> n")
    case True
    then have "length ds = n" "length stored \<le> n" using len by auto
    with that ds show ?thesis
      by (auto simp: ds'_def nth_append merged_descriptor_def less_Suc_eq)
  next
    case False
    then have "n < length stored" "length ds = length stored" "ds ! n = stored ! n"
      using len ds [of n] by (auto simp: merged_descriptor_def)
    with that ds [of j] False show ?thesis
      by (auto simp: ds'_def merged_descriptor_def nth_list_update less_Suc_eq split: if_splits)
  qed
  have pad: "(fs @ replicate k default_locator) ! j = faces ! j"
    if "j < length faces" "faces ! j \<noteq> default_locator" for j k
    using fs that by (simp add: nth_append)
  have "merge_face_step (n, ?c) s = (ds', fs', ch') \<Longrightarrow>
      length faces \<le> length fs' \<and> (\<forall>j < length faces. faces ! j \<noteq> default_locator \<longrightarrow> fs' ! j = faces ! j)" for fs' ch'
    using fs pad unfolding s
    by (auto simp: merge_face_step_def ds'_def Let_def nth_list_update split: if_splits option.splits)
  moreover have "\<exists>fs' ch'. merge_face_step (n, ?c) s = (ds', fs', ch')"
    unfolding s by (auto simp: merge_face_step_def ds'_def Let_def split: option.split)
  ultimately show ?thesis using len' ds' by (auto simp: merge_inv_def)
qed

lemma merge_faces_inv:
  "n \<le> length incoming \<Longrightarrow>
   merge_inv stored faces incoming n (fold merge_face_step (enumerate 0 (take n incoming)) (stored, faces, ch))"
proof (induction n)
  case 0
  then show ?case by (simp add: merge_inv_def merged_descriptor_def)
next
  case (Suc n)
  then have "enumerate 0 (take (Suc n) incoming) = enumerate 0 (take n incoming) @ [(n, incoming ! n)]"
    by (simp add: take_Suc_conv_app_nth enumerate_append_eq)
  with Suc merge_face_step_inv show ?case by simp
qed

section \<open>The read position\<close>

definition watermark_le :: "int option \<Rightarrow> int option \<Rightarrow> bool" where
  "watermark_le a b = (case a of None \<Rightarrow> True | Some x \<Rightarrow> (case b of None \<Rightarrow> False | Some y \<Rightarrow> x \<le> y))"

text \<open>Only the addressed conversation may change, only in its watermark, and only upwards.\<close>

definition watermark_advanced :: "string \<Rightarrow> string \<Rightarrow> conversation_row \<Rightarrow> conversation_row \<Rightarrow> bool" where
  "watermark_advanced acct conv c c' \<longleftrightarrow>
     c' = c \<or>
     (c_id c = conv \<and> c_account c = acct \<and> c' = c\<lparr>c_watermark := c_watermark c'\<rparr> \<and>
      watermark_le (c_watermark c) (c_watermark c'))"

lemma fold_watermark_advances:
  "list_all2 (watermark_advanced acct conv) cs (fold_watermark acct conv at cs)"
  by (induction cs)
    (auto simp: fold_watermark_def watermark_advanced_def watermark_le_def split: option.split)

lemma watermark_advanced_refl: "list_all2 (watermark_advanced acct conv) cs cs"
  by (induction cs) (simp_all add: watermark_advanced_def)

section \<open>Properties\<close>

definition sample_message :: message_record where
  "sample_message =
     \<lparr>mr_id = ''m1'', mr_account = ''acct'', mr_conv = ''conv'', mr_direction = ''incoming'',
      mr_sender = ''peer'', mr_sent_at = 1000, mr_received_at = Some 1005, mr_text = Some ''hello'',
      mr_text_bytes = None, mr_text_truncated = False, mr_text_retrievable = False,
      mr_status = ''received'', mr_quote_snapshot = None, mr_attachments = [], mr_rich = None,
      mr_sticker = None, mr_mentions_self = True, mr_expire_seconds = Some 60,
      mr_expire_start_at = None\<rparr>"

definition sample_chat :: store where
  "sample_chat =
     \<lparr>messages = [],
      conversations = [\<lparr>c_id = ''conv'', c_account = ''acct'', c_kind = ''direct'', c_peer_key = ''peer'',
        c_preview = None, c_last_at = None, c_unread = 0, c_mentions = 0, c_watermark = None\<rparr>],
      accounts = [\<lparr>a_id = ''acct'', a_signal = None, a_last_at = None, a_unread = 0, a_group = ''default''\<rparr>]\<rparr>"

definition plain_codec :: att_codec where
  "plain_codec = \<lparr>de_attachments = (\<lambda>_. None), ser_attachments = (\<lambda>_. []),
     de_locators = (\<lambda>_. None), ser_locators = (\<lambda>_. [])\<rparr>"

definition plain_rich_codec :: rich_codec where
  "plain_rich_codec = \<lparr>de_rich = (\<lambda>_. None), ser_rich = (\<lambda>_. None)\<rparr>"

lemma sample_chat_ok: "unread_ok sample_chat"
  by (simp add: unread_ok_def sample_chat_def account_total_def)



text \<open>
  A replayed insert counts once: after an insert that landed, inserting a record with the same id again,
  with whatever preview and badge flag, answers \<open>false\<close> and leaves every conversation and account row as it
  was.
\<close>

lemma insert_message_once:
  assumes "fst (insert_message codec now m crid preview increment_unread st) = Inr True"
    and "mr_id m' = mr_id m"
  shows "let st' = snd (insert_message codec now m crid preview increment_unread st);
             again = insert_message codec now' m' crid' preview' increment_unread' st'
         in fst again = Inr False \<and> conversations (snd again) = conversations st' \<and>
            accounts (snd again) = accounts st'"
proof -
  have "messages (snd (insert_message codec now m crid preview increment_unread st)) =
      messages st @ [row_of_record codec m crid now]"
    using assms(1) by (simp add: insert_message_def split: if_splits)
  then have "insert_conflicts m' crid' (messages (snd (insert_message codec now m crid preview increment_unread st)))"
    using assms(2) by (simp add: insert_conflicts_def row_of_record_def)
  then show ?thesis by (simp add: insert_message_def [of codec now' m'] Let_def)
qed

text \<open>
  The read watermark only advances: every write seam leaves all other conversations untouched and
  changes nothing of the addressed one but its watermark, which never moves back.
\<close>

lemma read_watermark_monotone:
  "list_all2 (watermark_advanced acct conv) (conversations st)
     (conversations (advance_read_watermark_latest acct conv st)) \<and>
   list_all2 (watermark_advanced acct conv) (conversations st)
     (conversations (snd (advance_read_watermark_to acct conv sent_at st))) \<and>
   list_all2 (watermark_advanced acct conv) (conversations st)
     (conversations (snd (advance_read_watermark_to_message acct conv mid st)))"
  by (auto simp: advance_read_watermark_latest_def advance_read_watermark_to_def
      advance_read_watermark_to_message_def Let_def watermark_advanced_refl fold_watermark_advances
      split: option.split)

text \<open>
  The expiry sweep respects its bounds: a row that is not due stays as it is, a view-once row is never
  deleted (it stays, erased or untouched), and at most \<open>cap\<close> rows are erased or deleted in one pass.
\<close>

lemma expiry_sweep_bounded:
  assumes "distinct (map m_id (messages st))"
  shows "(\<forall>m \<in> set (messages st). \<not> expire_due now m \<longrightarrow>
       m \<in> set (messages (snd (sweep_expired_messages codec now cap st)))) \<and>
    (\<forall>m \<in> set (messages st). is_view_once m \<longrightarrow>
       (\<exists>m' \<in> set (messages (snd (sweep_expired_messages codec now cap st))).
          m_id m' = m_id m \<and> (m' = m \<or> m' = erase_row codec (m_rich m) m))) \<and>
    length (messages st) + length (due_view_once now cap (messages st)) \<le>
      length (messages (snd (sweep_expired_messages codec now cap st))) + cap"
  using sweep_keeps_undue [OF assms] sweep_keeps_view_once [OF assms] sweep_removed_bound [OF assms] by blast

text \<open>
  Merging a replayed message's attachments keeps what the row has: the stored list is extended to the
  incoming length, a stored descriptor with an id stays, an empty or missing position takes the incoming
  one, and a stored locator that is not the default is never overwritten.
\<close>

lemma attachment_merge_first_face_wins:
  "case fold merge_face_step (enumerate 0 incoming) (stored, faces, False) of (ds, fs, _) \<Rightarrow>
     length ds = max (length stored) (length incoming) \<and>
     (\<forall>j < length ds. ds ! j =
        (if j < length incoming \<and> (length stored \<le> j \<or> att_id (stored ! j) = []) then incoming ! j
         else stored ! j)) \<and>
     length faces \<le> length fs \<and>
     (\<forall>j < length faces. faces ! j = default_locator \<or> fs ! j = faces ! j)"
  using merge_faces_inv [of "length incoming" incoming stored faces False]
  by (auto simp: merge_inv_def merged_descriptor_def split: prod.split)

definition sample_attachment :: "string \<Rightarrow> attachment" where
  "sample_attachment i = \<lparr>att_id = i, att_locator = None, att_rest = []\<rparr>"

text \<open>
  C39. The mention badge can outlive its messages: the sweep never lowers a conversation's mention counter,
  and opening a conversation whose unread counter has already fallen to zero changes nothing, so a mention
  that expires unread leaves its badge set until some later message of that conversation is read.
\<close>

theorem mention_badge_outlives_expiry:
  "map c_mentions (conversations (snd (sweep_expired_messages codec now cap st))) =
     map c_mentions (conversations st) \<and>
   (let st1 = snd (insert_message plain_codec 2000 sample_message None (Some ''hello'') True sample_chat);
        st2 = snd (sweep_expired_messages plain_rich_codec 100000 8 st1);
        st3 = snd (clear_conversation_unread ''acct'' ''conv'' st2)
    in messages st3 = [] \<and> map c_unread (conversations st3) = [0] \<and> map c_mentions (conversations st3) = [1])"
proof -
  let ?st1 = "snd (insert_message plain_codec 2000 sample_message None (Some ''hello'') True sample_chat)"
  have st1: "?st1 =
      \<lparr>messages = [row_of_record plain_codec sample_message None 2000],
       conversations = [\<lparr>c_id = ''conv'', c_account = ''acct'', c_kind = ''direct'', c_peer_key = ''peer'',
         c_preview = Some ''hello'', c_last_at = Some 1000, c_unread = 1, c_mentions = 1, c_watermark = None\<rparr>],
       accounts = [\<lparr>a_id = ''acct'', a_signal = None, a_last_at = Some 1000, a_unread = 1, a_group = ''default''\<rparr>]\<rparr>"
    by (simp add: insert_message_def insert_conflicts_def sample_chat_def sample_message_def
        bump_conversation_def bump_account_def bump_at_def as_i64_def Let_def)
  have row: "expire_due 100000 (row_of_record plain_codec sample_message None 2000)"
      "\<not> is_view_once (row_of_record plain_codec sample_message None 2000)"
      "m_id (row_of_record plain_codec sample_message None 2000) = ''m1''"
      "m_account (row_of_record plain_codec sample_message None 2000) = ''acct''"
      "m_conv (row_of_record plain_codec sample_message None 2000) = ''conv''"
    by (simp_all add: row_of_record_def sample_message_def blank_message_def expire_due_def is_view_once_def
        expire_deadline_def sat_add64_def sat_mul64_def u64_max_def as_i64_def)
  have st2: "snd (sweep_expired_messages plain_rich_codec 100000 8 ?st1) =
      \<lparr>messages = [],
       conversations = [\<lparr>c_id = ''conv'', c_account = ''acct'', c_kind = ''direct'', c_peer_key = ''peer'',
         c_preview = None, c_last_at = None, c_unread = 0, c_mentions = 1, c_watermark = None\<rparr>],
       accounts = [\<lparr>a_id = ''acct'', a_signal = None, a_last_at = None, a_unread = 0, a_group = ''default''\<rparr>]\<rparr>"
    unfolding st1
    by (simp add: sweep_expired_messages_def due_view_once_def due_plain_def row repair_summary_def
        repair_accounts_def newest_row_def List.map_filter_def Let_def)
  show ?thesis
    unfolding Let_def st2
    by (simp add: sweep_mentions clear_conversation_unread_def)
qed

end
