(* ===== verification/Method_Table.thy ===== *)
theory Method_Table
  imports Conn_Prelude
begin

text \<open>
  \<open>src/methods.rs\<close>: the single table of host methods with the lane, the account-scoped-mutating flag and
  the metrics label of each, and the capability list \<open>src/lib.rs\<close> derives from it. The table is the
  source's, row by row, in five consecutive parts.
\<close>

datatype lane = Control | Read | Send

type_synonym method_row = "string \<times> lane \<times> bool \<times> string"

definition METHODS_1 :: "method_row list" where
  "METHODS_1 = [
    (''runtime.status'', Control, False, ''control''),
    (''runtime.start'', Control, False, ''control''),
    (''runtime.stop'', Control, False, ''control''),
    (''accounts.list'', Control, False, ''accounts''),
    (''accounts.deleteLocalData'', Control, True, ''accounts''),
    (''accounts.setExpireTimer'', Send, True, ''accounts''),
    (''accounts.setProfile'', Send, True, ''accounts''),
    (''accounts.updateConfiguration'', Send, True, ''accounts''),
    (''link.start'', Control, False, ''link''),
    (''link.finish'', Control, False, ''link''),
    (''link.cancel'', Control, False, ''link''),
    (''conversations.list'', Read, False, ''read''),
    (''conversations.getBlocked'', Read, False, ''read''),
    (''conversations.getAvatar'', Read, False, ''read''),
    (''messages.list'', Read, False, ''read''),
    (''messages.listAttachmentDimensions'', Read, False, ''read''),
    (''messages.setAttachmentDimensions'', Send, True, ''send''),
    (''messages.adjacentMedia'', Read, False, ''read''),
    (''messages.getText'', Read, False, ''read''),
    (''messages.receipts'', Read, False, ''read''),
    (''messages.getByClientRequestId'', Read, False, ''read''),
    (''messages.search'', Read, False, ''read''),
    (''messages.sendText'', Send, True, ''send''),
    (''messages.retryText'', Send, True, ''send''),
    (''messages.attachments.send'', Send, True, ''send''),
    (''messages.sendSticker'', Send, True, ''send''),
    (''messages.sendContact'', Send, True, ''send''),
    (''messages.sendPollCreate'', Send, True, ''send''),
    (''messages.sendPollVote'', Send, True, ''send''),
    (''messages.sendPollTerminate'', Send, True, ''send''),
    (''messages.edit'', Send, True, ''send''),
    (''messages.remoteDelete'', Send, True, ''send''),
    (''messages.sendReaction'', Send, True, ''send''),
    (''messages.sendPinMessage'', Send, True, ''send''),
    (''messages.sendUnpinMessage'', Send, True, ''send''),
    (''messages.sendAdminDelete'', Send, True, ''send''),
    (''messages.markRead'', Send, True, ''send''),
    (''messages.markViewed'', Send, True, ''send''),
    (''messages.syncRead'', Send, True, ''send''),
    (''messages.syncViewed'', Send, True, ''send''),
    (''messages.deleteForMe'', Send, True, ''send''),
    (''messages.deleteForMeMessages'', Send, True, ''send''),
    (''messages.sendViewOnceOpen'', Send, True, ''send''),
    (''messages.markViewOnceOpened'', Send, True, ''send''),
    (''messages.attachments.open'', Read, False, ''read''),
    (''messages.attachments.readChunk'', Read, False, ''read''),
    (''messages.attachments.closeHandle'', Read, False, ''read''),
    (''contacts.sync'', Read, True, ''contacts''),
    (''contacts.list'', Read, False, ''contacts'')]"

definition METHODS_2 :: "method_row list" where
  "METHODS_2 = [
    (''groups.get'', Read, False, ''contacts''),
    (''groups.common'', Read, False, ''contacts''),
    (''contacts.setLocalAlias'', Send, True, ''send''),
    (''presence.setTypingMessage'', Send, True, ''send''),
    (''stickerPacks.getManifest'', Read, False, ''read''),
    (''stickerPacks.getImage'', Read, False, ''read''),
    (''conversations.getPinned'', Read, False, ''read''),
    (''conversations.setPinned'', Send, True, ''send''),
    (''conversations.setBlocked'', Send, True, ''send''),
    (''conversations.saveDraft'', Send, True, ''send''),
    (''conversations.clearDraft'', Send, True, ''send''),
    (''conversations.getState'', Read, False, ''read''),
    (''conversations.setState'', Send, True, ''send''),
    (''stickerPacks.getSyncs'', Read, False, ''read''),
    (''stickerPacks.setSync'', Send, True, ''send''),
    (''history.importStatus'', Read, False, ''read''),
    (''history.importRetry'', Send, True, ''accounts''),
    (''history.importCancel'', Send, True, ''accounts''),
    (''history.attachmentDownload'', Send, True, ''send''),
    (''attachments.download'', Send, True, ''send''),
    (''attachments.requestBackfill'', Control, False, ''control''),
    (''conversations.setExpireTimer'', Send, True, ''send''),
    (''groups.update'', Send, True, ''send''),
    (''groups.quit'', Send, True, ''send''),
    (''groups.terminate'', Send, True, ''send''),
    (''groups.approveJoinRequests'', Send, True, ''send''),
    (''groups.revokeInvites'', Send, True, ''send'')]"

definition METHODS_3 :: "method_row list" where
  "METHODS_3 = [
    (''groups.generateInviteLinkPassword'', Read, False, ''read''),
    (''groups.buildInviteLink'', Read, False, ''read''),
    (''groups.parseInviteLink'', Read, False, ''read''),
    (''groups.previewViaLink'', Read, False, ''read''),
    (''groups.joinViaLink'', Send, True, ''send''),
    (''groups.cancelJoinRequest'', Send, True, ''send''),
    (''groups.migrate'', Send, True, ''send''),
    (''groups.create'', Send, True, ''send''),
    (''backups.export'', Send, True, ''accounts''),
    (''backups.exportPlaintext'', Send, True, ''accounts''),
    (''backups.exportStatus'', Read, False, ''read''),
    (''backups.exportFile.open'', Read, False, ''read''),
    (''backups.exportFile.readChunk'', Read, False, ''read''),
    (''backups.exportFile.closeHandle'', Read, False, ''read''),
    (''backups.importSnapshot'', Send, True, ''accounts''),
    (''backups.importSnapshotStatus'', Read, False, ''read''),
    (''backups.restoreFromCloud'', Send, True, ''accounts''),
    (''backups.cloudStatus'', Read, False, ''read''),
    (''backups.uploadToCloud'', Send, True, ''accounts''),
    (''backups.uploadStatus'', Read, False, ''read''),
    (''messages.reportSpam'', Send, True, ''send''),
    (''calls.sendSignal'', Send, True, ''send''),
    (''calls.sendGroupCallUpdate'', Send, True, ''send''),
    (''calls.getState'', Read, False, ''read''),
    (''accounts.setUsername'', Send, True, ''accounts''),
    (''accounts.getUsername'', Read, False, ''read''),
    (''accounts.deviceCapabilities'', Read, True, ''accounts'')]"

definition METHODS_4 :: "method_row list" where
  "METHODS_4 = [
    (''accounts.getDevices'', Read, False, ''read''),
    (''accounts.unlinkDevice'', Send, True, ''accounts''),
    (''username.lookup'', Read, False, ''read''),
    (''phone.lookup'', Read, False, ''read''),
    (''conversations.acceptRequest'', Send, True, ''send''),
    (''conversations.declineRequest'', Send, True, ''send''),
    (''conversations.reportSpam'', Send, True, ''send''),
    (''identities.get'', Read, False, ''read''),
    (''identities.verify'', Send, True, ''send''),
    (''messages.sendStory'', Send, True, ''send''),
    (''stories.setDisabled'', Send, True, ''send''),
    (''stories.getDisabled'', Read, False, ''read''),
    (''stories.markViewed'', Send, True, ''send''),
    (''stories.sendReaction'', Send, True, ''send''),
    (''stories.deleteForEveryone'', Send, True, ''send''),
    (''stories.downloadAttachment'', Send, True, ''send''),
    (''stories.openAttachment'', Read, False, ''read''),
    (''calls.linkPresentation'', Read, False, ''read''),
    (''calls.createLinkAuth'', Read, False, ''read''),
    (''calls.groupProof'', Read, False, ''read''),
    (''calls.groupMembers'', Read, False, ''read''),
    (''calls.endorsementsPublicKey'', Read, False, ''read'')]"

definition METHODS_5 :: "method_row list" where
  "METHODS_5 = [
    (''calls.relays'', Read, False, ''read''),
    (''calls.sendCallEvent'', Send, True, ''send''),
    (''chatFolders.list'', Read, False, ''read''),
    (''chatFolders.setRecords'', Send, True, ''send''),
    (''notificationProfiles.list'', Read, False, ''read''),
    (''notificationProfiles.setRecords'', Send, True, ''send''),
    (''storyDistributionLists.list'', Read, False, ''read''),
    (''storyDistributionLists.setRecords'', Send, True, ''send''),
    (''storage.mergeContacts'', Read, True, ''contacts''),
    (''storage.importGroups'', Read, True, ''contacts''),
    (''storage.getCallLinks'', Read, False, ''read''),
    (''storage.setCallLink'', Send, True, ''send''),
    (''runtime.doctor'', Control, False, ''control'')]"

definition METHODS :: "method_row list" where
  "METHODS = METHODS_1 @ METHODS_2 @ METHODS_3 @ METHODS_4 @ METHODS_5"

definition spec :: "string \<Rightarrow> method_row option" where
  "spec meth = find (\<lambda>row. fst row = meth) METHODS"

definition method_lane :: "string \<Rightarrow> lane" where
  "method_lane meth = (case spec meth of None \<Rightarrow> Control | Some (_, l, _, _) \<Rightarrow> l)"

definition is_account_scoped_mutating :: "string \<Rightarrow> bool" where
  "is_account_scoped_mutating meth = (case spec meth of None \<Rightarrow> False | Some (_, _, b, _) \<Rightarrow> b)"

definition metrics_class :: "string \<Rightarrow> string" where
  "metrics_class meth = (case spec meth of None \<Rightarrow> ''unknown'' | Some (_, _, _, c) \<Rightarrow> c)"

definition METHOD_NAMES :: "string list" where
  "METHOD_NAMES = map fst METHODS"

definition ATTACHMENT_DOWNLOAD_CAPABILITY :: string where
  "ATTACHMENT_DOWNLOAD_CAPABILITY = ''attachment-download''"

definition FEATURE_CAPABILITIES :: "string list" where
  "FEATURE_CAPABILITIES = [
    ''send-receipts'',
    ''send-sticker'',
    ''sticker-pack-browse'',
    ''conversation-pin-sync'',
    ''sticker-pack-sync'',
    ''view-once'',
    ''history-import'',
    ''disappearing-messages'',
    ''group-management'',
    ''account-settings'',
    ''blocked-conversations'',
    ''backup-export'',
    ''avatar-fetch'',
    ''blocked-write'',
    ''report-spam'',
    ''call-signaling'',
    ''group-terminate'',
    ''group-join-approve'',
    ''group-invite-revoke'',
    ATTACHMENT_DOWNLOAD_CAPABILITY,
    ''message-adjacent-media'',
    ''username'',
    ''message-requests'',
    ''safety-number'',
    ''stories'',
    ''chat-folders'',
    ''notification-profiles'',
    ''conversation-state'',
    ''group-invite-links'',
    ''device-management'',
    ''send-contact'',
    ''polls'',
    ''delete-for-me'',
    ''storage-sync'',
    ''phone-lookup'',
    ''attachment-dimensions'']"

definition advertised_capabilities :: "bool \<Rightarrow> string list" where
  "advertised_capabilities media_ingest =
     (let capabilities = METHOD_NAMES @ FEATURE_CAPABILITIES
      in if \<not> media_ingest then filter (\<lambda>c. c \<noteq> ATTACHMENT_DOWNLOAD_CAPABILITY) capabilities
         else capabilities)"

text \<open>The fixed label set of \<open>src/metrics.rs\<close>.\<close>

definition METHOD_CLASSES :: "string list" where
  "METHOD_CLASSES = [''control'', ''accounts'', ''link'', ''read'', ''send'', ''contacts'', ''unknown'']"

definition method_class :: "string \<Rightarrow> string" where
  "method_class meth = metrics_class meth"

lemmas METHODS_defs = METHODS_def METHODS_1_def METHODS_2_def METHODS_3_def METHODS_4_def METHODS_5_def

section \<open>Table checks\<close>

text \<open>The rows in the order of their names: a strictly increasing enumeration has no duplicates.\<close>

definition NAME_ORDER :: "nat list" where
  "NAME_ORDER = [
    4, 102, 103, 101, 3, 5, 6, 100, 104, 7, 68, 69, 93, 84, 89, 87, 88, 85, 86, 90, 91, 92, 95, 94,
    121, 124, 99, 123, 122, 120, 125, 126, 98, 97, 127, 128, 48, 51, 47, 107, 59, 108, 13, 12, 55,
    60, 11, 109, 58, 57, 70, 56, 61, 74, 77, 81, 50, 83, 76, 49, 80, 82, 78, 79, 72, 75, 73, 71, 67,
    66, 65, 64, 110, 111, 10, 9, 8, 17, 46, 44, 45, 24, 40, 41, 30, 20, 18, 14, 15, 36, 43, 37, 19,
    31, 96, 23, 21, 35, 26, 33, 27, 29, 28, 32, 25, 112, 22, 34, 42, 16, 38, 39, 129, 130, 106, 52,
    137, 1, 0, 2, 54, 53, 62, 63, 135, 134, 133, 136, 117, 118, 114, 115, 119, 116, 113, 131, 132,
    105]"

lemma names_increase: "successively (<) (map ((!) (map fst METHODS)) NAME_ORDER)"
  by (simp add: METHODS_defs NAME_ORDER_def)

lemma METHODS_distinct: "distinct (map fst METHODS)"
proof (rule distinct_by_order)
  have "sorted_wrt (<) (map ((!) (map fst METHODS)) NAME_ORDER)"
    using names_increase by (subst (asm) successively_conv_sorted_wrt) (auto intro: transpI)
  then show "distinct (map ((!) (map fst METHODS)) NAME_ORDER)" by (simp only: strict_sorted_iff)
  show "length NAME_ORDER = length (map fst METHODS)" "\<forall>i \<in> set NAME_ORDER. i < length (map fst METHODS)"
    by (simp_all add: METHODS_defs NAME_ORDER_def)
qed

lemma METHODS_classes: "list_all (\<lambda>(_, _, _, c). c \<in> set METHOD_CLASSES) METHODS"
  by (simp add: METHODS_defs METHOD_CLASSES_def)

lemma METHODS_no_tag: "ATTACHMENT_DOWNLOAD_CAPABILITY \<notin> set METHOD_NAMES"
  by (simp add: METHOD_NAMES_def METHODS_defs ATTACHMENT_DOWNLOAD_CAPABILITY_def)

lemma METHODS_send_mutates: "list_all (\<lambda>(_, l, b, _). l \<noteq> Send \<or> b) METHODS"
  by (simp add: METHODS_defs)

lemma spec_row:
  assumes "row \<in> set METHODS"
  shows "spec (fst row) = Some row"
  unfolding spec_def by (rule find_by_key [OF METHODS_distinct assms])

lemma spec_Some_in: "spec meth = Some row \<Longrightarrow> row \<in> set METHODS \<and> fst row = meth"
  unfolding spec_def by (drule find_Some_in) simp

lemma send_lane_mutates:
  assumes "method_lane meth = Send"
  shows "is_account_scoped_mutating meth"
proof (cases "spec meth")
  case None
  with assms show ?thesis by (simp add: method_lane_def)
next
  case (Some row)
  with assms spec_Some_in [OF Some] METHODS_send_mutates show ?thesis
    by (auto simp: method_lane_def is_account_scoped_mutating_def list_all_iff split: prod.splits)
qed

section \<open>Properties\<close>



text \<open>
  The handshake advertises every dispatchable method in table order whatever the launcher's media
  decision, and the attachment-download tag exactly when media ingest is armed.
\<close>

lemma advertised_capabilities_gate:
  "take (length METHOD_NAMES) (advertised_capabilities media_ingest) = METHOD_NAMES \<and>
   (ATTACHMENT_DOWNLOAD_CAPABILITY \<in> set (advertised_capabilities media_ingest) \<longleftrightarrow> media_ingest) \<and>
   set (advertised_capabilities True) =
     insert ATTACHMENT_DOWNLOAD_CAPABILITY (set (advertised_capabilities False))"
proof -
  have keep: "filter (\<lambda>c. c \<noteq> ATTACHMENT_DOWNLOAD_CAPABILITY) METHOD_NAMES = METHOD_NAMES"
    using METHODS_no_tag by (simp add: filter_id_conv) metis
  have tag: "ATTACHMENT_DOWNLOAD_CAPABILITY \<in> set FEATURE_CAPABILITIES"
    by (simp add: FEATURE_CAPABILITIES_def)
  show ?thesis using tag METHODS_no_tag by (auto simp: advertised_capabilities_def keep Let_def)
qed

end
