(* ===== verification/Host_Admission.thy ===== *)
theory Host_Admission
  imports Conn_Prelude
begin

text \<open>
  Admission in \<open>src/host.rs\<close>: the pending budget of a session (\<open>HostPendingBudget\<close>) and the window of
  recent request ids (\<open>RecentRequestIds\<close>). The hash map of counts is a finite map that drops a count that
  falls to zero; the id window is a set and a queue kept in step, and refines the plain list of the last
  128 ids.
\<close>

section \<open>The pending budget\<close>

definition MAX_PENDING_HOST_REQUESTS :: nat where "MAX_PENDING_HOST_REQUESTS = 128"
definition MAX_PENDING_HOST_REQUESTS_PER_ACCOUNT :: nat where "MAX_PENDING_HOST_REQUESTS_PER_ACCOUNT = 32"
definition MAX_PENDING_HOST_BYTES :: nat where "MAX_PENDING_HOST_BYTES = 176 * 1024 * 1024"

lemmas pending_consts [conn_defs] =
  MAX_PENDING_HOST_REQUESTS_def MAX_PENDING_HOST_REQUESTS_PER_ACCOUNT_def MAX_PENDING_HOST_BYTES_def

record host_pending_budget =
  pb_total :: nat
  pb_bytes :: nat
  pb_by_account :: "string \<rightharpoonup> nat"

definition budget_default :: host_pending_budget where
  "budget_default = \<lparr>pb_total = 0, pb_bytes = 0, pb_by_account = Map.empty\<rparr>"

definition try_admit :: "string option \<Rightarrow> nat \<Rightarrow> host_pending_budget \<Rightarrow> bool \<times> host_pending_budget" where
  "try_admit account_id request_bytes b =
     (let account_pending = (case account_id of None \<Rightarrow> 0 | Some a \<Rightarrow> map_count (pb_by_account b) a)
      in if pb_total b \<ge> MAX_PENDING_HOST_REQUESTS \<or>
            account_pending \<ge> MAX_PENDING_HOST_REQUESTS_PER_ACCOUNT \<or>
            sat_add64 (pb_bytes b) request_bytes > MAX_PENDING_HOST_BYTES
         then (False, b)
         else (True, b\<lparr>pb_total := pb_total b + 1, pb_bytes := pb_bytes b + request_bytes,
                       pb_by_account :=
                         (case account_id of
                            None \<Rightarrow> pb_by_account b
                          | Some a \<Rightarrow> (pb_by_account b)(a \<mapsto> map_count (pb_by_account b) a + 1))\<rparr>))"

definition budget_complete :: "string option \<Rightarrow> nat \<Rightarrow> host_pending_budget \<Rightarrow> host_pending_budget" where
  "budget_complete account_id request_bytes b =
     (let b = b\<lparr>pb_total := pb_total b - 1, pb_bytes := pb_bytes b - request_bytes\<rparr>
      in case account_id of
           None \<Rightarrow> b
         | Some a \<Rightarrow>
             (case pb_by_account b a of
                None \<Rightarrow> b
              | Some count \<Rightarrow>
                  if count - 1 = 0 then b\<lparr>pb_by_account := (pb_by_account b)(a := None)\<rparr>
                  else b\<lparr>pb_by_account := (pb_by_account b)(a \<mapsto> count - 1)\<rparr>))"

text \<open>The abstract view: the list of admitted requests that have not completed.\<close>

type_synonym pending = "(string option \<times> nat) list"

definition budget_of :: "pending \<Rightarrow> host_pending_budget" where
  "budget_of ps =
     \<lparr>pb_total = length ps, pb_bytes = sum_list (map snd ps),
      pb_by_account = (\<lambda>a. let n = length (filter (\<lambda>p. fst p = Some a) ps) in if n = 0 then None else Some n)\<rparr>"

definition pending_ok :: "pending \<Rightarrow> bool" where
  "pending_ok ps \<longleftrightarrow> length ps \<le> MAX_PENDING_HOST_REQUESTS \<and>
     sum_list (map snd ps) \<le> MAX_PENDING_HOST_BYTES \<and>
     (\<forall>a. length (filter (\<lambda>p. fst p = Some a) ps) \<le> MAX_PENDING_HOST_REQUESTS_PER_ACCOUNT)"

definition admissible :: "string option \<Rightarrow> nat \<Rightarrow> pending \<Rightarrow> bool" where
  "admissible account_id request_bytes ps \<longleftrightarrow> pending_ok ((account_id, request_bytes) # ps)"

lemma budget_of_count [simp]:
  "map_count (pb_by_account (budget_of ps)) a = length (filter (\<lambda>p. fst p = Some a) ps)"
  by (simp add: budget_of_def map_count_def Let_def)

lemma budget_of_sel [simp]:
  "pb_total (budget_of ps) = length ps" "pb_bytes (budget_of ps) = sum_list (map snd ps)"
  by (simp_all add: budget_of_def)

lemma budget_of_Some:
  "(pb_by_account (budget_of ps))(a \<mapsto> Suc (length (filter (\<lambda>p. fst p = Some a) ps))) =
   pb_by_account (budget_of ((Some a, n) # ps))"
  by (auto simp: budget_of_def Let_def fun_eq_iff)

lemma budget_of_None: "pb_by_account (budget_of ((None, n) # ps)) = pb_by_account (budget_of ps)"
  by (simp add: budget_of_def)

lemma budget_eqI:
  "pb_total (b :: host_pending_budget) = pb_total c \<Longrightarrow> pb_bytes b = pb_bytes c \<Longrightarrow>
   pb_by_account b = pb_by_account c \<Longrightarrow> b = c"
  by simp

lemma budget_of_empty: "budget_of [] = budget_default"
  by (auto simp: budget_of_def budget_default_def)

lemma sat_add64_gt_iff: "sat_add64 a b > MAX_PENDING_HOST_BYTES \<longleftrightarrow> a + b > MAX_PENDING_HOST_BYTES"
  by (auto simp: sat_add64_def pending_consts u64_max_def)

lemma admissible_iff:
  assumes "pending_ok ps"
  shows "admissible account_id n ps \<longleftrightarrow>
     length ps < MAX_PENDING_HOST_REQUESTS \<and> sum_list (map snd ps) + n \<le> MAX_PENDING_HOST_BYTES \<and>
     (case account_id of None \<Rightarrow> True
      | Some a \<Rightarrow> length (filter (\<lambda>p. fst p = Some a) ps) < MAX_PENDING_HOST_REQUESTS_PER_ACCOUNT)"
  using assms
  by (cases account_id) (auto simp: admissible_def pending_ok_def Suc_le_eq add.commute split: if_splits)

lemma try_admit_refines:
  assumes ok: "pending_ok ps"
  shows "try_admit account_id n (budget_of ps) =
     (if admissible account_id n ps then (True, budget_of ((account_id, n) # ps)) else (False, budget_of ps))"
proof (cases "admissible account_id n ps")
  case True
  then have "try_admit account_id n (budget_of ps) = (True, budget_of ((account_id, n) # ps))"
    using admissible_iff [OF ok, of account_id n]
    by (cases account_id)
      (auto simp: try_admit_def Let_def sat_add64_gt_iff budget_of_Some budget_of_None
        MAX_PENDING_HOST_REQUESTS_PER_ACCOUNT_def not_le not_less intro!: budget_eqI)
  with True show ?thesis by simp
next
  case False
  then show ?thesis
    using admissible_iff [OF ok, of account_id n]
    by (cases account_id) (auto simp: try_admit_def Let_def sat_add64_gt_iff not_le not_less)
qed

lemma complete_refines:
  assumes "p \<in> set ps"
  shows "budget_complete (fst p) (snd p) (budget_of ps) = budget_of (remove1 p ps)"
proof -
  have len: "length (remove1 p ps) = length ps - 1" using assms by (simp add: length_remove1)
  have sum: "sum_list (map snd (remove1 p ps)) = sum_list (map snd ps) - snd p"
    using sum_list_map_remove1 [OF assms, of snd] by simp
  have cnt: "length (filter (\<lambda>q. fst q = Some a) (remove1 p ps)) =
      length (filter (\<lambda>q. fst q = Some a) ps) - (if fst p = Some a then 1 else 0)" for a
    using assms by (simp add: filter_remove1 length_remove1)
  show ?thesis
  proof (cases "fst p")
    case None
    with len sum cnt show ?thesis by (simp add: budget_complete_def budget_of_def Let_def)
  next
    case (Some a)
    have pos: "length (filter (\<lambda>q. fst q = Some a) ps) \<noteq> 0"
      using assms Some by (auto simp: filter_empty_conv)
    show ?thesis
      using len sum cnt pos Some
      by (auto simp: budget_complete_def budget_of_def Let_def fun_eq_iff)
  qed
qed

lemma pending_ok_remove1:
  assumes ok: "pending_ok ps"
  shows "pending_ok (remove1 p ps)"
proof -
  have "sum_list (map snd (remove1 p ps)) \<le> sum_list (map snd ps)" by (induction ps) auto
  moreover have len: "length (remove1 p xs) \<le> length xs" for xs by (simp add: length_remove1)
  moreover have "length (filter (\<lambda>p. fst p = Some a) (remove1 p ps)) \<le> length (filter (\<lambda>p. fst p = Some a) ps)" for a
    using len by (simp add: filter_remove1)
  ultimately show ?thesis
    using ok unfolding pending_ok_def by (meson order_trans)
qed

text \<open>A session's budget operations, in any order that completes only what was admitted.\<close>

inductive budget_reach :: "pending \<Rightarrow> host_pending_budget \<Rightarrow> bool" where
  br_init: "budget_reach [] budget_default"
| br_admit: "budget_reach ps b \<Longrightarrow> try_admit a n b = (True, b') \<Longrightarrow> budget_reach ((a, n) # ps) b'"
| br_refuse: "budget_reach ps b \<Longrightarrow> try_admit a n b = (False, b') \<Longrightarrow> budget_reach ps b'"
| br_complete: "budget_reach ps b \<Longrightarrow> p \<in> set ps \<Longrightarrow>
    budget_reach (remove1 p ps) (budget_complete (fst p) (snd p) b)"

lemma budget_reach_refines: "budget_reach ps b \<Longrightarrow> b = budget_of ps \<and> pending_ok ps"
proof (induction rule: budget_reach.induct)
  case br_init
  then show ?case by (simp add: budget_of_empty pending_ok_def)
next
  case (br_admit ps b a n b')
  then show ?case
    using try_admit_refines [of ps a n] by (auto simp: admissible_def split: if_splits)
next
  case (br_refuse ps b a n b')
  then show ?case
    using try_admit_refines [of ps a n] by (auto split: if_splits)
next
  case (br_complete ps b p)
  then show ?case using complete_refines pending_ok_remove1 by auto
qed

section \<open>The window of request ids\<close>

definition RECENT_REQUEST_IDS :: nat where "RECENT_REQUEST_IDS = 128"

record recent_request_ids =
  rr_set :: "string set"
  rr_order :: "string list"

definition recent_default :: recent_request_ids where
  "recent_default = \<lparr>rr_set = {}, rr_order = []\<rparr>"

definition recent_insert :: "string \<Rightarrow> recent_request_ids \<Rightarrow> bool \<times> recent_request_ids" where
  "recent_insert rid r =
     (if rid \<in> rr_set r then (False, r)
      else
        let r = (if length (rr_order r) = RECENT_REQUEST_IDS then
                   (case rr_order r of
                      [] \<Rightarrow> r
                    | expired # rest \<Rightarrow> \<lparr>rr_set = rr_set r - {expired}, rr_order = rest\<rparr>)
                 else r)
        in (True, \<lparr>rr_set = insert rid (rr_set r), rr_order = rr_order r @ [rid]\<rparr>))"

fun recent_run :: "string list \<Rightarrow> recent_request_ids \<Rightarrow> bool list \<times> recent_request_ids" where
  "recent_run [] r = ([], r)"
| "recent_run (x # xs) r =
     (let (b, r') = recent_insert x r; (bs, r'') = recent_run xs r' in (b # bs, r''))"

text \<open>The reference: the whole history of accepted ids, of which only the last \<open>cap\<close> are looked at.\<close>

definition last_ids :: "nat \<Rightarrow> 'a list \<Rightarrow> 'a list" where
  "last_ids cap acc = drop (length acc - cap) acc"

fun window_ref :: "nat \<Rightarrow> 'a list \<Rightarrow> 'a list \<Rightarrow> bool list \<times> 'a list" where
  "window_ref cap acc [] = ([], acc)"
| "window_ref cap acc (x # xs) =
     (let fresh = x \<notin> set (last_ids cap acc);
          (bs, acc') = window_ref cap (if fresh then acc @ [x] else acc) xs
      in (fresh # bs, acc'))"

lemma last_ids_snoc:
  assumes "0 < cap"
  shows "last_ids cap (acc @ [x]) =
     (if length (last_ids cap acc) = cap then tl (last_ids cap acc) else last_ids cap acc) @ [x]"
proof (cases "cap \<le> length acc")
  case True
  then have "length acc + 1 - cap = Suc (length acc - cap)" by simp
  with True assms show ?thesis by (simp add: last_ids_def drop_Suc tl_drop)
next
  case False
  then show ?thesis by (simp add: last_ids_def)
qed

text \<open>A bounded window over a set and a queue, as an interface: what the session relies on.\<close>

locale id_window =
  fixes capacity :: nat
    and empty :: 'w
    and insert_id :: "'a \<Rightarrow> 'w \<Rightarrow> bool \<times> 'w"
    and ids :: "'w \<Rightarrow> 'a list"
    and inv :: "'w \<Rightarrow> bool"
  assumes empty_inv: "inv empty" and empty_ids: "ids empty = []"
    and insert_inv: "inv w \<Longrightarrow> inv (snd (insert_id x w))"
    and insert_dup: "inv w \<Longrightarrow> x \<in> set (ids w) \<Longrightarrow> insert_id x w = (False, w)"
    and insert_new: "inv w \<Longrightarrow> x \<notin> set (ids w) \<Longrightarrow>
      fst (insert_id x w) \<and>
      ids (snd (insert_id x w)) = (if length (ids w) = capacity then tl (ids w) else ids w) @ [x]"
    and bound: "inv w \<Longrightarrow> length (ids w) \<le> capacity" and cap_pos: "0 < capacity"
begin

lemma step_ref:
  assumes "inv w" "ids w = last_ids capacity acc"
  shows "fst (insert_id x w) \<longleftrightarrow> x \<notin> set (last_ids capacity acc)"
    and "ids (snd (insert_id x w)) =
      last_ids capacity (if x \<notin> set (last_ids capacity acc) then acc @ [x] else acc)"
  using insert_dup [OF assms(1), of x] insert_new [OF assms(1), of x] assms(2)
  by (auto simp: last_ids_snoc [OF cap_pos])

lemma not_accepted_twice_in_a_row:
  assumes "inv w"
  shows "\<not> fst (insert_id x (snd (insert_id x w)))"
proof (cases "x \<in> set (ids w)")
  case True
  then show ?thesis using insert_dup [OF assms] by simp
next
  case False
  have "inv (snd (insert_id x w))" using assms by (rule insert_inv)
  moreover have "x \<in> set (ids (snd (insert_id x w)))" using insert_new [OF assms False] by simp
  ultimately show ?thesis using insert_dup by simp
qed

end

definition recent_inv :: "recent_request_ids \<Rightarrow> bool" where
  "recent_inv r \<longleftrightarrow> rr_set r = set (rr_order r) \<and> distinct (rr_order r) \<and> length (rr_order r) \<le> RECENT_REQUEST_IDS"

lemma recent_insert_inv: "recent_inv r \<Longrightarrow> recent_inv (snd (recent_insert x r))"
  by (cases "rr_order r")
    (auto simp: recent_inv_def recent_insert_def RECENT_REQUEST_IDS_def Let_def)

lemma recent_insert_new:
  "recent_inv r \<Longrightarrow> x \<notin> set (rr_order r) \<Longrightarrow>
   fst (recent_insert x r) \<and>
   rr_order (snd (recent_insert x r)) =
     (if length (rr_order r) = RECENT_REQUEST_IDS then tl (rr_order r) else rr_order r) @ [x]"
  by (cases "rr_order r") (auto simp: recent_inv_def recent_insert_def RECENT_REQUEST_IDS_def Let_def)

interpretation ridw: id_window RECENT_REQUEST_IDS recent_default recent_insert rr_order recent_inv
proof unfold_locales
  show "recent_inv recent_default" "rr_order recent_default = []" "0 < RECENT_REQUEST_IDS"
    by (simp_all add: recent_inv_def recent_default_def RECENT_REQUEST_IDS_def)
  fix w :: recent_request_ids and x
  assume inv: "recent_inv w"
  show "recent_inv (snd (recent_insert x w))" using inv by (rule recent_insert_inv)
  show "length (rr_order w) \<le> RECENT_REQUEST_IDS" using inv by (simp add: recent_inv_def)
  show "x \<in> set (rr_order w) \<Longrightarrow> recent_insert x w = (False, w)"
    using inv by (simp add: recent_inv_def recent_insert_def)
  show "x \<notin> set (rr_order w) \<Longrightarrow> fst (recent_insert x w) \<and>
      rr_order (snd (recent_insert x w)) =
        (if length (rr_order w) = RECENT_REQUEST_IDS then tl (rr_order w) else rr_order w) @ [x]"
    using inv by (rule recent_insert_new)
qed

lemma recent_run_ref:
  "recent_inv r \<Longrightarrow> rr_order r = last_ids RECENT_REQUEST_IDS acc \<Longrightarrow>
   fst (recent_run xs r) = fst (window_ref RECENT_REQUEST_IDS acc xs) \<and>
   rr_order (snd (recent_run xs r)) = last_ids RECENT_REQUEST_IDS (snd (window_ref RECENT_REQUEST_IDS acc xs)) \<and>
   recent_inv (snd (recent_run xs r))"
proof (induction xs arbitrary: r acc)
  case (Cons x xs)
  have inv: "recent_inv (snd (recent_insert x r))" using Cons.prems(1) by (rule recent_insert_inv)
  show ?case
    using Cons.IH [OF inv ridw.step_ref(2) [OF Cons.prems, of x]] ridw.step_ref(1) [OF Cons.prems, of x]
    by (auto simp: Let_def split: prod.splits)
qed simp

section \<open>Properties\<close>

text \<open>
  C21. The pending budget counts exactly what is in flight: in every sequence of admissions, refusals and
  completions it equals the budget of the admitted requests that have not completed, these never exceed 128
  requests, 176 MiB, or 32 for one account, and a request is refused exactly when admitting it would exceed
  one of those limits.
\<close>

theorem pending_budget_exact:
  assumes "budget_reach ps b"
  shows "b = budget_of ps \<and>
    length ps \<le> MAX_PENDING_HOST_REQUESTS \<and> sum_list (map snd ps) \<le> MAX_PENDING_HOST_BYTES \<and>
    (\<forall>a. map_count (pb_by_account b) a \<le> MAX_PENDING_HOST_REQUESTS_PER_ACCOUNT) \<and>
    (fst (try_admit account_id n b) \<longleftrightarrow> pending_ok ((account_id, n) # ps))"
  using budget_reach_refines [OF assms] try_admit_refines [of ps account_id n]
  by (auto simp: admissible_def pending_ok_def split: if_splits)

theorem pending_budget_exact_witness:
  "map_count (pb_by_account (snd (try_admit (Some ''a'') 10 budget_default))) ''a'' \<le> 32"
proof -
  have "budget_reach [(Some ''a'', 10)] (snd (try_admit (Some ''a'') 10 budget_default))"
    by (rule br_admit [OF br_init, of "Some ''a''" 10])
      (simp add: try_admit_def budget_default_def pending_consts sat_add64_def u64_max_def Let_def)
  from pending_budget_exact [OF this] show ?thesis
    by (simp add: MAX_PENDING_HOST_REQUESTS_PER_ACCOUNT_def)
qed

text \<open>
  The replay window is a window: the set-and-queue structure decides every id of any request sequence as
  the reference does that remembers all accepted ids and looks at the last 128 of them, and it never holds
  more than 128 ids.
\<close>

lemma recent_ids_window:
  "fst (recent_run xs recent_default) = fst (window_ref RECENT_REQUEST_IDS [] xs) \<and>
   rr_order (snd (recent_run xs recent_default)) =
     last_ids RECENT_REQUEST_IDS (snd (window_ref RECENT_REQUEST_IDS [] xs)) \<and>
   rr_set (snd (recent_run xs recent_default)) = set (rr_order (snd (recent_run xs recent_default))) \<and>
   length (rr_order (snd (recent_run xs recent_default))) \<le> 128"
proof -
  have "recent_inv recent_default" "rr_order recent_default = last_ids RECENT_REQUEST_IDS []"
    by (simp_all add: recent_inv_def recent_default_def last_ids_def)
  from recent_run_ref [OF this, of xs] show ?thesis
    unfolding recent_inv_def RECENT_REQUEST_IDS_def by blast
qed

end
