(* ===== verification/Dispatch_Lanes.thy ===== *)
theory Dispatch_Lanes
  imports Method_Table Host_Protocol
begin

text \<open>
  \<open>HostDispatchLimits::acquire\<close> of \<open>src/host.rs\<close> as a machine over the requests that are acquiring or
  hold a dispatch permit. A semaphore's free permits and a mutex's owner are what the tasks in the machine
  hold: the source keeps a lane's semaphore alive exactly while a task holds or awaits it, so a lane that
  is looked up again is the same one. Which waiting task a semaphore serves next is left open. A task may
  be dropped at any point (its deadline, or the session's end); its guards go with it.
\<close>

definition CONTROL_CONCURRENCY :: nat where "CONTROL_CONCURRENCY = 1"
definition LINK_WAIT_CONCURRENCY :: nat where "LINK_WAIT_CONCURRENCY = 1"
definition READ_CONCURRENCY :: nat where "READ_CONCURRENCY = 4"
definition SEND_CONCURRENCY :: nat where "SEND_CONCURRENCY = 2"
definition TYPICAL_ACCOUNT_COUNT :: nat where "TYPICAL_ACCOUNT_COUNT = 4"

lemmas lane_consts [conn_defs] =
  CONTROL_CONCURRENCY_def LINK_WAIT_CONCURRENCY_def READ_CONCURRENCY_def SEND_CONCURRENCY_def
  TYPICAL_ACCOUNT_COUNT_def

definition lane_capacity :: "lane \<Rightarrow> nat" where
  "lane_capacity l =
     (case l of Control \<Rightarrow> CONTROL_CONCURRENCY | Read \<Rightarrow> READ_CONCURRENCY | Send \<Rightarrow> SEND_CONCURRENCY)"

definition global_capacity :: "lane \<Rightarrow> nat" where
  "global_capacity l = lane_capacity l * TYPICAL_ACCOUNT_COUNT"

text \<open>Where a task is inside \<open>acquire\<close>; \<open>LinkHeld\<close> is the permit of \<open>link.finish\<close>.\<close>

datatype phase = WaitAccount | WaitLane | WaitGlobal | Running | LinkHeld

record task =
  t_id :: nat
  t_method :: string
  t_account :: "string option"
  t_group :: "string option"
  t_phase :: phase
  t_deleting :: bool

record dispatch =
  d_tasks :: "task list"
  d_deleting :: "string \<rightharpoonup> nat"

definition dispatch_new :: dispatch where
  "dispatch_new = \<lparr>d_tasks = [], d_deleting = Map.empty\<rparr>"

definition account_key :: "task \<Rightarrow> string" where
  "account_key t = (case t_account t of None \<Rightarrow> [] | Some a \<Rightarrow> a)"

definition holds_account :: "string \<Rightarrow> task \<Rightarrow> bool" where
  "holds_account key t \<longleftrightarrow>
     is_account_scoped_mutating (t_method t) \<and> account_key t = key \<and>
     t_phase t \<in> {WaitLane, WaitGlobal, Running}"

definition holds_lane :: "string option \<Rightarrow> lane \<Rightarrow> task \<Rightarrow> bool" where
  "holds_lane acct l t \<longleftrightarrow>
     t_account t = acct \<and> method_lane (t_method t) = l \<and> t_phase t \<in> {WaitGlobal, Running}"

definition holds_global :: "lane \<Rightarrow> task \<Rightarrow> bool" where
  "holds_global l t \<longleftrightarrow> method_lane (t_method t) = l \<and> t_phase t = Running"

definition holds_link :: "string \<Rightarrow> task \<Rightarrow> bool" where
  "holds_link g t \<longleftrightarrow> t_group t = Some g \<and> t_phase t = LinkHeld"

text \<open>
  The part of \<open>acquire\<close> before its first wait: the deleting mark or the refusal, or the link lane.
\<close>

definition acquire_begin ::
    "nat \<Rightarrow> string \<Rightarrow> string option \<Rightarrow> string option \<Rightarrow> dispatch \<Rightarrow> api_error + dispatch" where
  "acquire_begin i meth account_id lane_key d =
     (let t = \<lparr>t_id = i, t_method = meth, t_account = account_id, t_group = lane_key,
               t_phase = WaitLane, t_deleting = False\<rparr>
      in if is_account_scoped_mutating meth then
           let key = account_key t
           in if meth = ''accounts.deleteLocalData'' then
                Inr (d\<lparr>d_tasks := d_tasks d @ [t\<lparr>t_phase := WaitAccount, t_deleting := True\<rparr>],
                       d_deleting := (d_deleting d)(key \<mapsto> map_count (d_deleting d) key + 1)\<rparr>)
              else if d_deleting d key \<noteq> None then
                Inl (api_error_new ''ACCOUNT_NOT_FOUND'' ''account is being deleted'' False)
              else Inr (d\<lparr>d_tasks := d_tasks d @ [t\<lparr>t_phase := WaitAccount\<rparr>]\<rparr>)
         else if meth = ''link.finish'' then
           (case lane_key of
              None \<Rightarrow> Inl (api_error_new ''LINK_NOT_FOUND'' ''link session was not found'' False)
            | Some g \<Rightarrow>
                if sql_count (holds_link g) (d_tasks d) \<ge> LINK_WAIT_CONCURRENCY then
                  Inl (api_error_new ''LINK_IN_PROGRESS''
                         ''a link finish request is already active for this proxy group'' False)
                else Inr (d\<lparr>d_tasks := d_tasks d @ [t\<lparr>t_phase := LinkHeld\<rparr>]\<rparr>))
         else Inr (d\<lparr>d_tasks := d_tasks d @ [t]\<rparr>))"

definition set_phase :: "nat \<Rightarrow> phase \<Rightarrow> dispatch \<Rightarrow> dispatch" where
  "set_phase i p d = d\<lparr>d_tasks := sql_update (\<lambda>t. t_id t = i) (\<lambda>t. t\<lparr>t_phase := p\<rparr>) (d_tasks d)\<rparr>"

text \<open>The three grants, each enabled when the resource has room.\<close>

definition can_take_account :: "task \<Rightarrow> dispatch \<Rightarrow> bool" where
  "can_take_account t d \<longleftrightarrow>
     t_phase t = WaitAccount \<and> sql_count (holds_account (account_key t)) (d_tasks d) = 0"

definition can_take_lane :: "task \<Rightarrow> dispatch \<Rightarrow> bool" where
  "can_take_lane t d \<longleftrightarrow>
     t_phase t = WaitLane \<and>
     sql_count (holds_lane (t_account t) (method_lane (t_method t))) (d_tasks d)
       < lane_capacity (method_lane (t_method t))"

definition can_take_global :: "task \<Rightarrow> dispatch \<Rightarrow> bool" where
  "can_take_global t d \<longleftrightarrow>
     t_phase t = WaitGlobal \<and>
     sql_count (holds_global (method_lane (t_method t))) (d_tasks d)
       < global_capacity (method_lane (t_method t))"

text \<open>A task leaves: the permit and the deleting guard are dropped.\<close>

definition drop_deleting :: "string \<Rightarrow> (string \<rightharpoonup> nat) \<Rightarrow> (string \<rightharpoonup> nat)" where
  "drop_deleting key m =
     (case m key of
        None \<Rightarrow> m
      | Some count \<Rightarrow> if count - 1 = 0 then m(key := None) else m(key \<mapsto> count - 1))"

definition release :: "nat \<Rightarrow> dispatch \<Rightarrow> dispatch" where
  "release i d =
     (case find (\<lambda>t. t_id t = i) (d_tasks d) of
        None \<Rightarrow> d
      | Some t \<Rightarrow>
          d\<lparr>d_tasks := filter (\<lambda>t. t_id t \<noteq> i) (d_tasks d),
            d_deleting := (if t_deleting t then drop_deleting (account_key t) (d_deleting d)
                           else d_deleting d)\<rparr>)"

inductive dispatch_step :: "dispatch \<Rightarrow> dispatch \<Rightarrow> bool" where
  ds_begin: "i \<notin> t_id ` set (d_tasks d) \<Longrightarrow> acquire_begin i meth acct grp d = Inr d' \<Longrightarrow> dispatch_step d d'"
| ds_account: "t \<in> set (d_tasks d) \<Longrightarrow> can_take_account t d \<Longrightarrow> dispatch_step d (set_phase (t_id t) WaitLane d)"
| ds_lane: "t \<in> set (d_tasks d) \<Longrightarrow> can_take_lane t d \<Longrightarrow> dispatch_step d (set_phase (t_id t) WaitGlobal d)"
| ds_global: "t \<in> set (d_tasks d) \<Longrightarrow> can_take_global t d \<Longrightarrow> dispatch_step d (set_phase (t_id t) Running d)"
| ds_release: "dispatch_step d (release i d)"

inductive dispatch_reach :: "dispatch \<Rightarrow> bool" where
  dr_init: "dispatch_reach dispatch_new"
| dr_step: "dispatch_reach d \<Longrightarrow> dispatch_step d d' \<Longrightarrow> dispatch_reach d'"

section \<open>Invariant\<close>

lemma sendText_row: "is_account_scoped_mutating ''messages.sendText''" "method_lane ''messages.sendText'' = Send"
proof -
  have "(''messages.sendText'', Send, True, ''send'') \<in> set METHODS"
    by (simp add: METHODS_def METHODS_1_def)
  from spec_row [OF this]
  show "is_account_scoped_mutating ''messages.sendText''" "method_lane ''messages.sendText'' = Send"
    by (simp_all add: is_account_scoped_mutating_def method_lane_def)
qed

lemma delete_is_mutating: "is_account_scoped_mutating ''accounts.deleteLocalData''"
proof -
  have "(''accounts.deleteLocalData'', Control, True, ''accounts'') \<in> set METHODS"
    by (simp add: METHODS_def METHODS_1_def)
  from spec_row [OF this] show ?thesis by (simp add: is_account_scoped_mutating_def)
qed

definition marks :: "string \<Rightarrow> task \<Rightarrow> bool" where
  "marks key t \<longleftrightarrow> t_deleting t \<and> account_key t = key"

definition dispatch_inv :: "dispatch \<Rightarrow> bool" where
  "dispatch_inv d \<longleftrightarrow>
     distinct (map t_id (d_tasks d)) \<and>
     (\<forall>key. sql_count (holds_account key) (d_tasks d) \<le> 1) \<and>
     (\<forall>acct l. sql_count (holds_lane acct l) (d_tasks d) \<le> lane_capacity l) \<and>
     (\<forall>l. sql_count (holds_global l) (d_tasks d) \<le> global_capacity l) \<and>
     (\<forall>g. sql_count (holds_link g) (d_tasks d) \<le> LINK_WAIT_CONCURRENCY) \<and>
     (\<forall>t \<in> set (d_tasks d).
        t_phase t = WaitAccount \<longrightarrow> is_account_scoped_mutating (t_method t)) \<and>
     (\<forall>t \<in> set (d_tasks d). t_deleting t = (t_method t = ''accounts.deleteLocalData'')) \<and>
     (\<forall>key. map_count (d_deleting d) key = sql_count (marks key) (d_tasks d)) \<and>
     (\<forall>key. d_deleting d key \<noteq> Some 0)"

text \<open>A change of one task's phase, in terms of what any predicate counts.\<close>

lemma count_set_phase_le:
  assumes "distinct (map t_id ts)" "t \<in> set ts"
    and "\<And>x. x \<in> set ts \<Longrightarrow> t_id x = t_id t \<Longrightarrow> q (x\<lparr>t_phase := p\<rparr>) \<Longrightarrow> q x"
  shows "sql_count q (sql_update (\<lambda>x. t_id x = t_id t) (\<lambda>x. x\<lparr>t_phase := p\<rparr>) ts) \<le> sql_count q ts"
  by (rule sql_count_update_le) (use assms(3) in auto)

lemma count_set_phase_Suc:
  assumes "distinct (map t_id ts)"
  shows "sql_count q (sql_update (\<lambda>x. t_id x = i) f ts) \<le> sql_count q ts + 1"
proof -
  have "sql_count (\<lambda>x. q x \<and> t_id x \<noteq> i) ts \<le> sql_count q ts" by (rule sql_count_mono) auto
  moreover have "sql_count (\<lambda>x. t_id x = i) ts \<le> 1" by (rule sql_count_key_le [OF assms]) auto
  ultimately show ?thesis
    using sql_count_update_split [of q "\<lambda>x. t_id x = i" f ts] by linarith
qed

lemma dispatch_new_inv: "dispatch_inv dispatch_new"
  by (simp add: dispatch_inv_def dispatch_new_def)

lemma capacity_pos: "0 < lane_capacity l" "0 < global_capacity l"
  by (cases l; simp add: lane_capacity_def global_capacity_def lane_consts)+

text \<open>Appending a task that holds nothing.\<close>

lemma dispatch_inv_append:
  assumes inv: "dispatch_inv d" and i: "t_id t \<notin> t_id ` set (d_tasks d)"
    and ph: "t_phase t \<in> {WaitAccount, WaitLane}"
    and acct: "t_phase t = WaitLane \<longrightarrow> \<not> is_account_scoped_mutating (t_method t)"
    and wait: "t_phase t = WaitAccount \<longrightarrow> is_account_scoped_mutating (t_method t)"
    and del: "t_deleting t = (t_method t = ''accounts.deleteLocalData'')"
    and m: "\<And>key. map_count m key = map_count (d_deleting d) key + (if marks key t then 1 else 0)"
    and z: "\<And>key. m key \<noteq> Some 0"
  shows "dispatch_inv (d\<lparr>d_tasks := d_tasks d @ [t], d_deleting := m\<rparr>)"
proof -
  have none: "\<not> holds_account key t" "\<not> holds_lane a l t" "\<not> holds_global l t" "\<not> holds_link g t" for key a l g
    using ph acct by (auto simp: holds_account_def holds_lane_def holds_global_def holds_link_def)
  show ?thesis
    using inv i none del wait m z by (simp add: dispatch_inv_def)
qed

lemma begin_inv:
  assumes inv: "dispatch_inv d" and i: "i \<notin> t_id ` set (d_tasks d)"
    and ok: "acquire_begin i meth acct grp d = Inr d'"
  shows "dispatch_inv d'"
proof -
  define t where "t = \<lparr>t_id = i, t_method = meth, t_account = acct, t_group = grp, t_phase = WaitLane,
      t_deleting = False\<rparr>"
  have z: "d_deleting d key \<noteq> Some 0" for key using inv by (simp add: dispatch_inv_def)
  consider (del) "is_account_scoped_mutating meth" "meth = ''accounts.deleteLocalData''"
      "d' = d\<lparr>d_tasks := d_tasks d @ [t\<lparr>t_phase := WaitAccount, t_deleting := True\<rparr>],
              d_deleting := (d_deleting d)(account_key t \<mapsto> map_count (d_deleting d) (account_key t) + 1)\<rparr>"
    | (mut) "is_account_scoped_mutating meth" "meth \<noteq> ''accounts.deleteLocalData''"
      "d' = d\<lparr>d_tasks := d_tasks d @ [t\<lparr>t_phase := WaitAccount\<rparr>], d_deleting := d_deleting d\<rparr>"
    | (link) g where "\<not> is_account_scoped_mutating meth" "meth = ''link.finish''" "grp = Some g"
      "sql_count (holds_link g) (d_tasks d) < LINK_WAIT_CONCURRENCY"
      "d' = d\<lparr>d_tasks := d_tasks d @ [t\<lparr>t_phase := LinkHeld\<rparr>]\<rparr>"
    | (plain) "\<not> is_account_scoped_mutating meth" "meth \<noteq> ''link.finish''"
      "d' = d\<lparr>d_tasks := d_tasks d @ [t], d_deleting := d_deleting d\<rparr>"
    using ok by (auto simp: acquire_begin_def Let_def t_def not_le split: if_splits option.splits)
  then show ?thesis
  proof cases
    case del
    show ?thesis unfolding del(3)
      by (rule dispatch_inv_append [OF inv])
        (use i del z in \<open>auto simp: t_def marks_def account_key_def\<close>)
  next
    case mut
    show ?thesis unfolding mut(3)
      by (rule dispatch_inv_append [OF inv])
        (use i mut z in \<open>auto simp: t_def marks_def account_key_def\<close>)
  next
    case plain
    have "meth \<noteq> ''accounts.deleteLocalData''"
      using plain(1) by (auto simp: delete_is_mutating)
    then show ?thesis unfolding plain(3)
      by (intro dispatch_inv_append [OF inv])
        (use i plain z in \<open>auto simp: t_def marks_def account_key_def\<close>)
  next
    case link
    let ?t = "t\<lparr>t_phase := LinkHeld\<rparr>"
    have none: "\<not> holds_account key ?t" "\<not> holds_lane a l ?t" "\<not> holds_global l ?t" "\<not> marks key ?t" for key a l
      by (auto simp: holds_account_def holds_lane_def holds_global_def marks_def t_def)
    have "holds_link h ?t \<longleftrightarrow> h = g" for h using link(3) by (auto simp: holds_link_def t_def)
    with inv i none link show ?thesis
      by (simp add: dispatch_inv_def t_def lane_consts)
  qed
qed

lemma phase_update_frame:
  "map t_id (sql_update p (\<lambda>t. t\<lparr>t_phase := q\<rparr>) ts) = map t_id ts"
  by (simp add: sql_update_keys)

lemma count_marks_phase:
  "sql_count (marks key) (sql_update p (\<lambda>t. t\<lparr>t_phase := q\<rparr>) ts) = sql_count (marks key) ts"
  by (induction ts) (simp_all add: marks_def account_key_def)

text \<open>One grant: the phase moves forward, and only the granted resource gains a holder.\<close>

lemma grant_inv:
  assumes inv: "dispatch_inv d" and t: "t \<in> set (d_tasks d)" and p: "p \<noteq> WaitAccount"
    and acct: "\<And>key. sql_count (holds_account key) (d_tasks (set_phase (t_id t) p d)) \<le> 1"
    and lanes: "\<And>a l. sql_count (holds_lane a l) (d_tasks (set_phase (t_id t) p d)) \<le> lane_capacity l"
    and glob: "\<And>l. sql_count (holds_global l) (d_tasks (set_phase (t_id t) p d)) \<le> global_capacity l"
    and link: "\<And>g. sql_count (holds_link g) (d_tasks (set_phase (t_id t) p d)) \<le> LINK_WAIT_CONCURRENCY"
  shows "dispatch_inv (set_phase (t_id t) p d)"
proof -
  have ids: "distinct (map t_id (d_tasks (set_phase (t_id t) p d)))"
    using inv by (simp add: dispatch_inv_def set_phase_def phase_update_frame)
  have wait: "is_account_scoped_mutating (t_method x)"
    if "x \<in> set (d_tasks (set_phase (t_id t) p d))" "t_phase x = WaitAccount" for x
    using that inv p by (auto simp: set_phase_def dispatch_inv_def elim!: sql_update_memE)
  have del: "t_deleting x = (t_method x = ''accounts.deleteLocalData'')"
    if "x \<in> set (d_tasks (set_phase (t_id t) p d))" for x
    using that inv by (auto simp: set_phase_def dispatch_inv_def elim!: sql_update_memE)
  have marks: "map_count (d_deleting (set_phase (t_id t) p d)) key =
      sql_count (marks key) (d_tasks (set_phase (t_id t) p d))"
    "d_deleting (set_phase (t_id t) p d) key \<noteq> Some 0" for key
    using inv by (simp_all add: set_phase_def dispatch_inv_def count_marks_phase)
  show ?thesis
    unfolding dispatch_inv_def using ids acct lanes glob link wait del marks by blast
qed

lemma phase_unchanged_count:
  assumes inv: "dispatch_inv d" and t: "t \<in> set (d_tasks d)"
    and q: "q (t\<lparr>t_phase := p\<rparr>) \<Longrightarrow> q t" and le: "sql_count q (d_tasks d) \<le> n"
  shows "sql_count q (d_tasks (set_phase (t_id t) p d)) \<le> n"
proof -
  have d: "distinct (map t_id (d_tasks d))" using inv by (simp add: dispatch_inv_def)
  have same: "x = t" if "x \<in> set (d_tasks d)" "t_id x = t_id t" for x
    using key_unique [OF d that(1) t that(2)] .
  have "sql_count q (sql_update (\<lambda>x. t_id x = t_id t) (\<lambda>x. x\<lparr>t_phase := p\<rparr>) (d_tasks d)) \<le>
      sql_count q (d_tasks d)"
    by (rule count_set_phase_le [OF d t]) (use q same in blast)
  with le show ?thesis by (simp add: set_phase_def)
qed

lemma phase_gain_count:
  assumes "dispatch_inv d" and "sql_count q (d_tasks d) < n"
  shows "sql_count q (d_tasks (set_phase i p d)) \<le> n"
  using count_set_phase_Suc [of "d_tasks d" q i "\<lambda>x. x\<lparr>t_phase := p\<rparr>"] assms
  by (simp add: set_phase_def dispatch_inv_def)

lemmas inv_bounds = dispatch_inv_def [THEN iffD1, THEN conjunct2]

lemma inv_account: "dispatch_inv d \<Longrightarrow> sql_count (holds_account key) (d_tasks d) \<le> 1"
  and inv_lane: "dispatch_inv d \<Longrightarrow> sql_count (holds_lane a l) (d_tasks d) \<le> lane_capacity l"
  and inv_global: "dispatch_inv d \<Longrightarrow> sql_count (holds_global l) (d_tasks d) \<le> global_capacity l"
  and inv_link: "dispatch_inv d \<Longrightarrow> sql_count (holds_link g) (d_tasks d) \<le> LINK_WAIT_CONCURRENCY"
  by (simp_all add: dispatch_inv_def)

lemmas holder_defs = holds_account_def holds_lane_def holds_global_def holds_link_def account_key_def

lemma take_account_inv:
  assumes inv: "dispatch_inv d" and t: "t \<in> set (d_tasks d)" and can: "can_take_account t d"
  shows "dispatch_inv (set_phase (t_id t) WaitLane d)"
proof (rule grant_inv [OF inv t])
  fix key a l g
  show "sql_count (holds_account key) (d_tasks (set_phase (t_id t) WaitLane d)) \<le> 1"
  proof (cases "key = account_key t")
    case True
    with can show ?thesis by (intro phase_gain_count [OF inv]) (simp add: can_take_account_def)
  next
    case False
    then show ?thesis
      by (intro phase_unchanged_count [OF inv t _ inv_account [OF inv]]) (simp add: holder_defs)
  qed
  show "sql_count (holds_lane a l) (d_tasks (set_phase (t_id t) WaitLane d)) \<le> lane_capacity l"
    by (rule phase_unchanged_count [OF inv t _ inv_lane [OF inv]]) (simp add: holder_defs)
  show "sql_count (holds_global l) (d_tasks (set_phase (t_id t) WaitLane d)) \<le> global_capacity l"
    by (rule phase_unchanged_count [OF inv t _ inv_global [OF inv]]) (simp add: holder_defs)
  show "sql_count (holds_link g) (d_tasks (set_phase (t_id t) WaitLane d)) \<le> LINK_WAIT_CONCURRENCY"
    by (rule phase_unchanged_count [OF inv t _ inv_link [OF inv]]) (simp add: holder_defs)
qed simp

lemma take_lane_inv:
  assumes inv: "dispatch_inv d" and t: "t \<in> set (d_tasks d)" and can: "can_take_lane t d"
  shows "dispatch_inv (set_phase (t_id t) WaitGlobal d)"
proof (rule grant_inv [OF inv t])
  have ph: "t_phase t = WaitLane" using can by (simp add: can_take_lane_def)
  fix key a l g
  show "sql_count (holds_account key) (d_tasks (set_phase (t_id t) WaitGlobal d)) \<le> 1"
    by (rule phase_unchanged_count [OF inv t _ inv_account [OF inv]]) (use ph in \<open>simp add: holder_defs\<close>)
  show "sql_count (holds_lane a l) (d_tasks (set_phase (t_id t) WaitGlobal d)) \<le> lane_capacity l"
  proof (cases "a = t_account t \<and> l = method_lane (t_method t)")
    case True
    with can show ?thesis by (intro phase_gain_count [OF inv]) (simp add: can_take_lane_def)
  next
    case False
    then show ?thesis
      by (intro phase_unchanged_count [OF inv t _ inv_lane [OF inv]]) (auto simp: holder_defs)
  qed
  show "sql_count (holds_global l) (d_tasks (set_phase (t_id t) WaitGlobal d)) \<le> global_capacity l"
    by (rule phase_unchanged_count [OF inv t _ inv_global [OF inv]]) (simp add: holder_defs)
  show "sql_count (holds_link g) (d_tasks (set_phase (t_id t) WaitGlobal d)) \<le> LINK_WAIT_CONCURRENCY"
    by (rule phase_unchanged_count [OF inv t _ inv_link [OF inv]]) (simp add: holder_defs)
qed simp

lemma take_global_inv:
  assumes inv: "dispatch_inv d" and t: "t \<in> set (d_tasks d)" and can: "can_take_global t d"
  shows "dispatch_inv (set_phase (t_id t) Running d)"
proof (rule grant_inv [OF inv t])
  have ph: "t_phase t = WaitGlobal" using can by (simp add: can_take_global_def)
  fix key a l g
  show "sql_count (holds_account key) (d_tasks (set_phase (t_id t) Running d)) \<le> 1"
    by (rule phase_unchanged_count [OF inv t _ inv_account [OF inv]]) (use ph in \<open>simp add: holder_defs\<close>)
  show "sql_count (holds_lane a l) (d_tasks (set_phase (t_id t) Running d)) \<le> lane_capacity l"
    by (rule phase_unchanged_count [OF inv t _ inv_lane [OF inv]]) (use ph in \<open>simp add: holder_defs\<close>)
  show "sql_count (holds_global l) (d_tasks (set_phase (t_id t) Running d)) \<le> global_capacity l"
  proof (cases "l = method_lane (t_method t)")
    case True
    with can show ?thesis by (intro phase_gain_count [OF inv]) (simp add: can_take_global_def)
  next
    case False
    then show ?thesis
      by (intro phase_unchanged_count [OF inv t _ inv_global [OF inv]]) (auto simp: holder_defs)
  qed
  show "sql_count (holds_link g) (d_tasks (set_phase (t_id t) Running d)) \<le> LINK_WAIT_CONCURRENCY"
    by (rule phase_unchanged_count [OF inv t _ inv_link [OF inv]]) (simp add: holder_defs)
qed simp

lemma count_filter_key:
  assumes "distinct (map t_id ts)" "t \<in> set ts"
  shows "sql_count q (filter (\<lambda>x. t_id x \<noteq> t_id t) ts) = sql_count q ts - (if q t then 1 else 0)"
  using assms
proof (induction ts)
  case (Cons x ts)
  show ?case
  proof (cases "t_id x = t_id t")
    case True
    then have "x = t" using key_unique [OF Cons.prems(1) _ Cons.prems(2), of x] by simp
    moreover have "filter (\<lambda>y. t_id y \<noteq> t_id t) ts = ts"
      using Cons.prems(1) True by (auto simp: filter_id_conv image_iff)
    ultimately show ?thesis by simp
  next
    case False
    then have "t \<in> set ts" using Cons.prems(2) by auto
    moreover from this have "q t \<Longrightarrow> sql_count q ts \<noteq> 0" by (auto simp: sql_count_0_iff)
    ultimately show ?thesis using False Cons by auto
  qed
qed simp

lemma map_count_drop_deleting:
  "map_count (drop_deleting key m) k = map_count m k - (if k = key then 1 else 0)"
  by (auto simp: drop_deleting_def map_count_def split: option.split)

lemma drop_deleting_pos: "(\<And>k. m k \<noteq> Some 0) \<Longrightarrow> drop_deleting key m k \<noteq> Some 0"
  by (auto simp: drop_deleting_def split: option.split)

lemma release_inv:
  assumes inv: "dispatch_inv d"
  shows "dispatch_inv (release i d)"
proof (cases "find (\<lambda>t. t_id t = i) (d_tasks d)")
  case None
  then show ?thesis using inv by (simp add: release_def)
next
  case (Some t)
  then have t: "t \<in> set (d_tasks d)" "t_id t = i" using find_Some_in [OF Some] by simp_all
  let ?ts = "filter (\<lambda>t. t_id t \<noteq> i) (d_tasks d)"
  let ?m = "if t_deleting t then drop_deleting (account_key t) (d_deleting d) else d_deleting d"
  have dist: "distinct (map t_id (d_tasks d))" using inv by (simp add: dispatch_inv_def)
  have le: "sql_count q ?ts \<le> sql_count q (d_tasks d)" for q by (rule sql_count_filter_le)
  have marks: "map_count ?m key = sql_count (marks key) ?ts" for key
    using inv count_filter_key [OF dist t(1), of "marks key"] t(2)
    by (auto simp: dispatch_inv_def map_count_drop_deleting marks_def)
  have pos: "?m key \<noteq> Some 0" for key
    using inv drop_deleting_pos [of "d_deleting d" "account_key t" key] by (auto simp: dispatch_inv_def)
  have "dispatch_inv (d\<lparr>d_tasks := ?ts, d_deleting := ?m\<rparr>)"
    unfolding dispatch_inv_def
    using le [THEN order_trans, OF inv_account [OF inv]] le [THEN order_trans, OF inv_lane [OF inv]]
      le [THEN order_trans, OF inv_global [OF inv]] le [THEN order_trans, OF inv_link [OF inv]] marks pos
      distinct_map_filter [OF dist] inv
    by (simp add: dispatch_inv_def)
  then show ?thesis using Some by (simp add: release_def)
qed

lemma dispatch_step_inv:
  assumes "dispatch_step d d'" "dispatch_inv d"
  shows "dispatch_inv d'"
  using assms(1)
  by cases (use assms(2) in \<open>auto intro: begin_inv take_account_inv take_lane_inv take_global_inv release_inv\<close>)

lemma dispatch_reach_inv: "dispatch_reach d \<Longrightarrow> dispatch_inv d"
  by (induction rule: dispatch_reach.induct) (auto intro: dispatch_new_inv dispatch_step_inv)

lemma two_holders:
  assumes "sql_count q ts \<le> 1" "distinct (map t_id ts)" "t \<in> set ts" "q t" "u \<in> set ts" "q u"
  shows "t = u"
proof (rule ccontr)
  assume "t \<noteq> u"
  have "sql_count q (filter (\<lambda>x. t_id x \<noteq> t_id t) ts) = sql_count q ts - 1"
    using count_filter_key [OF assms(2,3), of q] assms(4) by simp
  then have "sql_count q (filter (\<lambda>x. t_id x \<noteq> t_id t) ts) = 0" using assms(1) by simp
  moreover have "u \<in> set (filter (\<lambda>x. t_id x \<noteq> t_id t) ts)"
    using assms(5) key_unique [OF assms(2,5,3)] \<open>t \<noteq> u\<close> by auto
  ultimately show False using assms(6) by (auto simp: sql_count_0_iff)
qed

lemma no_deadlock:
  assumes inv: "dispatch_inv d" and t: "t \<in> set (d_tasks d)" "t_phase t \<notin> {Running, LinkHeld}"
    and idle: "\<forall>u \<in> set (d_tasks d). t_phase u \<noteq> Running"
  shows "\<exists>u \<in> set (d_tasks d). can_take_account u d \<or> can_take_lane u d \<or> can_take_global u d"
proof -
  have global: "can_take_global u d" if "u \<in> set (d_tasks d)" "t_phase u = WaitGlobal" for u
  proof -
    have "sql_count (holds_global l) (d_tasks d) = 0" for l
      using idle by (auto simp: sql_count_0_iff holds_global_def)
    with that capacity_pos show ?thesis by (simp add: can_take_global_def)
  qed
  have lane: "can_take_lane u d"
    if "u \<in> set (d_tasks d)" "t_phase u = WaitLane" "\<forall>v \<in> set (d_tasks d). t_phase v \<noteq> WaitGlobal" for u
  proof -
    have "sql_count (holds_lane a l) (d_tasks d) = 0" for a l
      using idle that(3) by (auto simp: sql_count_0_iff holds_lane_def)
    with that capacity_pos show ?thesis by (simp add: can_take_lane_def)
  qed
  have acct: "can_take_account u d"
    if "u \<in> set (d_tasks d)" "t_phase u = WaitAccount"
      "\<forall>v \<in> set (d_tasks d). t_phase v \<noteq> WaitGlobal \<and> t_phase v \<noteq> WaitLane" for u
    using idle that by (auto simp: can_take_account_def sql_count_0_iff holds_account_def)
  from t(2) have "t_phase t = WaitAccount \<or> t_phase t = WaitLane \<or> t_phase t = WaitGlobal"
    by (cases "t_phase t") auto
  with global lane acct t(1) show ?thesis by blast
qed

section \<open>Properties\<close>

text \<open>
  Dispatch concurrency is bounded whatever the order of arrivals, grants, completions and drops: each
  account has at most its lane's capacity of permits (1 control, 4 read, 2 send), the process at most four
  times that, each proxy group at most one pending link, and each account at most one mutating request past
  its mutex.
\<close>

lemma dispatch_bounds:
  assumes "dispatch_reach d"
  shows "(\<forall>acct l. sql_count (holds_lane acct l) (d_tasks d) \<le> lane_capacity l) \<and>
    (\<forall>l. sql_count (holds_global l) (d_tasks d) \<le> global_capacity l) \<and>
    (\<forall>g. sql_count (holds_link g) (d_tasks d) \<le> 1) \<and>
    (\<forall>key. sql_count (holds_account key) (d_tasks d) \<le> 1)"
  using dispatch_reach_inv [OF assms] by (simp add: dispatch_inv_def lane_consts)

text \<open>
  C1. The delete barrier: when a local-data delete has its account's mutex, no other mutating request of the
  account does; and from the moment a delete is registered until it leaves, every other mutating request of
  the account is refused with \<open>ACCOUNT_NOT_FOUND\<close> instead of queueing behind it.
\<close>

theorem delete_barrier:
  assumes "dispatch_reach d" and "t \<in> set (d_tasks d)" and "t_method t = ''accounts.deleteLocalData''"
  shows "(\<forall>u \<in> set (d_tasks d). \<forall>key. holds_account key t \<and> holds_account key u \<longrightarrow> u = t) \<and>
    (is_account_scoped_mutating meth \<and> meth \<noteq> ''accounts.deleteLocalData'' \<longrightarrow>
       acquire_begin i meth (t_account t) grp d =
         Inl (api_error_new ''ACCOUNT_NOT_FOUND'' ''account is being deleted'' False))"
proof (intro conjI impI ballI allI)
  have inv: "dispatch_inv d" using assms(1) by (rule dispatch_reach_inv)
  then have dist: "distinct (map t_id (d_tasks d))" by (simp add: dispatch_inv_def)
  show "u = t" if "u \<in> set (d_tasks d)" "holds_account key t \<and> holds_account key u" for u key
    using two_holders [OF inv_account [OF inv] dist that(1) _ assms(2)] that(2) by blast
  have "marks (account_key t) t" using inv assms(2,3) by (simp add: marks_def dispatch_inv_def)
  with assms(2) have "sql_count (marks (account_key t)) (d_tasks d) \<noteq> 0" by (auto simp: sql_count_0_iff)
  then have "d_deleting d (account_key t) \<noteq> None"
    using inv by (auto simp: dispatch_inv_def map_count_def split: option.splits)
  then show "acquire_begin i meth (t_account t) grp d =
      Inl (api_error_new ''ACCOUNT_NOT_FOUND'' ''account is being deleted'' False)"
    if "is_account_scoped_mutating meth \<and> meth \<noteq> ''accounts.deleteLocalData''"
    using that by (simp add: acquire_begin_def account_key_def Let_def)
qed

text \<open>A delete registered in an empty machine.\<close>

definition sample_delete :: task where
  "sample_delete = \<lparr>t_id = 7, t_method = ''accounts.deleteLocalData'', t_account = Some ''a'',
     t_group = None, t_phase = WaitAccount, t_deleting = True\<rparr>"

definition sample_dispatch :: dispatch where
  "sample_dispatch = \<lparr>d_tasks = [sample_delete], d_deleting = [''a'' \<mapsto> 1]\<rparr>"

lemma sample_dispatch_reach: "dispatch_reach sample_dispatch"
proof (rule dr_step [OF dr_init])
  have "acquire_begin 7 ''accounts.deleteLocalData'' (Some ''a'') None dispatch_new = Inr sample_dispatch"
    by (simp add: acquire_begin_def delete_is_mutating account_key_def dispatch_new_def sample_dispatch_def
        sample_delete_def Let_def)
  then show "dispatch_step dispatch_new sample_dispatch"
    by (rule ds_begin [rotated]) (simp add: dispatch_new_def)
qed

theorem delete_barrier_witness:
  "sample_delete \<in> set (d_tasks sample_dispatch) \<and>
   acquire_begin 8 ''messages.sendText'' (Some ''a'') None sample_dispatch =
     Inl (api_error_new ''ACCOUNT_NOT_FOUND'' ''account is being deleted'' False)"
  using delete_barrier [OF sample_dispatch_reach, of sample_delete "''messages.sendText''" 8 None] sendText_row
  by (simp add: sample_dispatch_def sample_delete_def)



text \<open>
  Accounts do not serialize one another: whether a request gets its account lane depends on the requests
  of its own account only, and the send lane is reserved to requests that hold their account's mutex and so
  sit behind the delete barrier.
\<close>

lemma account_lane_isolation:
  "can_take_lane t d =
     can_take_lane t (d\<lparr>d_tasks := filter (\<lambda>u. t_account u = t_account t) (d_tasks d)\<rparr>) \<and>
   (holds_lane acct Send t \<longrightarrow> holds_account (account_key t) t)"
proof
  have "sql_count (holds_lane (t_account t) l) (filter (\<lambda>u. t_account u = t_account t) ts) =
      sql_count (holds_lane (t_account t) l) ts" for l ts
    by (induction ts) (auto simp: holds_lane_def)
  then show "can_take_lane t d =
     can_take_lane t (d\<lparr>d_tasks := filter (\<lambda>u. t_account u = t_account t) (d_tasks d)\<rparr>)"
    by (simp add: can_take_lane_def)
  show "holds_lane acct Send t \<longrightarrow> holds_account (account_key t) t"
    using send_lane_mutates [of "t_method t"] by (auto simp: holds_lane_def holds_account_def)
qed

end
