(* ===== verification/Chunk_Streams.thy ===== *)
theory Chunk_Streams
  imports Conn_Prelude "HOL-Library.Sublist"
begin

text \<open>
  What the two chunk-stream tables of the program share (\<open>src/media.rs\<close> and
  \<open>src/backup_export.rs\<close>): the files they read, the loop around the operating system's short reads,
  the hash map under the table lock, and the interface. The interface is two locales: \<open>chunk_table\<close>
  for one reader, \<open>handle_table\<close> for a session of arbitrary operations. \<open>Instant\<close>s are milliseconds; the clock, the random handle and the file system are arguments.
\<close>

section \<open>Files and chunks\<close>

datatype file_state = Absent | Unreadable | Content string

datatype io_error = IoNotFound | IoOther

record chunk =
  ck_data :: string
  ck_eof :: bool

definition read_exact_range ::
    "(string \<Rightarrow> file_state) \<Rightarrow> string \<Rightarrow> nat \<Rightarrow> nat \<Rightarrow> io_error + string" where
  "read_exact_range fs path offset want =
     (case fs path of
        Absent \<Rightarrow> Inl IoNotFound
      | Unreadable \<Rightarrow> Inl IoOther
      | Content c \<Rightarrow> Inr (take want (drop offset c)))"

text \<open>
  The loop inside \<open>read_exact_range\<close>. The operating system decides how much one \<open>read\<close> returns: a
  \<open>Granted n\<close> hands over at most \<open>n + 1\<close> bytes (nothing only at the end of the file), \<open>Interrupted\<close>
  retries, \<open>ReadFailed\<close> is returned. \<open>None\<close> is a loop still waiting for the next answer.
\<close>

datatype os_read = Granted nat | Interrupted | ReadFailed

fun read_fill :: "string \<Rightarrow> nat \<Rightarrow> nat \<Rightarrow> os_read list \<Rightarrow> string \<Rightarrow> (io_error + string) option" where
  "read_fill c offset want sched data =
     (if length data < want then
        (case sched of
           [] \<Rightarrow> None
         | Granted n # sched' \<Rightarrow>
             let got = take (min (n + 1) (want - length data)) (drop (offset + length data) c)
             in if got = [] then Some (Inr data) else read_fill c offset want sched' (data @ got)
         | Interrupted # sched' \<Rightarrow> read_fill c offset want sched' data
         | ReadFailed # _ \<Rightarrow> Some (Inl IoOther))
      else Some (Inr data))"

declare read_fill.simps [simp del]

definition grants :: "os_read list \<Rightarrow> nat" where
  "grants sched = length (filter (\<lambda>r. case r of Granted _ \<Rightarrow> True | _ \<Rightarrow> False) sched)"

lemma grants_Cons: "grants (Granted n # sched) = grants sched + 1"
  by (simp add: grants_def)

lemma take_own_length: "take n xs = take (length (take n xs)) xs"
  by (cases "n \<le> length xs") simp_all

lemma take_then_take:
  assumes "data = take (length data) (drop offset c)"
  shows "data @ take n (drop (offset + length data) c) = take (length data + n) (drop offset c)"
proof -
  have "take (length data + n) (drop offset c) =
      take (length data) (drop offset c) @ take n (drop (length data) (drop offset c))"
    by (rule take_add)
  then show ?thesis using assms by (simp add: add.commute)
qed

lemma read_fill_exact:
  assumes "data = take (length data) (drop offset c)" "length data \<le> want" "ReadFailed \<notin> set sched"
    "want - length data < grants sched \<or> length data = want"
  shows "read_fill c offset want sched data = Some (Inr (take want (drop offset c)))"
  using assms
proof (induction sched arbitrary: data)
  case Nil
  then show ?case by (auto simp: read_fill.simps grants_def)
next
  case (Cons r sched)
  show ?case
  proof (cases "length data < want")
    case False
    with Cons.prems show ?thesis by (auto simp: read_fill.simps)
  next
    case lt: True
    show ?thesis
    proof (cases r)
      case (Granted n)
      let ?m = "min (n + 1) (want - length data)"
      let ?got = "take ?m (drop (offset + length data) c)"
      have ext: "data @ ?got = take (length data + ?m) (drop offset c)"
        by (rule take_then_take [OF Cons.prems(1)])
      show ?thesis
      proof (cases "?got = []")
        case True
        then have "length c \<le> offset + length data" using lt by auto
        then have "take want (drop offset c) = take (length data) (drop offset c)"
          using lt by simp
        with True lt Granted Cons.prems(1) show ?thesis by (simp add: read_fill.simps Let_def)
      next
        case False
        have "read_fill c offset want sched (data @ ?got) = Some (Inr (take want (drop offset c)))"
        proof (rule Cons.IH)
          show "data @ ?got = take (length (data @ ?got)) (drop offset c)"
            unfolding ext by (rule take_own_length)
          show "length (data @ ?got) \<le> want" using lt by simp
          show "ReadFailed \<notin> set sched" using Cons.prems by simp
          have "0 < length ?got" using False by (meson length_greater_0_conv)
          then show "want - length (data @ ?got) < grants sched \<or> length (data @ ?got) = want"
            using Cons.prems(4) lt unfolding Granted grants_Cons by (simp only: length_append) linarith
        qed
        with False lt Granted show ?thesis by (simp add: read_fill.simps [of _ _ _ "_ # _"] Let_def)
      qed
    next
      case Interrupted
      with Cons lt show ?thesis by (simp add: read_fill.simps [of _ _ _ "_ # _"] grants_def)
    qed (use Cons.prems in simp)
  qed
qed

text \<open>
  Short reads never truncate a chunk: whatever sizes the operating system returns and however
  often a read is interrupted, once enough reads were granted the loop ends with exactly the \<open>want\<close>
  bytes at \<open>offset\<close>, or with what the file still has when it ends early.
\<close>
lemma short_reads_never_truncate:
  assumes "ReadFailed \<notin> set sched" "want < grants sched" "fs path = Content c"
  shows "read_fill c offset want sched [] = Some (read_exact_range fs path offset want)"
  using read_fill_exact [of "[]" offset c want sched] assms by (simp add: read_exact_range_def)

text \<open>A reader's loop over a stream: ask for the next offset until a chunk says it is the last.\<close>

fun stream_all :: "(nat \<Rightarrow> 's \<Rightarrow> ('e + chunk) \<times> 's) \<Rightarrow> nat \<Rightarrow> nat \<Rightarrow> 's \<Rightarrow> string option" where
  "stream_all rd 0 pos s = None"
| "stream_all rd (Suc n) pos s =
     (case rd pos s of
        (Inl _, _) \<Rightarrow> None
      | (Inr ch, s') \<Rightarrow>
          if ck_eof ch then Some (ck_data ch)
          else map_option (\<lambda>rest. ck_data ch @ rest) (stream_all rd n (pos + length (ck_data ch)) s'))"

text \<open>The cursor of a live handle: its file, declared size, next offset and expiry.\<close>

record cursor =
  cu_account :: string
  cu_path :: string
  cu_size :: nat
  cu_pos :: nat
  cu_expires :: nat

locale chunk_table =
  fixes chunk_bytes :: nat
    and read :: "nat \<Rightarrow> (string \<Rightarrow> file_state) \<Rightarrow> string \<Rightarrow> nat \<Rightarrow> 's \<Rightarrow> ('e + chunk) \<times> 's"
    and cursor_of :: "'s \<Rightarrow> string \<Rightarrow> cursor option"
    and inv :: "'s \<Rightarrow> bool"
  assumes chunk_pos: "0 < chunk_bytes"
    and read_inv: "inv s \<Longrightarrow> inv (snd (read now fs h offset s))"
    and read_next: "inv s \<Longrightarrow> cursor_of s h = Some cu \<Longrightarrow> now < cu_expires cu \<Longrightarrow> cu_pos cu \<le> cu_size cu \<Longrightarrow>
      fs (cu_path cu) = Content c \<Longrightarrow> length c = cu_size cu \<Longrightarrow>
      (let n = min chunk_bytes (cu_size cu - cu_pos cu)
       in fst (read now fs h (cu_pos cu) s) =
            Inr \<lparr>ck_data = take n (drop (cu_pos cu) c), ck_eof = (cu_size cu \<le> cu_pos cu + n)\<rparr> \<and>
          cursor_of (snd (read now fs h (cu_pos cu) s)) h = Some (cu\<lparr>cu_pos := cu_pos cu + n\<rparr>))"
    and read_other: "inv s \<Longrightarrow> cursor_of s h = Some cu \<Longrightarrow> now < cu_expires cu \<Longrightarrow> offset \<noteq> cu_pos cu \<Longrightarrow>
      (\<exists>e. fst (read now fs h offset s) = Inl e) \<and>
      cursor_of (snd (read now fs h offset s)) h = Some cu"
begin

lemma stream_from:
  assumes "inv s" "cursor_of s h = Some cu" "\<And>p. clock p < cu_expires cu" "cu_pos cu \<le> cu_size cu"
    and "fs (cu_path cu) = Content c" "length c = cu_size cu"
    and "cu_size cu - cu_pos cu < k * chunk_bytes \<or> (0 < k \<and> cu_pos cu = cu_size cu)"
  shows "stream_all (\<lambda>p. read (clock p) fs h p) k (cu_pos cu) s = Some (drop (cu_pos cu) c)"
  using assms
proof (induction k arbitrary: s cu)
  case (Suc k)
  let ?n = "min chunk_bytes (cu_size cu - cu_pos cu)"
  obtain r s' where rd: "read (clock (cu_pos cu)) fs h (cu_pos cu) s = (r, s')" by (cases "read (clock (cu_pos cu)) fs h (cu_pos cu) s")
  from read_next [where fs = fs and now = "clock (cu_pos cu)", OF Suc.prems(1-6)] rd
  have r: "r = Inr \<lparr>ck_data = take ?n (drop (cu_pos cu) c), ck_eof = (cu_size cu \<le> cu_pos cu + ?n)\<rparr>"
    and s': "cursor_of s' h = Some (cu\<lparr>cu_pos := cu_pos cu + ?n\<rparr>)"
    by (simp_all add: Let_def)
  show ?case
  proof (cases "cu_size cu \<le> cu_pos cu + ?n")
    case True
    then have "take ?n (drop (cu_pos cu) c) = drop (cu_pos cu) c" using Suc.prems(6) by simp
    with True rd r Suc.prems(4) show ?thesis by auto
  next
    case False
    then have n: "?n = chunk_bytes" by auto
    have len: "length (take ?n (drop (cu_pos cu) c)) = ?n" using Suc.prems(4,6) by simp
    have "stream_all (\<lambda>p. read (clock p) fs h p) k (cu_pos (cu\<lparr>cu_pos := cu_pos cu + ?n\<rparr>)) s' =
        Some (drop (cu_pos (cu\<lparr>cu_pos := cu_pos cu + ?n\<rparr>)) c)"
      by (rule Suc.IH [OF _ s']) (use Suc.prems False n read_inv [OF Suc.prems(1), of "clock (cu_pos cu)" fs h "cu_pos cu"] rd in auto)
    moreover have "take ?n (drop (cu_pos cu) c) @ drop (cu_pos cu + ?n) c = drop (cu_pos cu) c"
      by (metis add.commute append_take_drop_id drop_drop)
    ultimately show ?thesis using rd r False len by simp
  qed
qed simp

end

text \<open>
  A whole session: reads at arbitrary offsets on arbitrary handles, interleaved with the table's other
  operations. \<open>mints op h\<close> says that \<open>op\<close> would hand out the handle \<open>h\<close> (anew).
\<close>

datatype 'op table_event = ReadAt nat string nat | OtherOp 'op

text \<open>The bytes a session delivers on one handle, in order, and the table it ends with.\<close>

fun delivered ::
    "(nat \<Rightarrow> (string \<Rightarrow> file_state) \<Rightarrow> string \<Rightarrow> nat \<Rightarrow> 's \<Rightarrow> ('e + chunk) \<times> 's) \<Rightarrow> ('op \<Rightarrow> 's \<Rightarrow> 's) \<Rightarrow>
     (string \<Rightarrow> file_state) \<Rightarrow> string \<Rightarrow> 'op table_event list \<Rightarrow> 's \<Rightarrow> string" where
  "delivered rd ot fs h [] s = []"
| "delivered rd ot fs h (OtherOp op # es) s = delivered rd ot fs h es (ot op s)"
| "delivered rd ot fs h (ReadAt now j offset # es) s =
     (case rd now fs j offset s of
        (Inr ch, s') \<Rightarrow> (if j = h then ck_data ch else []) @ delivered rd ot fs h es s'
      | (Inl _, s') \<Rightarrow> delivered rd ot fs h es s')"

fun run_events ::
    "(nat \<Rightarrow> (string \<Rightarrow> file_state) \<Rightarrow> string \<Rightarrow> nat \<Rightarrow> 's \<Rightarrow> ('e + chunk) \<times> 's) \<Rightarrow> ('op \<Rightarrow> 's \<Rightarrow> 's) \<Rightarrow>
     (string \<Rightarrow> file_state) \<Rightarrow> 'op table_event list \<Rightarrow> 's \<Rightarrow> 's" where
  "run_events rd ot fs [] s = s"
| "run_events rd ot fs (OtherOp op # es) s = run_events rd ot fs es (ot op s)"
| "run_events rd ot fs (ReadAt now j offset # es) s = run_events rd ot fs es (snd (rd now fs j offset s))"

locale handle_table = chunk_table chunk_bytes read cursor_of inv
  for chunk_bytes and read :: "nat \<Rightarrow> (string \<Rightarrow> file_state) \<Rightarrow> string \<Rightarrow> nat \<Rightarrow> 's \<Rightarrow> ('e + chunk) \<times> 's"
    and cursor_of inv +
  fixes other :: "'op \<Rightarrow> 's \<Rightarrow> 's"
    and mints :: "'op \<Rightarrow> string \<Rightarrow> bool"
  assumes other_inv: "inv s \<Longrightarrow> inv (other op s)"
    and other_gone: "inv s \<Longrightarrow> \<not> mints op h \<Longrightarrow> cursor_of s h = None \<Longrightarrow> cursor_of (other op s) h = None"
    and other_keeps: "inv s \<Longrightarrow> \<not> mints op h \<Longrightarrow> cursor_of s h = Some cu \<Longrightarrow>
      cursor_of (other op s) h = None \<or> cursor_of (other op s) h = Some cu"
    and read_gone: "inv s \<Longrightarrow> cursor_of s h = None \<Longrightarrow>
      (\<exists>e. fst (read now fs h offset s) = Inl e) \<and> cursor_of (snd (read now fs j offset s)) h = None"
    and read_apart: "inv s \<Longrightarrow> cursor_of s h = Some cu \<Longrightarrow> j \<noteq> h \<Longrightarrow>
      cursor_of (snd (read now fs j offset s)) h = None \<or> cursor_of (snd (read now fs j offset s)) h = Some cu"
    and read_own: "inv s \<Longrightarrow> cursor_of s h = Some cu \<Longrightarrow> fs (cu_path cu) = Content c \<Longrightarrow>
      (case fst (read now fs h offset s) of
         Inl _ \<Rightarrow> cursor_of (snd (read now fs h offset s)) h = None \<or>
                  cursor_of (snd (read now fs h offset s)) h = Some cu
       | Inr ch \<Rightarrow> (\<exists>n. n \<le> cu_size cu - cu_pos cu \<and> ck_data ch = take n (drop (cu_pos cu) c)) \<and>
           cursor_of (snd (read now fs h offset s)) h = Some (cu\<lparr>cu_pos := cu_pos cu + length (ck_data ch)\<rparr>))"
begin

lemma delivered_gone:
  assumes "inv s" "cursor_of s h = None" "\<forall>op. OtherOp op \<in> set es \<longrightarrow> \<not> mints op h"
  shows "delivered read other fs h es s = []"
  using assms
proof (induction es arbitrary: s)
  case (Cons ev es)
  show ?case
  proof (cases ev)
    case (OtherOp op)
    then show ?thesis using Cons by (simp add: other_inv other_gone)
  next
    case ev: (ReadAt now j offset)
    obtain r s' where rd: "read now fs j offset s = (r, s')" by (cases "read now fs j offset s")
    note gone = read_gone [OF Cons.prems(1,2), of now fs offset j]
    have "delivered read other fs h es s' = []"
      using Cons gone read_inv [OF Cons.prems(1), of now fs j offset] rd by simp
    moreover have "j = h \<Longrightarrow> \<exists>e. r = Inl e" using gone rd by auto
    ultimately show ?thesis using rd ev by (auto split: sum.split)
  qed
qed simp

lemma run_inv: "inv s \<Longrightarrow> inv (run_events read other fs es s)"
proof (induction es arbitrary: s)
  case (Cons ev es)
  then show ?case by (cases ev) (simp_all add: other_inv read_inv)
qed simp

lemma delivered_prefix:
  assumes "inv s" "cursor_of s h = Some cu" "fs (cu_path cu) = Content c"
    "\<forall>op. OtherOp op \<in> set es \<longrightarrow> \<not> mints op h"
  shows "\<exists>n \<le> cu_size cu - cu_pos cu. delivered read other fs h es s = take n (drop (cu_pos cu) c)"
  using assms
proof (induction es arbitrary: s cu)
  case (Cons ev es)
  have fresh: "\<forall>op. OtherOp op \<in> set es \<longrightarrow> \<not> mints op h" using Cons.prems(4) by simp
  have stay: "\<exists>n \<le> cu_size cu - cu_pos cu. delivered read other fs h es s' = take n (drop (cu_pos cu) c)"
    if "inv s'" "cursor_of s' h = None \<or> cursor_of s' h = Some cu" for s'
    using that Cons.IH [of s' cu] Cons.prems(3) fresh delivered_gone [of s' h es fs] by (metis take_0 zero_le)
  show ?case
  proof (cases ev)
    case (OtherOp op)
    then show ?thesis
      using stay [of "other op s"] other_inv other_keeps [OF Cons.prems(1) _ Cons.prems(2)] Cons.prems by simp
  next
    case ev: (ReadAt now j offset)
    obtain r s' where rd: "read now fs j offset s = (r, s')" by (cases "read now fs j offset s")
    have inv': "inv s'" using read_inv [OF Cons.prems(1), of now fs j offset] rd by simp
    show ?thesis
    proof (cases "j = h")
      case False
      then show ?thesis
        using stay [OF inv'] read_apart [OF Cons.prems(1,2) False, of now fs offset] rd ev by (simp split: sum.split)
    next
      case jh: True
      note own = read_own [where fs = fs, OF Cons.prems(1-3), of now offset]
      show ?thesis
      proof (cases r)
        case (Inl e)
        then show ?thesis using stay [OF inv'] own rd ev jh by simp
      next
        case (Inr ch)
        then obtain n where n: "n \<le> cu_size cu - cu_pos cu" "ck_data ch = take n (drop (cu_pos cu) c)"
          and cu': "cursor_of s' h = Some (cu\<lparr>cu_pos := cu_pos cu + length (ck_data ch)\<rparr>)"
          using own rd jh by auto
        let ?l = "length (ck_data ch)"
        have l: "ck_data ch = take ?l (drop (cu_pos cu) c)" "?l \<le> cu_size cu - cu_pos cu"
          using n take_own_length [of n "drop (cu_pos cu) c"] by simp_all
        obtain m where m: "m \<le> cu_size cu - (cu_pos cu + ?l)"
          "delivered read other fs h es s' = take m (drop (cu_pos cu + ?l) c)"
          using Cons.IH [OF inv' cu'] Cons.prems(3) fresh by auto
        have "ck_data ch @ delivered read other fs h es s' = take (?l + m) (drop (cu_pos cu) c)"
          unfolding m(2) by (rule take_then_take [OF l(1)])
        moreover have "?l + m \<le> cu_size cu - cu_pos cu" using l(2) m(1) by linarith
        ultimately show ?thesis using rd ev jh Inr by auto
      qed
    qed
  qed
qed auto

end

section \<open>Hash maps with random keys\<close>

definition hm_insert :: "string \<Rightarrow> 'v \<Rightarrow> (string \<times> 'v) list \<Rightarrow> (string \<times> 'v) list" where
  "hm_insert k v m = (k, v) # filter (\<lambda>e. fst e \<noteq> k) m"

definition hm_remove :: "string \<Rightarrow> (string \<times> 'v) list \<Rightarrow> (string \<times> 'v) list" where
  "hm_remove k m = filter (\<lambda>e. fst e \<noteq> k) m"

definition hm_retain :: "('v \<Rightarrow> bool) \<Rightarrow> (string \<times> 'v) list \<Rightarrow> (string \<times> 'v) list" where
  "hm_retain p m = filter (\<lambda>e. p (snd e)) m"

definition hm_count :: "('v \<Rightarrow> bool) \<Rightarrow> (string \<times> 'v) list \<Rightarrow> nat" where
  "hm_count p m = length (filter (\<lambda>e. p (snd e)) m)"

definition hm_update :: "string \<Rightarrow> 'v \<Rightarrow> (string \<times> 'v) list \<Rightarrow> (string \<times> 'v) list" where
  "hm_update k v m = map (\<lambda>e. if fst e = k then (k, v) else e) m"

lemma hm_count_retain_le: "hm_count q (hm_retain p m) \<le> hm_count q m"
  by (induction m) (auto simp: hm_count_def hm_retain_def)

lemma hm_count_remove_le: "hm_count q (hm_remove k m) \<le> hm_count q m"
  by (induction m) (auto simp: hm_count_def hm_remove_def)

lemma hm_count_insert_le: "hm_count q (hm_insert k v m) \<le> hm_count q m + (if q v then 1 else 0)"
  using hm_count_remove_le [of q k m] by (simp add: hm_count_def hm_insert_def hm_remove_def)

lemma hm_count_update:
  assumes "\<And>w. (k, w) \<in> set m \<Longrightarrow> q w = q v"
  shows "hm_count q (hm_update k v m) = hm_count q m"
  using assms by (induction m) (force simp: hm_count_def hm_update_def)+

lemma map_of_hm_retain:
  assumes "distinct (map fst m)"
  shows "map_of (hm_retain p m) k =
    (case map_of m k of None \<Rightarrow> None | Some v \<Rightarrow> if p v then Some v else None)"
  using assms by (induction m) (auto simp: hm_retain_def map_of_eq_None_iff image_iff split: option.splits)

lemma map_of_hm_insert [simp]: "map_of (hm_insert k v m) j = (if j = k then Some v else map_of m j)"
  by (induction m) (auto simp: hm_insert_def)

lemma map_of_hm_update:
  "map_of (hm_update k v m) j = (if j = k \<and> map_of m k \<noteq> None then Some v else map_of m j)"
  by (induction m) (auto simp: hm_update_def)

lemma map_of_hm_remove: "map_of (hm_remove k m) j = (if j = k then None else map_of m j)"
  by (induction m) (auto simp: hm_remove_def)

lemma hm_keys [simp]:
  "distinct (map fst m) \<Longrightarrow> distinct (map fst (hm_insert k v m))"
  "distinct (map fst m) \<Longrightarrow> distinct (map fst (hm_remove k m))"
  "distinct (map fst m) \<Longrightarrow> distinct (map fst (hm_retain p m))"
  "map fst (hm_update k v m) = map fst m"
  by (auto simp: hm_insert_def hm_remove_def hm_retain_def hm_update_def intro: distinct_map_filter)

end
