(* ===== verification/Media_Handles.thy ===== *)
theory Media_Handles
  imports Chunk_Streams
begin

text \<open>
  The media handle table of \<open>src/media.rs\<close> (\<open>MediaHandleTable\<close>): open, read the next chunk, close,
  release an account or a message. One instant stands for the readings of the clock inside one call.
\<close>

section \<open>The media handle table\<close>

definition MEDIA_CHUNK_BYTES :: nat where "MEDIA_CHUNK_BYTES = 256 * 1024"
definition MEDIA_HANDLE_TTL_MS :: nat where "MEDIA_HANDLE_TTL_MS = 300000"
definition MAX_MEDIA_HANDLES_PER_ACCOUNT :: nat where "MAX_MEDIA_HANDLES_PER_ACCOUNT = 8"

datatype media_handle_error = HandleNotFound | NotSequential nat | Exhausted | HandleIo

record media_handle_entry =
  mh_account :: string
  mh_conversation :: string
  mh_message :: string
  mh_attachment :: string
  mh_path :: string
  mh_size :: nat
  mh_bytes_read :: nat
  mh_expires :: nat

type_synonym media_table = "(string \<times> media_handle_entry) list"

text \<open>What \<open>open\<close> is asked for: the resolved addressing tuple, the file and its size.\<close>

record media_open =
  mo_account :: string
  mo_conversation :: string
  mo_message :: string
  mo_attachment :: string
  mo_path :: string
  mo_size :: nat

definition media_sweep_expired :: "nat \<Rightarrow> media_table \<Rightarrow> media_table" where
  "media_sweep_expired now t = hm_retain (\<lambda>e. mh_expires e > now) t"

definition media_open_handle ::
    "nat \<Rightarrow> string \<Rightarrow> media_open \<Rightarrow> media_table \<Rightarrow> (media_handle_error + string) \<times> media_table" where
  "media_open_handle now handle q t =
     (let t = media_sweep_expired now t
      in if hm_count (\<lambda>e. mh_account e = mo_account q) t \<ge> MAX_MEDIA_HANDLES_PER_ACCOUNT
         then (Inl Exhausted, t)
         else (Inr handle,
               hm_insert handle
                 \<lparr>mh_account = mo_account q, mh_conversation = mo_conversation q,
                  mh_message = mo_message q, mh_attachment = mo_attachment q, mh_path = mo_path q,
                  mh_size = mo_size q, mh_bytes_read = 0, mh_expires = now + MEDIA_HANDLE_TTL_MS\<rparr> t))"

definition media_read_chunk ::
    "nat \<Rightarrow> (string \<Rightarrow> file_state) \<Rightarrow> string \<Rightarrow> nat \<Rightarrow> media_table \<Rightarrow>
     (media_handle_error + chunk) \<times> media_table" where
  "media_read_chunk now fs handle offset t =
     (let t = media_sweep_expired now t
      in case map_of t handle of
           None \<Rightarrow> (Inl HandleNotFound, t)
         | Some e \<Rightarrow>
             if mh_bytes_read e \<noteq> offset then (Inl (NotSequential (mh_bytes_read e)), t)
             else
               let want = min MEDIA_CHUNK_BYTES (mh_size e - mh_bytes_read e)
               in case read_exact_range fs (mh_path e) offset want of
                    Inl _ \<Rightarrow> (Inl HandleIo, t)
                  | Inr data \<Rightarrow>
                      let short = length data < want;
                          e' = e\<lparr>mh_bytes_read := mh_bytes_read e + length data\<rparr>;
                          eof = (short \<or> mh_bytes_read e' \<ge> mh_size e')
                      in (Inr \<lparr>ck_data = data, ck_eof = eof\<rparr>, hm_update handle e' t))"

definition media_close :: "string \<Rightarrow> media_table \<Rightarrow> bool \<times> media_table" where
  "media_close handle t = (map_of t handle \<noteq> None, hm_remove handle t)"

definition media_clear_account :: "string \<Rightarrow> media_table \<Rightarrow> nat \<times> media_table" where
  "media_clear_account acct t =
     (let t' = hm_retain (\<lambda>e. mh_account e \<noteq> acct) t in (length t - length t', t'))"

definition media_close_for_message :: "string \<Rightarrow> string \<Rightarrow> media_table \<Rightarrow> nat \<times> media_table" where
  "media_close_for_message acct mid t =
     (let t' = hm_retain (\<lambda>e. mh_account e \<noteq> acct \<or> mh_message e \<noteq> mid) t in (length t - length t', t'))"

text \<open>The keys are unique, no account holds more than its ceiling, no stream is past its end.\<close>

definition media_ok :: "media_table \<Rightarrow> bool" where
  "media_ok t \<longleftrightarrow> distinct (map fst t) \<and>
     (\<forall>acct. hm_count (\<lambda>e. mh_account e = acct) t \<le> MAX_MEDIA_HANDLES_PER_ACCOUNT) \<and>
     (\<forall>(h, e) \<in> set t. mh_bytes_read e \<le> mh_size e)"

lemma media_ok_retain: "media_ok t \<Longrightarrow> media_ok (hm_retain p t)"
  using hm_count_retain_le [of _ p t] unfolding media_ok_def
  by (auto simp: hm_retain_def intro: distinct_map_filter order_trans)

lemma media_sweep_ok: "media_ok t \<Longrightarrow> media_ok (media_sweep_expired now t)"
  by (simp add: media_sweep_expired_def media_ok_retain)

lemma media_open_ok:
  assumes "media_ok t"
  shows "media_ok (snd (media_open_handle now h q t))"
proof -
  let ?t = "media_sweep_expired now t"
  have ok: "media_ok ?t" using assms by (rule media_sweep_ok)
  let ?e = "\<lparr>mh_account = mo_account q, mh_conversation = mo_conversation q, mh_message = mo_message q,
      mh_attachment = mo_attachment q, mh_path = mo_path q, mh_size = mo_size q, mh_bytes_read = 0,
      mh_expires = now + MEDIA_HANDLE_TTL_MS\<rparr>"
  show ?thesis
  proof (cases "hm_count (\<lambda>e. mh_account e = mo_account q) ?t \<ge> MAX_MEDIA_HANDLES_PER_ACCOUNT")
    case True
    then show ?thesis using ok by (simp add: media_open_handle_def Let_def)
  next
    case False
    have "hm_count (\<lambda>e. mh_account e = acct) (hm_insert h ?e ?t) \<le> MAX_MEDIA_HANDLES_PER_ACCOUNT" for acct
      using hm_count_insert_le [of "\<lambda>e. mh_account e = acct" h ?e ?t] ok False
      by (cases "acct = mo_account q") (auto simp: media_ok_def intro: order_trans)
    then have "media_ok (hm_insert h ?e ?t)"
      using ok by (auto simp: media_ok_def) (auto simp: hm_insert_def)
    with False show ?thesis by (simp add: media_open_handle_def Let_def)
  qed
qed

lemma media_read_ok:
  assumes "media_ok t"
  shows "media_ok (snd (media_read_chunk now fs h offset t))"
proof -
  let ?t = "media_sweep_expired now t"
  have ok: "media_ok ?t" using assms by (rule media_sweep_ok)
  show ?thesis
  proof (cases "map_of ?t h")
    case None
    then show ?thesis using ok by (simp add: media_read_chunk_def Let_def)
  next
    case (Some e)
    have mem: "(h, e) \<in> set ?t" using Some by (rule map_of_SomeD)
    have uniq: "w = e" if "(h, w) \<in> set ?t" for w
      using that Some ok by (auto simp: media_ok_def)
    have upd: "media_ok (hm_update h (e\<lparr>mh_bytes_read := mh_bytes_read e + n\<rparr>) ?t)"
      if "n \<le> mh_size e - mh_bytes_read e" for n
    proof -
      have le: "mh_bytes_read e \<le> mh_size e" using ok mem by (auto simp: media_ok_def)
      have "hm_count (\<lambda>e. mh_account e = acct) (hm_update h (e\<lparr>mh_bytes_read := mh_bytes_read e + n\<rparr>) ?t) =
          hm_count (\<lambda>e. mh_account e = acct) ?t" for acct
        by (rule hm_count_update) (use uniq in auto)
      moreover have "\<forall>(h', w) \<in> set (hm_update h (e\<lparr>mh_bytes_read := mh_bytes_read e + n\<rparr>) ?t).
          mh_bytes_read w \<le> mh_size w"
        using ok le that by (auto simp: media_ok_def hm_update_def)
      ultimately show ?thesis using ok by (simp add: media_ok_def)
    qed
    have upd': "media_ok (hm_update h (e\<lparr>mh_bytes_read := offset + n\<rparr>) ?t)"
      if "mh_bytes_read e = offset" "n \<le> mh_size e - offset" for n
      using upd that by simp
    show ?thesis
      using ok Some upd'
      by (simp add: media_read_chunk_def read_exact_range_def Let_def split: file_state.split)
  qed
qed

lemma media_close_ok: "media_ok t \<Longrightarrow> media_ok (snd (media_close h t))"
  using hm_count_remove_le [of _ h t] unfolding media_ok_def media_close_def
  by (auto simp: hm_remove_def intro: distinct_map_filter order_trans)

definition media_cursor :: "media_table \<Rightarrow> string \<Rightarrow> cursor option" where
  "media_cursor t h =
     map_option (\<lambda>e. \<lparr>cu_account = mh_account e, cu_path = mh_path e, cu_size = mh_size e,
                      cu_pos = mh_bytes_read e, cu_expires = mh_expires e\<rparr>) (map_of t h)"

lemma media_sweep_live:
  assumes "media_ok t" "map_of t h = Some e" "now < mh_expires e"
  shows "map_of (media_sweep_expired now t) h = Some e"
  using assms by (simp add: media_sweep_expired_def map_of_hm_retain media_ok_def)

lemma media_cursor_read:
  assumes "media_ok t"
  shows "media_cursor (snd (media_read_chunk now fs j offset t)) h =
    (case media_cursor t h of
       None \<Rightarrow> None
     | Some cu \<Rightarrow>
         if cu_expires cu \<le> now then None
         else if j = h then
           (case fst (media_read_chunk now fs j offset t) of
              Inl _ \<Rightarrow> Some cu
            | Inr ch \<Rightarrow> Some (cu\<lparr>cu_pos := cu_pos cu + length (ck_data ch)\<rparr>))
         else Some cu)"
proof -
  let ?t = "media_sweep_expired now t"
  have sw: "map_of ?t k = (case map_of t k of None \<Rightarrow> None | Some e \<Rightarrow> if now < mh_expires e then Some e else None)" for k
    using assms by (simp add: media_sweep_expired_def media_ok_def map_of_hm_retain)
  have same: "map_of (snd (media_read_chunk now fs j offset t)) h = map_of ?t h"
    if "j \<noteq> h \<or> map_of ?t h = None \<or> isl (fst (media_read_chunk now fs j offset t))"
    using that by (auto simp: media_read_chunk_def Let_def map_of_hm_update split: option.split sum.split)
  have moved: "map_of (snd (media_read_chunk now fs h offset t)) h =
      map_option (\<lambda>e. e\<lparr>mh_bytes_read := mh_bytes_read e + length (ck_data ch)\<rparr>) (map_of ?t h)"
    if "fst (media_read_chunk now fs h offset t) = Inr ch" for ch
    using that by (auto simp: media_read_chunk_def Let_def map_of_hm_update split: option.splits sum.splits if_splits)
  show ?thesis
  proof (cases "j \<noteq> h \<or> map_of ?t h = None \<or> isl (fst (media_read_chunk now fs j offset t))")
    case True
    then show ?thesis
      using same sw [of h] by (cases "fst (media_read_chunk now fs j offset t)")
        (auto simp: media_cursor_def not_le split: option.splits if_splits)
  next
    case False
    then obtain ch where "j = h" "fst (media_read_chunk now fs h offset t) = Inr ch" "map_of ?t h \<noteq> None"
      by (cases "fst (media_read_chunk now fs j offset t)") auto
    then show ?thesis
      using moved sw [of h] by (auto simp: media_cursor_def not_le split: option.splits if_splits)
  qed
qed

text \<open>The operations of a session other than reading; \<open>media_mints\<close> names the handle an \<open>open\<close> draws.\<close>

datatype media_op =
    MediaOpen nat string media_open
  | MediaClose string
  | MediaClearAccount string
  | MediaCloseForMessage string string

fun media_other :: "media_op \<Rightarrow> media_table \<Rightarrow> media_table" where
  "media_other (MediaOpen now h q) t = snd (media_open_handle now h q t)"
| "media_other (MediaClose h) t = snd (media_close h t)"
| "media_other (MediaClearAccount acct) t = snd (media_clear_account acct t)"
| "media_other (MediaCloseForMessage acct mid) t = snd (media_close_for_message acct mid t)"

fun media_mints :: "media_op \<Rightarrow> string \<Rightarrow> bool" where
  "media_mints (MediaOpen now j q) h = (j = h)"
| "media_mints _ h = False"

lemma media_other_ok: "media_ok t \<Longrightarrow> media_ok (media_other op t)"
  by (cases op) (simp_all add: media_open_ok media_close_ok media_ok_retain media_clear_account_def
      media_close_for_message_def Let_def)

lemma media_other_cursor:
  assumes "media_ok t" "\<not> media_mints op h"
  shows "media_cursor (media_other op t) h = None \<or> media_cursor (media_other op t) h = media_cursor t h"
proof -
  have keys: "distinct (map fst t)" using assms by (simp add: media_ok_def)
  show ?thesis
    using assms(2)
    by (cases op) (auto simp: media_open_handle_def media_close_def media_clear_account_def
        media_close_for_message_def media_cursor_def media_sweep_expired_def Let_def
        map_of_hm_retain [OF keys] map_of_hm_remove split: option.splits)
qed

interpretation mstream: handle_table MEDIA_CHUNK_BYTES media_read_chunk media_cursor media_ok media_other media_mints
proof unfold_locales
  show "0 < MEDIA_CHUNK_BYTES" by (simp add: MEDIA_CHUNK_BYTES_def)
next
  fix s now fs h offset
  show "media_ok s \<Longrightarrow> media_ok (snd (media_read_chunk now fs h offset s))" by (rule media_read_ok)
next
  fix s h cu now fs and c :: string
  assume a: "media_ok s" "media_cursor s h = Some cu" "now < cu_expires cu" "cu_pos cu \<le> cu_size cu"
    "fs (cu_path cu) = Content c" "length c = cu_size cu"
  obtain e where e: "map_of s h = Some e" and cu: "cu = \<lparr>cu_account = mh_account e, cu_path = mh_path e,
      cu_size = mh_size e, cu_pos = mh_bytes_read e, cu_expires = mh_expires e\<rparr>"
    using a(2) by (auto simp: media_cursor_def)
  have live: "map_of (media_sweep_expired now s) h = Some e" using media_sweep_live [OF a(1) e] a(3) cu by simp
  let ?n = "min MEDIA_CHUNK_BYTES (mh_size e - mh_bytes_read e)"
  have len: "length (take ?n (drop (mh_bytes_read e) c)) = ?n" using a(6) cu by simp
  show "let n = min MEDIA_CHUNK_BYTES (cu_size cu - cu_pos cu)
      in fst (media_read_chunk now fs h (cu_pos cu) s) =
           Inr \<lparr>ck_data = take n (drop (cu_pos cu) c), ck_eof = cu_size cu \<le> cu_pos cu + n\<rparr> \<and>
         media_cursor (snd (media_read_chunk now fs h (cu_pos cu) s)) h = Some (cu\<lparr>cu_pos := cu_pos cu + n\<rparr>)"
    using a(5) cu live len
    by (simp add: media_read_chunk_def read_exact_range_def media_cursor_def map_of_hm_update Let_def)
next
  fix s h cu now fs and offset :: nat
  assume a: "media_ok s" "media_cursor s h = Some cu" "now < cu_expires cu" "offset \<noteq> cu_pos cu"
  obtain e where e: "map_of s h = Some e" and cu: "cu = \<lparr>cu_account = mh_account e, cu_path = mh_path e,
      cu_size = mh_size e, cu_pos = mh_bytes_read e, cu_expires = mh_expires e\<rparr>"
    using a(2) by (auto simp: media_cursor_def)
  have live: "map_of (media_sweep_expired now s) h = Some e" using media_sweep_live [OF a(1) e] a(3) cu by simp
  show "(\<exists>er. fst (media_read_chunk now fs h offset s) = Inl er) \<and>
      media_cursor (snd (media_read_chunk now fs h offset s)) h = Some cu"
    using a(4) cu live by (simp add: media_read_chunk_def media_cursor_def Let_def)
next
  fix s op
  show "media_ok s \<Longrightarrow> media_ok (media_other op s)" by (rule media_other_ok)
next
  fix s op h
  show "media_ok s \<Longrightarrow> \<not> media_mints op h \<Longrightarrow> media_cursor s h = None \<Longrightarrow> media_cursor (media_other op s) h = None"
    using media_other_cursor [of s op h] by auto
next
  fix s op h cu
  show "media_ok s \<Longrightarrow> \<not> media_mints op h \<Longrightarrow> media_cursor s h = Some cu \<Longrightarrow>
      media_cursor (media_other op s) h = None \<or> media_cursor (media_other op s) h = Some cu"
    using media_other_cursor [of s op h] by auto
next
  fix s h now fs offset j
  assume a: "media_ok s" "media_cursor s h = None"
  then have "map_of (media_sweep_expired now s) h = None"
    by (auto simp: media_cursor_def media_sweep_expired_def media_ok_def map_of_hm_retain)
  then show "(\<exists>e. fst (media_read_chunk now fs h offset s) = Inl e) \<and>
      media_cursor (snd (media_read_chunk now fs j offset s)) h = None"
    using a by (simp add: media_cursor_read) (simp add: media_read_chunk_def Let_def)
next
  fix s h cu j now fs offset
  show "media_ok s \<Longrightarrow> media_cursor s h = Some cu \<Longrightarrow> j \<noteq> h \<Longrightarrow>
      media_cursor (snd (media_read_chunk now fs j offset s)) h = None \<or>
      media_cursor (snd (media_read_chunk now fs j offset s)) h = Some cu"
    by (simp add: media_cursor_read)
next
  fix s h cu fs and c :: string and now offset
  assume a: "media_ok s" "media_cursor s h = Some cu" "fs (cu_path cu) = Content c"
  have "\<exists>n. n \<le> cu_size cu - cu_pos cu \<and> ck_data ch = take n (drop (cu_pos cu) c)"
    if "fst (media_read_chunk now fs h offset s) = Inr ch" for ch
    using that a by (intro exI [of _ "min MEDIA_CHUNK_BYTES (cu_size cu - cu_pos cu)"])
      (auto simp: media_read_chunk_def media_cursor_def media_sweep_expired_def Let_def media_ok_def
        map_of_hm_retain read_exact_range_def split: option.splits if_splits)
  moreover have "\<not> cu_expires cu \<le> now" if "fst (media_read_chunk now fs h offset s) = Inr ch" for ch
    using that a by (auto simp: media_read_chunk_def media_cursor_def media_sweep_expired_def Let_def media_ok_def
        map_of_hm_retain split: option.splits if_splits)
  ultimately show "case fst (media_read_chunk now fs h offset s) of
       Inl _ \<Rightarrow> media_cursor (snd (media_read_chunk now fs h offset s)) h = None \<or>
                media_cursor (snd (media_read_chunk now fs h offset s)) h = Some cu
     | Inr ch \<Rightarrow> (\<exists>n. n \<le> cu_size cu - cu_pos cu \<and> ck_data ch = take n (drop (cu_pos cu) c)) \<and>
         media_cursor (snd (media_read_chunk now fs h offset s)) h =
           Some (cu\<lparr>cu_pos := cu_pos cu + length (ck_data ch)\<rparr>)"
    using a by (auto simp: media_cursor_read split: sum.split)
qed

section \<open>What a stream delivers\<close>

text \<open>
  C23. A downloaded attachment streams back whole. Opening a handle under the account's ceiling and
  reading from offset 0 onwards, at any instants before the handle's lifetime is over, ends with an
  \<open>eof\<close> chunk after at most \<open>size / MEDIA_CHUNK_BYTES + 1\<close> reads, and the chunks concatenate to exactly
  the file's bytes.
\<close>
theorem media_stream_whole_file:
  assumes "media_ok t" "media_open_handle now h q t = (Inr h', t')"
    and "fs (mo_path q) = Content c" "length c = mo_size q"
    and "\<And>p. clock p < now + MEDIA_HANDLE_TTL_MS"
  shows "stream_all (\<lambda>p. media_read_chunk (clock p) fs h' p) (mo_size q div MEDIA_CHUNK_BYTES + 1) 0 t' = Some c"
proof -
  let ?cu = "\<lparr>cu_account = mo_account q, cu_path = mo_path q, cu_size = mo_size q, cu_pos = 0,
      cu_expires = now + MEDIA_HANDLE_TTL_MS\<rparr>"
  have h: "h' = h" and cu: "media_cursor t' h = Some ?cu"
    using assms(2) by (auto simp: media_open_handle_def media_cursor_def Let_def split: if_splits)
  have ok: "media_ok t'" using media_open_ok [OF assms(1), of now h q] assms(2) by simp
  have "mo_size q < (mo_size q div MEDIA_CHUNK_BYTES + 1) * MEDIA_CHUNK_BYTES"
    using mstream.chunk_pos by (metis Suc_eq_plus1 dividend_less_div_times mult.commute mult_Suc_right add.commute mult_Suc)
  then have "stream_all (\<lambda>p. media_read_chunk (clock p) fs h p) (mo_size q div MEDIA_CHUNK_BYTES + 1) (cu_pos ?cu) t' =
      Some (drop (cu_pos ?cu) c)"
    by (intro mstream.stream_from [OF ok cu]) (use assms in auto)
  then show ?thesis using h by simp
qed

definition photo_open :: media_open where
  "photo_open = \<lparr>mo_account = ''a'', mo_conversation = ''c'', mo_message = ''m'', mo_attachment = ''x'',
     mo_path = ''p'', mo_size = 3\<rparr>"

theorem media_stream_whole_file_witness:
  "stream_all (\<lambda>p. media_read_chunk (min p 20 + 10) (\<lambda>_. Content ''png'') ''h'' p)
     (mo_size photo_open div MEDIA_CHUNK_BYTES + 1) 0
     (snd (media_open_handle 5 ''h'' photo_open [])) = Some ''png''"
  by (rule media_stream_whole_file [of "[]" 5 "''h''" photo_open "''h''" _ _ _ "\<lambda>p. min p 20 + 10"])
    (auto simp: media_ok_def media_open_handle_def media_sweep_expired_def hm_retain_def hm_count_def
      photo_open_def MEDIA_HANDLE_TTL_MS_def MAX_MEDIA_HANDLES_PER_ACCOUNT_def Let_def)

text \<open>
  C22. A handle is no seek oracle and leaks nothing past its file. In any session, with reads at any
  offsets on any handles interleaved with opens, closes and releases, the bytes one open handle delivers
  are a contiguous run of its own file from its current position, within the size captured at open; and
  the table stays within the per-account ceiling throughout.
\<close>
theorem media_session_delivers_prefix:
  assumes "media_ok t" "map_of t h = Some e" "fs (mh_path e) = Content c"
    and "\<forall>op. OtherOp op \<in> set es \<longrightarrow> \<not> media_mints op h"
  shows "(\<exists>n \<le> mh_size e - mh_bytes_read e.
      delivered media_read_chunk media_other fs h es t = take n (drop (mh_bytes_read e) c)) \<and>
    hm_count (\<lambda>e. mh_account e = acct) (run_events media_read_chunk media_other fs es t)
      \<le> MAX_MEDIA_HANDLES_PER_ACCOUNT"
proof (rule conjI)
  let ?cu = "\<lparr>cu_account = mh_account e, cu_path = mh_path e, cu_size = mh_size e,
      cu_pos = mh_bytes_read e, cu_expires = mh_expires e\<rparr>"
  have "media_cursor t h = Some ?cu" using assms(2) by (simp add: media_cursor_def)
  from mstream.delivered_prefix [where fs = fs, OF assms(1) this _ assms(4)] assms(3)
  show "\<exists>n \<le> mh_size e - mh_bytes_read e.
      delivered media_read_chunk media_other fs h es t = take n (drop (mh_bytes_read e) c)" by simp
  show "hm_count (\<lambda>e. mh_account e = acct) (run_events media_read_chunk media_other fs es t)
      \<le> MAX_MEDIA_HANDLES_PER_ACCOUNT"
    using mstream.run_inv [OF assms(1), of fs es] by (simp add: media_ok_def)
qed

theorem media_session_delivers_prefix_witness:
  "(\<exists>n \<le> 3. delivered media_read_chunk media_other (\<lambda>_. Content ''png'') ''h''
      [ReadAt 9 ''h'' 1, ReadAt 9 ''h'' 0, OtherOp (MediaOpen 9 ''k'' photo_open), ReadAt 9 ''h'' 0]
      (snd (media_open_handle 5 ''h'' photo_open [])) = take n ''png'') \<and>
   hm_count (\<lambda>e. mh_account e = ''a'') (run_events media_read_chunk media_other (\<lambda>_. Content ''png'')
      [ReadAt 9 ''h'' 1, ReadAt 9 ''h'' 0, OtherOp (MediaOpen 9 ''k'' photo_open), ReadAt 9 ''h'' 0]
      (snd (media_open_handle 5 ''h'' photo_open []))) \<le> MAX_MEDIA_HANDLES_PER_ACCOUNT"
proof -
  let ?t = "snd (media_open_handle 5 ''h'' photo_open [])"
  obtain e where e: "map_of ?t ''h'' = Some e" "mh_size e = 3" "mh_bytes_read e = 0"
    by (simp add: media_open_handle_def media_sweep_expired_def hm_retain_def hm_count_def photo_open_def
        MAX_MEDIA_HANDLES_PER_ACCOUNT_def Let_def)
  have "media_ok ?t" by (rule media_open_ok) (simp add: media_ok_def hm_count_def)
  from media_session_delivers_prefix [OF this e(1), of "\<lambda>_. Content ''png''" "''png''"
      "[ReadAt 9 ''h'' 1, ReadAt 9 ''h'' 0, OtherOp (MediaOpen 9 ''k'' photo_open), ReadAt 9 ''h'' 0]" "''a''"] e
  show ?thesis by simp
qed

end
