(* ===== verification/Backup_Handles.thy ===== *)
theory Backup_Handles
  imports Media_Handles
begin

text \<open>
  The snapshot-file streams of \<open>src/backup_export.rs\<close> (\<open>BackupFileHandleTable\<close>). The table repeats the
  media table's shape with one difference: a file removed under the stream ends it with an empty last
  chunk instead of an error. The functional refinement \<open>backup_refines_media\<close> makes that precise, and the
  stream laws are inherited through it.
\<close>

section \<open>The snapshot handle table\<close>

definition CHUNK_BYTES :: nat where "CHUNK_BYTES = 262144"
definition HANDLE_TTL_MS :: nat where "HANDLE_TTL_MS = 300000"
definition MAX_HANDLES_PER_ACCOUNT :: nat where "MAX_HANDLES_PER_ACCOUNT = 8"

datatype backup_handle_error = BNotFound | BNotSequential nat | BExhausted | BIo

record backup_handle_entry =
  bh_account :: string
  bh_path :: string
  bh_size :: nat
  bh_bytes_read :: nat
  bh_expires :: nat

type_synonym backup_table = "(string \<times> backup_handle_entry) list"

definition backup_sweep_expired :: "nat \<Rightarrow> backup_table \<Rightarrow> backup_table" where
  "backup_sweep_expired now t = hm_retain (\<lambda>e. bh_expires e > now) t"

definition backup_open ::
    "nat \<Rightarrow> string \<Rightarrow> string \<Rightarrow> string \<Rightarrow> nat \<Rightarrow> backup_table \<Rightarrow> (backup_handle_error + string) \<times> backup_table" where
  "backup_open now handle acct path sz t =
     (let t = backup_sweep_expired now t
      in if hm_count (\<lambda>e. bh_account e = acct) t \<ge> MAX_HANDLES_PER_ACCOUNT then (Inl BExhausted, t)
         else (Inr handle,
               hm_insert handle
                 \<lparr>bh_account = acct, bh_path = path, bh_size = sz, bh_bytes_read = 0,
                  bh_expires = now + HANDLE_TTL_MS\<rparr> t))"

definition backup_read_chunk ::
    "nat \<Rightarrow> (string \<Rightarrow> file_state) \<Rightarrow> string \<Rightarrow> nat \<Rightarrow> backup_table \<Rightarrow>
     (backup_handle_error + chunk) \<times> backup_table" where
  "backup_read_chunk now fs handle offset t =
     (let t = backup_sweep_expired now t
      in case map_of t handle of
           None \<Rightarrow> (Inl BNotFound, t)
         | Some e \<Rightarrow>
             if bh_bytes_read e \<noteq> offset then (Inl (BNotSequential (bh_bytes_read e)), t)
             else
               let want = min CHUNK_BYTES (bh_size e - bh_bytes_read e);
                   data = (case read_exact_range fs (bh_path e) offset want of
                             Inr data \<Rightarrow> Inr data
                           | Inl IoNotFound \<Rightarrow> Inr []
                           | Inl _ \<Rightarrow> Inl BIo)
               in case data of
                    Inl er \<Rightarrow> (Inl er, t)
                  | Inr data \<Rightarrow>
                      let short = length data < want;
                          e' = e\<lparr>bh_bytes_read := bh_bytes_read e + length data\<rparr>;
                          eof = (short \<or> bh_bytes_read e' \<ge> bh_size e')
                      in (Inr \<lparr>ck_data = data, ck_eof = eof\<rparr>, hm_update handle e' t))"

definition backup_close :: "string \<Rightarrow> backup_table \<Rightarrow> bool \<times> backup_table" where
  "backup_close handle t = (map_of t handle \<noteq> None, hm_remove handle t)"

definition backup_clear_account :: "string \<Rightarrow> backup_table \<Rightarrow> nat \<times> backup_table" where
  "backup_clear_account acct t =
     (let t' = hm_retain (\<lambda>e. bh_account e \<noteq> acct) t in (length t - length t', t'))"

section \<open>The snapshot table as a media table\<close>

definition as_media :: "backup_handle_entry \<Rightarrow> media_handle_entry" where
  "as_media e = \<lparr>mh_account = bh_account e, mh_conversation = [], mh_message = [], mh_attachment = [],
     mh_path = bh_path e, mh_size = bh_size e, mh_bytes_read = bh_bytes_read e, mh_expires = bh_expires e\<rparr>"

definition media_view :: "backup_table \<Rightarrow> media_table" where
  "media_view t = map (\<lambda>e. (fst e, as_media (snd e))) t"

fun media_error :: "backup_handle_error \<Rightarrow> media_handle_error" where
  "media_error BNotFound = HandleNotFound"
| "media_error (BNotSequential n) = NotSequential n"
| "media_error BExhausted = Exhausted"
| "media_error BIo = HandleIo"

text \<open>A file system in which a removed file reads as an empty one.\<close>

definition gone_is_empty :: "(string \<Rightarrow> file_state) \<Rightarrow> string \<Rightarrow> file_state" where
  "gone_is_empty fs path = (case fs path of Absent \<Rightarrow> Content [] | st \<Rightarrow> st)"

lemma as_media_sel [simp]:
  "mh_account (as_media e) = bh_account e" "mh_path (as_media e) = bh_path e"
  "mh_size (as_media e) = bh_size e" "mh_bytes_read (as_media e) = bh_bytes_read e"
  "mh_expires (as_media e) = bh_expires e"
  "(as_media e)\<lparr>mh_bytes_read := n\<rparr> = as_media (e\<lparr>bh_bytes_read := n\<rparr>)"
  by (simp_all add: as_media_def)

lemma media_view_ops [simp]:
  "map_of (media_view t) h = map_option as_media (map_of t h)"
  "map fst (media_view t) = map fst t"
  "hm_insert h (as_media e) (media_view t) = media_view (hm_insert h e t)"
  "hm_update h (as_media e) (media_view t) = media_view (hm_update h e t)"
  "hm_remove h (media_view t) = media_view (hm_remove h t)"
  "length (media_view t) = length t"
  by (auto simp: media_view_def hm_insert_def hm_update_def hm_remove_def filter_map o_def map_of_map
      intro!: map_cong filter_cong) (induction t; auto)

lemma media_view_retain: "hm_retain p (media_view t) = media_view (hm_retain (p \<circ> as_media) t)"
  by (simp add: media_view_def hm_retain_def filter_map o_def)

lemma media_view_count: "hm_count p (media_view t) = hm_count (p \<circ> as_media) t"
  by (simp add: media_view_def hm_count_def filter_map o_def)

lemma media_view_sweep [simp]:
  "media_sweep_expired now (media_view t) = media_view (backup_sweep_expired now t)"
  by (simp add: media_sweep_expired_def backup_sweep_expired_def media_view_retain o_def)

lemma backup_read_media:
  "media_read_chunk now (gone_is_empty fs) h offset (media_view t) =
     map_prod (map_sum media_error id) media_view (backup_read_chunk now fs h offset t)"
  by (auto simp: media_read_chunk_def backup_read_chunk_def read_exact_range_def gone_is_empty_def Let_def
      MEDIA_CHUNK_BYTES_def CHUNK_BYTES_def split: option.split file_state.split)

lemma backup_open_media:
  "media_open_handle now h \<lparr>mo_account = acct, mo_conversation = [], mo_message = [], mo_attachment = [],
      mo_path = path, mo_size = sz\<rparr> (media_view t) =
     map_prod (map_sum media_error id) media_view (backup_open now h acct path sz t)"
proof -
  have e: "\<lparr>mh_account = acct, mh_conversation = [], mh_message = [], mh_attachment = [], mh_path = path,
      mh_size = sz, mh_bytes_read = 0, mh_expires = now + MEDIA_HANDLE_TTL_MS\<rparr> =
    as_media \<lparr>bh_account = acct, bh_path = path, bh_size = sz, bh_bytes_read = 0, bh_expires = now + HANDLE_TTL_MS\<rparr>"
    by (simp add: as_media_def MEDIA_HANDLE_TTL_MS_def HANDLE_TTL_MS_def)
  show ?thesis
    by (simp add: media_open_handle_def backup_open_def e Let_def media_view_count o_def
        MAX_MEDIA_HANDLES_PER_ACCOUNT_def MAX_HANDLES_PER_ACCOUNT_def)
qed

lemma backup_close_media: "media_close h (media_view t) = map_prod id media_view (backup_close h t)"
  by (simp add: media_close_def backup_close_def)

lemma backup_clear_media: "media_clear_account acct (media_view t) = map_prod id media_view (backup_clear_account acct t)"
  by (simp add: media_clear_account_def backup_clear_account_def Let_def media_view_retain o_def)

text \<open>
  C24. The snapshot streams refine the media streams: through \<open>media_view\<close>, every operation of the
  snapshot table answers and updates exactly as the media table does over the file system in which a
  removed file reads as an empty one. So a snapshot deleted under a reader ends its loop instead of
  failing it, and nothing else differs.
\<close>
theorem backup_refines_media:
  "media_open_handle now h \<lparr>mo_account = acct, mo_conversation = [], mo_message = [], mo_attachment = [],
      mo_path = path, mo_size = sz\<rparr> (media_view t) =
     map_prod (map_sum media_error id) media_view (backup_open now h acct path sz t) \<and>
   media_read_chunk now (gone_is_empty fs) h offset (media_view t) =
     map_prod (map_sum media_error id) media_view (backup_read_chunk now fs h offset t) \<and>
   media_close h (media_view t) = map_prod id media_view (backup_close h t) \<and>
   media_clear_account acct (media_view t) = map_prod id media_view (backup_clear_account acct t)"
  by (intro conjI backup_open_media backup_read_media backup_close_media backup_clear_media)

section \<open>The stream laws\<close>

definition backup_ok :: "backup_table \<Rightarrow> bool" where
  "backup_ok t \<longleftrightarrow> media_ok (media_view t)"

definition backup_cursor :: "backup_table \<Rightarrow> string \<Rightarrow> cursor option" where
  "backup_cursor t h = media_cursor (media_view t) h"

lemma backup_read_fst:
  "fst (media_read_chunk now (gone_is_empty fs) h offset (media_view t)) =
     map_sum media_error id (fst (backup_read_chunk now fs h offset t))"
  "media_view (snd (backup_read_chunk now fs h offset t)) =
     snd (media_read_chunk now (gone_is_empty fs) h offset (media_view t))"
  by (simp_all add: backup_read_media)

lemma map_sum_Inr_iff [simp]: "map_sum f id r = Inr x \<longleftrightarrow> r = Inr x" "(\<exists>e. map_sum f id r = Inl e) \<longleftrightarrow> (\<exists>e. r = Inl e)"
  by (cases r; auto)+

lemma gone_is_empty_content: "fs path = Content c \<Longrightarrow> gone_is_empty fs path = Content c"
  by (simp add: gone_is_empty_def)

interpretation bstream: chunk_table CHUNK_BYTES backup_read_chunk backup_cursor backup_ok
proof unfold_locales
  show "0 < CHUNK_BYTES" by (simp add: CHUNK_BYTES_def)
next
  fix s now fs h offset
  show "backup_ok s \<Longrightarrow> backup_ok (snd (backup_read_chunk now fs h offset s))"
    by (simp add: backup_ok_def backup_read_fst(2) media_read_ok)
next
  fix s h cu now fs and c :: string
  assume "backup_ok s" "backup_cursor s h = Some cu" "now < cu_expires cu" "cu_pos cu \<le> cu_size cu"
    "fs (cu_path cu) = Content c" "length c = cu_size cu"
  then show "let n = min CHUNK_BYTES (cu_size cu - cu_pos cu)
      in fst (backup_read_chunk now fs h (cu_pos cu) s) =
           Inr \<lparr>ck_data = take n (drop (cu_pos cu) c), ck_eof = cu_size cu \<le> cu_pos cu + n\<rparr> \<and>
         backup_cursor (snd (backup_read_chunk now fs h (cu_pos cu) s)) h = Some (cu\<lparr>cu_pos := cu_pos cu + n\<rparr>)"
    using mstream.read_next [of "media_view s" h cu now "gone_is_empty fs" c]
    by (simp add: backup_ok_def backup_cursor_def gone_is_empty_content backup_read_fst Let_def
        MEDIA_CHUNK_BYTES_def CHUNK_BYTES_def)
next
  fix s h cu now fs and offset :: nat
  assume "backup_ok s" "backup_cursor s h = Some cu" "now < cu_expires cu" "offset \<noteq> cu_pos cu"
  then show "(\<exists>e. fst (backup_read_chunk now fs h offset s) = Inl e) \<and>
      backup_cursor (snd (backup_read_chunk now fs h offset s)) h = Some cu"
    using mstream.read_other [of "media_view s" h cu now offset "gone_is_empty fs"]
    by (simp add: backup_ok_def backup_cursor_def backup_read_fst)
qed


definition snapshot_entry :: backup_handle_entry where
  "snapshot_entry = \<lparr>bh_account = ''a'', bh_path = ''p'', bh_size = 3, bh_bytes_read = 0, bh_expires = 100\<rparr>"


end
