(* ===== verification/Proxy_Groups.thy ===== *)
theory Proxy_Groups
  imports Conn_Prelude
begin

text \<open>
  The launcher's proxy groups: \<open>SocksProxy::parse\<close> of \<open>src/engine.rs\<close>, the launch plan of
  \<open>src/groups.rs\<close>, and the occupancy locks of \<open>src/datalock.rs\<close> (the unix variant). An error text is the
  value it interpolates, under a constructor per message. The lock table maps a lock file to the open
  handle that holds it; creating directories and writing the pid note are not part of it.
\<close>

section \<open>Proxy endpoints\<close>

record socks_proxy =
  sp_host :: string
  sp_port :: nat

datatype socks_error = NotHostPort | BadHost | BadPort

definition socks_parse :: "string \<Rightarrow> socks_error + socks_proxy" where
  "socks_parse v =
     (case split_once CHR '':'' v of
        None \<Rightarrow> Inl NotHostPort
      | Some (host, port) \<Rightarrow>
          if host = [] \<or> 253 < length host \<or>
             list_ex (\<lambda>c. char_is_whitespace c \<or> c = '':'') (utf8_chars host)
          then Inl BadHost
          else
            (case parse_unsigned 65535 port of
               None \<Rightarrow> Inl BadPort
             | Some p \<Rightarrow> if p = 0 then Inl BadPort else Inr \<lparr>sp_host = host, sp_port = p\<rparr>))"

section \<open>The launch plan\<close>

definition DEFAULT_PROXY_GROUP_ID :: string where "DEFAULT_PROXY_GROUP_ID = ''default''"
definition MAX_PROXY_GROUPS :: nat where "MAX_PROXY_GROUPS = 8"

record plan_entry =
  pe_id :: string
  pe_proxy :: "socks_proxy option"
  pe_data_dir :: string

datatype plan_error =
    NotIdEquals string
  | InvalidId string
  | InvalidProxy string
  | DefaultReserved
  | DefinedTwice string
  | TooManyGroups nat

definition id_char :: "char \<Rightarrow> bool" where
  "id_char b \<longleftrightarrow> is_ascii_lowercase b \<or> is_ascii_digit b"

definition is_valid_group_id :: "string \<Rightarrow> bool" where
  "is_valid_group_id s =
     (if s = [] \<or> 32 < length s then False
      else if \<not> id_char (s ! 0) \<or> \<not> id_char (s ! (length s - 1)) then False
      else length s < 2 \<or> list_all (\<lambda>b. id_char b \<or> b = CHR ''-'') (take (length s - 2) (drop 1 s)))"

definition parse_group_spec :: "string \<Rightarrow> plan_error + (string \<times> socks_proxy)" where
  "parse_group_spec s =
     (case split_once CHR ''='' s of
        None \<Rightarrow> Inl (NotIdEquals s)
      | Some (i, proxy_value) \<Rightarrow>
          if \<not> is_valid_group_id i then Inl (InvalidId i)
          else
            (case socks_parse proxy_value of
               Inl _ \<Rightarrow> Inl (InvalidProxy i)
             | Inr proxy \<Rightarrow> Inr (i, proxy)))"

text \<open>\<open>Path::join\<close> on unix.\<close>

definition path_join :: "string \<Rightarrow> string \<Rightarrow> string" where
  "path_join p c =
     (if starts_with ''/'' c then c
      else if p = [] \<or> ends_with ''/'' p then p @ c
      else p @ ''/'' @ c)"

fun plan_extra :: "string list \<Rightarrow> string list \<Rightarrow> plan_error + (string \<times> socks_proxy) list" where
  "plan_extra [] seen = Inr []"
| "plan_extra (s # specs) seen =
     result_bind (parse_group_spec s) (\<lambda>(i, proxy).
       if i = DEFAULT_PROXY_GROUP_ID then Inl DefaultReserved
       else if i \<in> set seen then Inl (DefinedTwice i)
       else result_bind (plan_extra specs (i # seen)) (\<lambda>rest. Inr ((i, proxy) # rest)))"

definition group_specs :: "string list \<Rightarrow> string option \<Rightarrow> string list" where
  "group_specs cli_specs env_spec =
     cli_specs @
     (case env_spec of
        None \<Rightarrow> []
      | Some env \<Rightarrow> filter (\<lambda>part. part \<noteq> []) (map str_trim (split_on CHR '','' env)))"

definition extra_entry :: "string \<Rightarrow> string \<times> socks_proxy \<Rightarrow> plan_entry" where
  "extra_entry dir = (\<lambda>(i, proxy).
     \<lparr>pe_id = i, pe_proxy = Some proxy, pe_data_dir = path_join (path_join dir ''proxy-groups'') i\<rparr>)"

definition build_group_plan ::
    "string list \<Rightarrow> string option \<Rightarrow> socks_proxy option \<Rightarrow> string \<Rightarrow> plan_error + plan_entry list" where
  "build_group_plan cli_specs env_spec legacy_proxy dir =
     result_bind (plan_extra (group_specs cli_specs env_spec) []) (\<lambda>extra.
       if MAX_PROXY_GROUPS < length extra + 1 then Inl (TooManyGroups (length extra + 1))
       else Inr (\<lparr>pe_id = DEFAULT_PROXY_GROUP_ID, pe_proxy = legacy_proxy, pe_data_dir = dir\<rparr>
                 # map (extra_entry dir) extra))"

section \<open>Group identifiers\<close>

lemma group_id_shape:
  "is_valid_group_id s \<longleftrightarrow>
     (\<exists>a. s = [a] \<and> id_char a) \<or>
     (\<exists>a inner b. s = a # inner @ [b] \<and> id_char a \<and> id_char b \<and> length inner \<le> 30 \<and>
        list_all (\<lambda>c. id_char c \<or> c = CHR ''-'') inner)"
proof (cases s)
  case (Cons a t)
  show ?thesis
  proof (cases t rule: rev_cases)
    case Nil
    with Cons show ?thesis by (auto simp: is_valid_group_id_def)
  next
    case (snoc inner b)
    then have "take (length s - 2) (drop 1 s) = inner" "s ! (length s - 1) = b" "s ! 0 = a"
      using Cons by (simp_all add: nth_append)
    then show ?thesis using Cons snoc by (auto simp: is_valid_group_id_def)
  qed
qed (simp add: is_valid_group_id_def)

lemma id_char_plain: "id_char c \<or> c = CHR ''-'' \<Longrightarrow> c \<noteq> CHR ''/'' \<and> c \<noteq> CHR ''.'' \<and> c \<noteq> CHR ''=''"
  by (auto simp: id_char_def is_ascii_lowercase_def is_ascii_digit_def byte_def)

lemma valid_id_chars:
  assumes "is_valid_group_id s" "c \<in> set s"
  shows "id_char c \<or> c = CHR ''-''"
  using assms unfolding group_id_shape by (auto simp: list_all_iff)

lemma valid_id_path:
  assumes "is_valid_group_id s"
  shows "\<not> starts_with ''/'' s"
  using assms unfolding group_id_shape starts_with_def
  using id_char_plain [of "CHR ''/''"] by auto

text \<open>
  \<open>is_valid_group_id\<close> is its documented grammar: one lowercase alphanumeric, or a lowercase
  alphanumeric, at most thirty alphanumerics or hyphens, and a lowercase alphanumeric.
\<close>
lemma group_id_grammar:
  "is_valid_group_id s \<longleftrightarrow>
     (\<exists>a. s = [a] \<and> id_char a) \<or>
     (\<exists>a inner b. s = a # inner @ [b] \<and> id_char a \<and> id_char b \<and> length inner \<le> 30 \<and>
        list_all (\<lambda>c. id_char c \<or> c = CHR ''-'') inner)"
  by (rule group_id_shape)

section \<open>The plan\<close>

lemma parse_group_spec_ok_iff:
  "parse_group_spec s = Inr (i, proxy) \<longleftrightarrow>
     (\<exists>v. split_once CHR ''='' s = Some (i, v) \<and> is_valid_group_id i \<and> socks_parse v = Inr proxy)"
  by (auto simp: parse_group_spec_def split: option.splits sum.splits)

lemma plan_extra_ok_iff:
  "plan_extra specs seen = Inr extra \<longleftrightarrow>
     list_all2 (\<lambda>s e. parse_group_spec s = Inr e) specs extra \<and>
     (\<forall>e \<in> set extra. fst e \<noteq> DEFAULT_PROXY_GROUP_ID \<and> fst e \<notin> set seen) \<and> distinct (map fst extra)"
proof (induction specs seen arbitrary: extra rule: plan_extra.induct)
  case (2 s specs seen)
  show ?case
  proof (cases "parse_group_spec s")
    case (Inl e)
    then show ?thesis by (auto simp: list_all2_Cons1)
  next
    case (Inr p)
    obtain i proxy where p: "p = (i, proxy)" by (cases p)
    show ?thesis
      using 2 Inr p by (auto simp: list_all2_Cons1 result_bind_eq_Inr_iff)
  qed
qed auto

lemma plan_extra_valid:
  assumes "plan_extra specs seen = Inr extra" "e \<in> set extra"
  shows "is_valid_group_id (fst e)"
proof -
  have "list_all2 (\<lambda>s e. parse_group_spec s = Inr e) specs extra" using assms by (simp add: plan_extra_ok_iff)
  with assms(2) obtain s where "parse_group_spec s = Inr (fst e, snd e)"
    by (auto simp: list_all2_conv_all_nth in_set_conv_nth)
  then show ?thesis by (auto simp only: parse_group_spec_ok_iff)
qed

lemma path_join_inj: "\<not> starts_with ''/'' a \<Longrightarrow> \<not> starts_with ''/'' b \<Longrightarrow> path_join p a = path_join p b \<Longrightarrow> a = b"
  by (auto simp: path_join_def split: if_splits)

lemma path_join_longer: "\<not> starts_with ''/'' c \<Longrightarrow> length p < length (path_join p c) \<or> c = []"
  by (auto simp: path_join_def)

lemma data_dirs_distinct:
  assumes ids: "distinct (map fst extra)" and valid: "\<forall>e \<in> set extra. is_valid_group_id (fst e)"
  shows "distinct (map pe_data_dir (\<lparr>pe_id = DEFAULT_PROXY_GROUP_ID, pe_proxy = lp, pe_data_dir = dir\<rparr>
      # map (extra_entry dir) extra))"
proof -
  let ?j = "\<lambda>i. path_join (path_join dir ''proxy-groups'') i"
  have m: "map pe_data_dir (map (extra_entry dir) extra) = map ?j (map fst extra)"
    by (induction extra) (auto simp: extra_entry_def)
  have "inj_on ?j (fst ` set extra)"
    by (rule inj_onI) (use valid valid_id_path path_join_inj in blast)
  then have "distinct (map ?j (map fst extra))" using ids by (simp add: distinct_map comp_inj_on del: map_map)
  moreover have "dir \<noteq> ?j i" if "is_valid_group_id i" for i
  proof -
    have "length dir < length (path_join dir ''proxy-groups'')"
      using path_join_longer [of "''proxy-groups''" dir] by (simp add: starts_with_def)
    moreover have "i \<noteq> []" using that by (auto simp: is_valid_group_id_def)
    ultimately have "length dir < length (?j i)"
      using path_join_longer [OF valid_id_path [OF that], of "path_join dir ''proxy-groups''"] by auto
    then show ?thesis by auto
  qed
  ultimately show ?thesis using m valid by (auto simp flip: map_map)
qed

lemma build_ok_iff:
  "build_group_plan cli env lp dir = Inr plan \<longleftrightarrow>
     (\<exists>extra. plan_extra (group_specs cli env) [] = Inr extra \<and> length extra < MAX_PROXY_GROUPS \<and>
        plan = \<lparr>pe_id = DEFAULT_PROXY_GROUP_ID, pe_proxy = lp, pe_data_dir = dir\<rparr> # map (extra_entry dir) extra)"
  by (cases "plan_extra (group_specs cli env) []") (auto simp: build_group_plan_def)

lemma plan_extra_fresh:
  "plan_extra specs [] = Inr extra \<longleftrightarrow>
     list_all2 (\<lambda>s e. parse_group_spec s = Inr e) specs extra \<and> distinct (DEFAULT_PROXY_GROUP_ID # map fst extra)"
  by (force simp: plan_extra_ok_iff)

text \<open>
  C33. The launch plan is built exactly when it may be: every spec of the flags and then of the
  environment parses, no id repeats or redefines \<open>default\<close>, and there are at most eight groups. Then
  \<open>default\<close> comes first on the launcher's own directory, the rest follow in order with their own proxy,
  and all data directories are different.
\<close>
theorem group_plan_exact:
  "(build_group_plan cli env lp dir = Inr plan \<longleftrightarrow>
     (\<exists>extra. list_all2 (\<lambda>s e. parse_group_spec s = Inr e) (group_specs cli env) extra \<and>
        distinct (DEFAULT_PROXY_GROUP_ID # map fst extra) \<and> length extra < MAX_PROXY_GROUPS \<and>
        plan = \<lparr>pe_id = DEFAULT_PROXY_GROUP_ID, pe_proxy = lp, pe_data_dir = dir\<rparr> # map (extra_entry dir) extra)) \<and>
   (case build_group_plan cli env lp dir of
      Inl _ \<Rightarrow> True
    | Inr plan \<Rightarrow> distinct (map pe_data_dir plan) \<and> length plan \<le> MAX_PROXY_GROUPS)"
proof (rule conjI)
  show "build_group_plan cli env lp dir = Inr plan \<longleftrightarrow>
     (\<exists>extra. list_all2 (\<lambda>s e. parse_group_spec s = Inr e) (group_specs cli env) extra \<and>
        distinct (DEFAULT_PROXY_GROUP_ID # map fst extra) \<and> length extra < MAX_PROXY_GROUPS \<and>
        plan = \<lparr>pe_id = DEFAULT_PROXY_GROUP_ID, pe_proxy = lp, pe_data_dir = dir\<rparr> # map (extra_entry dir) extra)"
    by (simp only: build_ok_iff plan_extra_fresh conj_assoc)
  show "case build_group_plan cli env lp dir of
      Inl _ \<Rightarrow> True
    | Inr plan \<Rightarrow> distinct (map pe_data_dir plan) \<and> length plan \<le> MAX_PROXY_GROUPS"
  proof (cases "build_group_plan cli env lp dir")
    case (Inr plan)
    then obtain extra where e: "plan_extra (group_specs cli env) [] = Inr extra"
      and n: "\<not> MAX_PROXY_GROUPS < length extra + 1"
      and plan: "plan = \<lparr>pe_id = DEFAULT_PROXY_GROUP_ID, pe_proxy = lp, pe_data_dir = dir\<rparr> # map (extra_entry dir) extra"
      unfolding build_ok_iff by auto
    have "distinct (map pe_data_dir plan)"
      unfolding plan by (rule data_dirs_distinct) (use e plan_extra_fresh plan_extra_valid [OF e] in auto)
    then show ?thesis using Inr plan n by simp
  qed simp
qed

section \<open>What an error text carries\<close>

text \<open>The part of the spec an error text interpolates.\<close>

fun error_echo :: "plan_error \<Rightarrow> string option" where
  "error_echo (NotIdEquals s) = Some s"
| "error_echo (InvalidId i) = Some i"
| "error_echo (InvalidProxy i) = Some i"
| "error_echo DefaultReserved = None"
| "error_echo (DefinedTwice i) = Some i"
| "error_echo (TooManyGroups n) = None"

text \<open>
  A refused spec of the form \<open>id=endpoint\<close> is reported by its id alone: the text before the first
  equals sign. A spec without an equals sign is echoed whole, so a bare endpoint (the id forgotten) does
  end up in the error text.
\<close>
lemma group_error_echo:
  "(case parse_group_spec (i @ CHR ''='' # endpoint) of
      Inl e \<Rightarrow> CHR ''='' \<in> set i \<or> error_echo e = Some i
    | Inr (j, _) \<Rightarrow> CHR ''='' \<in> set i \<or> j = i) \<and>
   parse_group_spec ''10.0.0.1:1080'' = Inl (NotIdEquals ''10.0.0.1:1080'')"
proof (rule conjI)
  show "case parse_group_spec (i @ CHR ''='' # endpoint) of
      Inl e \<Rightarrow> CHR ''='' \<in> set i \<or> error_echo e = Some i
    | Inr (j, _) \<Rightarrow> CHR ''='' \<in> set i \<or> j = i"
  proof (cases "CHR ''='' \<in> set i")
    case False
    then show ?thesis
      by (auto simp: parse_group_spec_def split_once_append split: sum.split)
  qed (auto split: sum.split prod.split)
  show "parse_group_spec ''10.0.0.1:1080'' = Inl (NotIdEquals ''10.0.0.1:1080'')"
    by (simp add: parse_group_spec_def split_once_def)
qed

section \<open>Occupancy locks\<close>

text \<open>
  \<open>lt\<close> says which handle holds the lock of a data directory's lock file; handles are numbered as they
  are opened. \<open>flock\<close> with \<open>LOCK_EX | LOCK_NB\<close> fails when any other handle holds it. \<open>prepared\<close> says
  whether creating the directory, its permissions and the lock file succeeds.
\<close>

datatype lock_error = AlreadyInUse string | LockIo

definition lock_acquire ::
    "(string \<Rightarrow> bool) \<Rightarrow> nat \<Rightarrow> string \<Rightarrow> string \<Rightarrow> (string \<rightharpoonup> nat) \<Rightarrow> lock_error + (string \<rightharpoonup> nat)" where
  "lock_acquire prepared h group_id dir lt =
     (if \<not> prepared dir then Inl LockIo
      else case lt dir of Some _ \<Rightarrow> Inl (AlreadyInUse group_id) | None \<Rightarrow> Inr (lt(dir \<mapsto> h)))"

definition lock_drop :: "string \<Rightarrow> (string \<rightharpoonup> nat) \<Rightarrow> (string \<rightharpoonup> nat)" where
  "lock_drop dir lt = lt(dir := None)"

text \<open>The loop over the plan; an early return drops the guards taken so far, in the vector's order.\<close>

fun lock_loop ::
    "(string \<Rightarrow> bool) \<Rightarrow> nat \<Rightarrow> plan_entry list \<Rightarrow> string list \<Rightarrow> (string \<rightharpoonup> nat) \<Rightarrow>
     (lock_error + string list) \<times> (string \<rightharpoonup> nat)" where
  "lock_loop prepared h [] locks lt = (Inr (rev locks), lt)"
| "lock_loop prepared h (e # es) locks lt =
     (case lock_acquire prepared h (pe_id e) (pe_data_dir e) lt of
        Inl er \<Rightarrow> (Inl er, fold lock_drop (rev locks) lt)
      | Inr lt' \<Rightarrow> lock_loop prepared (h + 1) es (pe_data_dir e # locks) lt')"

definition lock_plan_data_dirs ::
    "(string \<Rightarrow> bool) \<Rightarrow> nat \<Rightarrow> plan_entry list \<Rightarrow> (string \<rightharpoonup> nat) \<Rightarrow> (lock_error + string list) \<times> (string \<rightharpoonup> nat)" where
  "lock_plan_data_dirs prepared h plan lt = lock_loop prepared h plan [] lt"

lemma fold_lock_drop: "fold lock_drop ds lt = (\<lambda>d. if d \<in> set ds then None else lt d)"
  by (induction ds arbitrary: lt) (auto simp: lock_drop_def fun_eq_iff)

lemma lock_loop_spec:
  assumes "\<forall>d \<in> set locks. lt0 d = None" "\<forall>d. d \<notin> set locks \<longrightarrow> lt d = lt0 d" "\<forall>d \<in> set locks. lt d \<noteq> None"
  shows "case lock_loop prepared h es locks lt of
      (Inl er, lt') \<Rightarrow> lt' = lt0
    | (Inr ds, lt') \<Rightarrow> ds = rev locks @ map pe_data_dir es \<and> distinct (map pe_data_dir es) \<and>
        (\<forall>d \<in> set (map pe_data_dir es). lt0 d = None \<and> d \<notin> set locks) \<and>
        (\<forall>d. (lt' d \<noteq> None) = (lt0 d \<noteq> None \<or> d \<in> set ds)) \<and> (\<forall>d. d \<notin> set ds \<longrightarrow> lt' d = lt0 d)"
  using assms
proof (induction prepared h es locks lt rule: lock_loop.induct)
  case (1 prepared h locks lt)
  then show ?case by auto
next
  case (2 prepared h e es locks lt)
  show ?case
  proof (cases "lock_acquire prepared h (pe_id e) (pe_data_dir e) lt")
    case (Inl er)
    then show ?thesis using 2(2-4) by (auto simp: fold_lock_drop fun_eq_iff)
  next
    case (Inr lt')
    then have free: "lt (pe_data_dir e) = None" and lt': "lt' = lt(pe_data_dir e \<mapsto> h)"
      by (auto simp: lock_acquire_def split: if_splits option.splits)
    have new: "pe_data_dir e \<notin> set locks" using 2(4) free by auto
    have free0: "lt0 (pe_data_dir e) = None" using 2(3) new free by metis
    have "case lock_loop prepared (h + 1) es (pe_data_dir e # locks) lt' of
        (Inl er, lt') \<Rightarrow> lt' = lt0
      | (Inr ds, lt') \<Rightarrow> ds = rev (pe_data_dir e # locks) @ map pe_data_dir es \<and> distinct (map pe_data_dir es) \<and>
          (\<forall>d \<in> set (map pe_data_dir es). lt0 d = None \<and> d \<notin> set (pe_data_dir e # locks)) \<and>
          (\<forall>d. (lt' d \<noteq> None) = (lt0 d \<noteq> None \<or> d \<in> set ds)) \<and> (\<forall>d. d \<notin> set ds \<longrightarrow> lt' d = lt0 d)"
      by (rule 2(1) [OF Inr]) (use 2(2-4) new free0 lt' in auto)
    then show ?thesis using Inr new free0 by (auto split: prod.splits sum.splits)
  qed
qed


end
