(* ===== verification/Account_Pool.thy ===== *)
theory Account_Pool
  imports Host_Protocol "HOL-Library.Product_Lexorder"
begin

text \<open>
  The per-account engine pool of \<open>src/pool.rs\<close>. A slot is one account's engine: its routing and process
  are the supervisor's, of which the pool sees whether the engine runs and which link session its service
  holds. \<open>Instant\<close>s are milliseconds. The slot table is the \<open>BTreeMap\<close>'s values in key order. The disk is
  the directories under \<open>engines/\<close> with the files in them, and the sidecar files. Outcomes of the file
  system, of \<open>flock\<close> and of starting an engine are arguments.
\<close>

section \<open>Policy\<close>

definition MAX_PER_ACCOUNT_ENGINES :: nat where "MAX_PER_ACCOUNT_ENGINES = 8"
definition MAX_RESIDENT_ENGINES :: nat where "MAX_RESIDENT_ENGINES = MAX_PER_ACCOUNT_ENGINES"
definition POOL_SHUTDOWN_BUDGET_MS :: nat where "POOL_SHUTDOWN_BUDGET_MS = 8000"
definition LIST_ACCOUNTS_BUDGET_MS :: nat where "LIST_ACCOUNTS_BUDGET_MS = 3000"
definition ABANDONED_LINK_TTL_MS :: nat where "ABANDONED_LINK_TTL_MS = 300000"
definition DEMOTE_IDLE_AFTER_MS :: nat where "DEMOTE_IDLE_AFTER_MS = 60000"

record engine_pool_policy =
  max_engines :: nat
  max_resident :: nat
  shutdown_budget :: nat
  list_accounts_budget :: nat
  demote_idle_after :: nat

definition policy_default :: engine_pool_policy where
  "policy_default =
     \<lparr>max_engines = MAX_PER_ACCOUNT_ENGINES, max_resident = MAX_RESIDENT_ENGINES,
      shutdown_budget = POOL_SHUTDOWN_BUDGET_MS, list_accounts_budget = LIST_ACCOUNTS_BUDGET_MS,
      demote_idle_after = DEMOTE_IDLE_AFTER_MS\<rparr>"

definition clamp :: "nat \<Rightarrow> nat \<Rightarrow> nat \<Rightarrow> nat" where
  "clamp x lo hi = (if x < lo then lo else if hi < x then hi else x)"

definition normalized :: "engine_pool_policy \<Rightarrow> engine_pool_policy" where
  "normalized p =
     (let p = p\<lparr>max_engines := clamp (max_engines p) 1 MAX_PER_ACCOUNT_ENGINES\<rparr>
      in p\<lparr>max_resident := clamp (max_resident p) 1 (max_engines p)\<rparr>)"

definition policy_from_env :: "string option \<Rightarrow> engine_pool_policy" where
  "policy_from_env env =
     normalized
       (case env of
          None \<Rightarrow> policy_default
        | Some v \<Rightarrow>
            (case parse_unsigned u64_max (str_trim v) of
               None \<Rightarrow> policy_default
             | Some parsed \<Rightarrow> policy_default\<lparr>max_resident := parsed\<rparr>))"

section \<open>Slots and the pool\<close>

record account_slot =
  sl_account :: string
  sl_group :: string
  sl_resident :: bool
  sl_provisioned :: bool
  sl_locked :: bool
  sl_running :: bool
  sl_last_used :: nat
  sl_link :: "active_link_session option"
  sl_active_finish :: "string option"

record account_pool =
  ap_policy :: engine_pool_policy
  ap_available :: bool
  ap_slots :: "account_slot list"
  ap_sessions :: "string \<rightharpoonup> string"
  ap_dirs :: "string \<rightharpoonup> string list"
  ap_sidecars :: "string \<rightharpoonup> string \<times> bool"

definition is_account_id :: "string \<Rightarrow> bool" where
  "is_account_id s \<longleftrightarrow>
     length s = 32 \<and> list_all (\<lambda>b. is_ascii_digit b \<or> (97 \<le> byte b \<and> byte b \<le> 102)) s"

definition build_slot :: "string \<Rightarrow> string \<Rightarrow> bool \<Rightarrow> nat \<Rightarrow> bool \<Rightarrow> account_slot" where
  "build_slot acct grp provisioned last_used lock =
     \<lparr>sl_account = acct, sl_group = grp, sl_resident = False, sl_provisioned = provisioned,
      sl_locked = lock, sl_running = False, sl_last_used = last_used, sl_link = None,
      sl_active_finish = None\<rparr>"

text \<open>\<open>BTreeMap::insert\<close>, \<open>get\<close> and \<open>remove\<close> by account id.\<close>

definition slots_insert :: "account_slot \<Rightarrow> account_slot list \<Rightarrow> account_slot list" where
  "slots_insert s ss = insort_key sl_account s (filter (\<lambda>x. sl_account x \<noteq> sl_account s) ss)"

definition pool_get :: "string \<Rightarrow> account_pool \<Rightarrow> account_slot option" where
  "pool_get acct p = find (\<lambda>s. sl_account s = acct) (ap_slots p)"

definition slots_remove :: "string \<Rightarrow> account_slot list \<Rightarrow> account_slot list" where
  "slots_remove acct ss = filter (\<lambda>s. sl_account s \<noteq> acct) ss"

definition upd_slot :: "string \<Rightarrow> (account_slot \<Rightarrow> account_slot) \<Rightarrow> account_pool \<Rightarrow> account_pool" where
  "upd_slot acct f p = p\<lparr>ap_slots := sql_update (\<lambda>s. sl_account s = acct) f (ap_slots p)\<rparr>"

definition at_capacity :: "account_pool \<Rightarrow> bool" where
  "at_capacity p \<longleftrightarrow> max_engines (ap_policy p) \<le> length (ap_slots p)"

definition resident_count :: "account_pool \<Rightarrow> nat" where
  "resident_count p = sql_count sl_resident (ap_slots p)"

definition idle_for :: "nat \<Rightarrow> account_slot \<Rightarrow> nat" where
  "idle_for now s = now - sl_last_used s"

definition slot_touch :: "nat \<Rightarrow> account_slot \<Rightarrow> account_slot" where
  "slot_touch now s = s\<lparr>sl_last_used := now\<rparr>"

definition set_resident :: "bool \<Rightarrow> account_slot \<Rightarrow> account_slot" where
  "set_resident b s = s\<lparr>sl_resident := b\<rparr>"

text \<open>The supervisor's \<open>shutdown\<close> (and \<open>stop\<close>): the engine goes, and the link state with it.\<close>

definition slot_stopped :: "account_slot \<Rightarrow> account_slot" where
  "slot_stopped s = s\<lparr>sl_running := False, sl_link := None, sl_active_finish := None\<rparr>"

subsection \<open>Link sessions\<close>

definition session_owner :: "string \<Rightarrow> account_pool \<Rightarrow> string option" where
  "session_owner sid p = ap_sessions p sid"

definition remember_session :: "string \<Rightarrow> string \<Rightarrow> account_pool \<Rightarrow> account_pool" where
  "remember_session sid acct p = p\<lparr>ap_sessions := (ap_sessions p)(sid \<mapsto> acct)\<rparr>"

definition forget_session :: "string \<Rightarrow> account_pool \<Rightarrow> account_pool" where
  "forget_session sid p = p\<lparr>ap_sessions := (ap_sessions p)(sid := None)\<rparr>"

subsection \<open>Discovery\<close>

record dir_entry =
  de_name :: string
  de_is_dir :: bool
  de_lock_ok :: bool
  de_modified :: nat

definition discovered_slot ::
    "(string \<Rightarrow> string option) \<Rightarrow> (string \<rightharpoonup> string \<times> bool) \<Rightarrow> dir_entry \<Rightarrow> account_slot" where
  "discovered_slot store_group sidecars e =
     (let sidecar = sidecars (de_name e);
          bound = (case store_group (de_name e) of Some g \<Rightarrow> Some g | None \<Rightarrow> map_option fst sidecar);
          grp = (case bound of Some g \<Rightarrow> if g \<noteq> [] then g else ''default'' | None \<Rightarrow> ''default'');
          provisioned = ((case sidecar of Some (_, b) \<Rightarrow> b | None \<Rightarrow> False) \<or> store_group (de_name e) \<noteq> None)
      in build_slot (de_name e) grp provisioned (de_modified e) (de_lock_ok e))"

fun discover_loop ::
    "(string \<Rightarrow> string option) \<Rightarrow> (string \<rightharpoonup> string \<times> bool) \<Rightarrow> dir_entry list \<Rightarrow> account_slot list \<Rightarrow>
     account_slot list" where
  "discover_loop store_group sidecars [] slots = slots"
| "discover_loop store_group sidecars (e # es) slots =
     (if \<not> is_account_id (de_name e) \<or> \<not> de_is_dir e then discover_loop store_group sidecars es slots
      else discover_loop store_group sidecars es (slots_insert (discovered_slot store_group sidecars e) slots))"

definition discover ::
    "engine_pool_policy \<Rightarrow> bool \<Rightarrow> (string \<Rightarrow> string option) \<Rightarrow> (string \<rightharpoonup> string \<times> bool) \<Rightarrow>
     (string \<rightharpoonup> string list) \<Rightarrow> dir_entry list option \<Rightarrow> account_pool" where
  "discover policy root_ok store_group sidecars dirs entries =
     \<lparr>ap_policy = normalized policy, ap_available = root_ok,
      ap_slots = (if root_ok then
                    (case entries of
                       None \<Rightarrow> []
                     | Some es \<Rightarrow> discover_loop store_group sidecars es [])
                  else []),
      ap_sessions = Map.empty, ap_dirs = dirs, ap_sidecars = sidecars\<rparr>"

subsection \<open>Provisioning\<close>

text \<open>What the file system answers while one slot is provisioned.\<close>

record provision_env =
  pv_dir_ok :: bool
  pv_registry_ok :: bool
  pv_lock_ok :: bool
  pv_sidecar_ok :: bool

definition ENGINE_REGISTRY_FILE :: string where "ENGINE_REGISTRY_FILE = ''engine-state.json''"

definition pool_unavailable_error :: api_error where
  "pool_unavailable_error =
     api_error_new ''CAPABILITY_UNAVAILABLE'' ''the per-account engine pool is unavailable on this host'' False"

definition slot_occupied_error :: api_error where
  "slot_occupied_error =
     api_error_new ''CAPABILITY_UNAVAILABLE'' ''the account engine data directory is occupied'' False"

definition pool_full_error :: "nat \<Rightarrow> api_error" where
  "pool_full_error n =
     api_error_new ''ENGINE_POOL_FULL''
       (''the per-account engine pool already holds '' @ show_nat n @
        '' accounts; delete an account before linking another'') False"

text \<open>\<open>create_dir_all\<close>, then the registry file; \<open>remove_dir\<close> removes an empty directory only.\<close>

definition make_dir :: "string \<Rightarrow> (string \<rightharpoonup> string list) \<Rightarrow> (string \<rightharpoonup> string list)" where
  "make_dir d dirs = (case dirs d of None \<Rightarrow> dirs(d \<mapsto> []) | Some _ \<Rightarrow> dirs)"

definition write_file :: "string \<Rightarrow> string \<Rightarrow> (string \<rightharpoonup> string list) \<Rightarrow> (string \<rightharpoonup> string list)" where
  "write_file d f dirs =
     (case dirs d of None \<Rightarrow> dirs | Some fs \<Rightarrow> dirs(d \<mapsto> (if f \<in> set fs then fs else f # fs)))"

definition remove_dir :: "string \<Rightarrow> (string \<rightharpoonup> string list) \<Rightarrow> (string \<rightharpoonup> string list)" where
  "remove_dir d dirs = (if dirs d = Some [] then dirs(d := None) else dirs)"

definition provision_slot ::
    "provision_env \<Rightarrow> string \<Rightarrow> nat \<Rightarrow> string \<Rightarrow> account_pool \<Rightarrow> (api_error + account_slot) \<times> account_pool" where
  "provision_slot env acct now grp p =
     (if \<not> ap_available p then (Inl pool_unavailable_error, p)
      else if length (ap_slots p) \<ge> max_engines (ap_policy p) then
        (Inl (pool_full_error (max_engines (ap_policy p))), p)
      else if \<not> pv_dir_ok env then (Inl pool_unavailable_error, p)
      else
        let p = p\<lparr>ap_dirs := make_dir acct (ap_dirs p)\<rparr>
        in if \<not> pv_registry_ok env then (Inl pool_unavailable_error, p)
           else
             let p = p\<lparr>ap_dirs := write_file acct ENGINE_REGISTRY_FILE (ap_dirs p)\<rparr>
             in if \<not> pv_lock_ok env then
                  (Inl slot_occupied_error, p\<lparr>ap_dirs := remove_dir acct (ap_dirs p)\<rparr>)
                else
                  let p = (if pv_sidecar_ok env
                           then p\<lparr>ap_sidecars := (ap_sidecars p)(acct \<mapsto> (grp, False))\<rparr> else p);
                      slot = build_slot acct grp False now True
                  in (Inr slot, p\<lparr>ap_slots := slots_insert slot (ap_slots p)\<rparr>))"

definition mark_provisioned :: "bool \<Rightarrow> string \<Rightarrow> string \<Rightarrow> account_pool \<Rightarrow> account_pool" where
  "mark_provisioned sidecar_ok acct grp p =
     (let p = upd_slot acct (\<lambda>s. s\<lparr>sl_provisioned := True\<rparr>) p
      in if sidecar_ok then p\<lparr>ap_sidecars := (ap_sidecars p)(acct \<mapsto> (grp, True))\<rparr> else p)"

text \<open>
  \<open>discard\<close>; \<open>rm_ok\<close> is the outcome of \<open>remove_dir_all\<close>. A directory that is missing (or is not a plain
  directory) ends \<open>remove_slot_directory\<close> before the sidecar is removed.
\<close>

definition remove_slot_directory :: "bool \<Rightarrow> string \<Rightarrow> account_pool \<Rightarrow> account_pool" where
  "remove_slot_directory rm_ok acct p =
     (if \<not> is_account_id acct then p
      else case ap_dirs p acct of
             None \<Rightarrow> p
           | Some _ \<Rightarrow>
               p\<lparr>ap_dirs := (if rm_ok then (ap_dirs p)(acct := None) else ap_dirs p),
                 ap_sidecars := (ap_sidecars p)(acct := None)\<rparr>)"

definition discard :: "bool \<Rightarrow> string \<Rightarrow> bool \<Rightarrow> account_pool \<Rightarrow> account_pool" where
  "discard rm_ok acct remove p =
     (case pool_get acct p of
        None \<Rightarrow> p
      | Some slot \<Rightarrow>
          let p = p\<lparr>ap_slots := slots_remove acct (ap_slots p),
                    ap_sessions := (\<lambda>sid. if ap_sessions p sid = Some acct then None else ap_sessions p sid)\<rparr>
          in if remove then remove_slot_directory rm_ok acct p else p)"

subsection \<open>The resident window\<close>

datatype start_outcome = StartedRunning | StartedOther | StartBackpressure | StartFailed

text \<open>\<open>start_resident\<close>: most recently used first, account id as the tie break.\<close>

definition recency_key :: "account_slot \<Rightarrow> int \<times> string" where
  "recency_key s = (- int (sl_last_used s), sl_account s)"

definition start_one :: "(string \<Rightarrow> start_outcome) \<Rightarrow> account_slot \<Rightarrow> account_slot" where
  "start_one out s =
     (if \<not> sl_locked s then s
      else case out (sl_account s) of
             StartedRunning \<Rightarrow> s\<lparr>sl_running := True, sl_resident := True\<rparr>
           | StartBackpressure \<Rightarrow> s\<lparr>sl_resident := True\<rparr>
           | _ \<Rightarrow> s)"

definition start_resident :: "(string \<Rightarrow> start_outcome) \<Rightarrow> account_pool \<Rightarrow> account_pool" where
  "start_resident out p =
     (let chosen = map sl_account (take (max_resident (ap_policy p)) (sort_key recency_key (ap_slots p)))
      in p\<lparr>ap_slots := sql_update (\<lambda>s. sl_account s \<in> set chosen) (start_one out) (ap_slots p)\<rparr>)"

definition stop_all :: "account_pool \<Rightarrow> account_pool" where
  "stop_all p = p\<lparr>ap_slots := map (\<lambda>s. slot_stopped (set_resident False s)) (ap_slots p)\<rparr>"

text \<open>\<open>enforce_window\<close> decides whether a demotion pass is spawned; \<open>demote_pass\<close> is that pass.\<close>

definition enforce_window :: "account_pool \<Rightarrow> bool" where
  "enforce_window p \<longleftrightarrow> \<not> resident_count p \<le> max_resident (ap_policy p)"

definition demotable :: "nat \<Rightarrow> string \<Rightarrow> account_pool \<Rightarrow> account_slot \<Rightarrow> bool" where
  "demotable now keep p s \<longleftrightarrow>
     \<not> (\<not> sl_resident s \<or> sl_account s = keep \<or> idle_for now s < demote_idle_after (ap_policy p))"

fun demote_loop :: "(account_slot \<Rightarrow> bool) \<Rightarrow> nat \<Rightarrow> account_slot list \<Rightarrow> string list" where
  "demote_loop ok excess [] = []"
| "demote_loop ok excess (s # ss) =
     (if excess = 0 then []
      else if \<not> ok s then demote_loop ok excess ss
      else sl_account s # demote_loop ok (excess - 1) ss)"

definition demote_pass :: "nat \<Rightarrow> string \<Rightarrow> account_pool \<Rightarrow> string list \<times> account_pool" where
  "demote_pass now keep p =
     (let excess = resident_count p - max_resident (ap_policy p)
      in if excess = 0 then ([], p)
         else
           let out = demote_loop (demotable now keep p) excess (sort_key sl_last_used (ap_slots p))
           in (out, p\<lparr>ap_slots := sql_update (\<lambda>s. sl_account s \<in> set out)
                                   (\<lambda>s. slot_stopped (set_resident False s)) (ap_slots p)\<rparr>))"

definition note_activity :: "nat \<Rightarrow> string \<Rightarrow> account_pool \<Rightarrow> bool \<times> account_pool" where
  "note_activity now acct p =
     (let p = upd_slot acct (\<lambda>s. set_resident True (slot_touch now s)) p in (enforce_window p, p))"

text \<open>
  \<open>ensure_resident\<close>: the answer, whether a demotion pass was spawned, and the pool. \<open>out\<close> is what the
  supervisor's \<open>start\<close> answers when it is asked.
\<close>

datatype wake_error = WakeOccupied | WakeStartFailed

definition ensure_resident ::
    "nat \<Rightarrow> start_outcome \<Rightarrow> string \<Rightarrow> account_pool \<Rightarrow> (wake_error + unit) \<times> bool \<times> account_pool" where
  "ensure_resident now out acct p =
     (let p = upd_slot acct (slot_touch now) p
      in case pool_get acct p of
           None \<Rightarrow> (Inr (), False, p)
         | Some s \<Rightarrow>
             if sl_running s then (Inr (), False, upd_slot acct (set_resident True) p)
             else if \<not> sl_locked s then (Inl WakeOccupied, False, p)
             else
               (case out of
                  StartedOther \<Rightarrow> (Inl WakeStartFailed, False, p)
                | StartFailed \<Rightarrow> (Inl WakeStartFailed, False, p)
                | _ \<Rightarrow>
                    let p = upd_slot acct
                              (\<lambda>s. set_resident True (if out = StartedRunning then s\<lparr>sl_running := True\<rparr> else s)) p
                    in (Inr (), enforce_window p, p)))"

section \<open>The pool's invariant\<close>

definition pool_ok :: "account_pool \<Rightarrow> bool" where
  "pool_ok p \<longleftrightarrow>
     sorted (map sl_account (ap_slots p)) \<and> distinct (map sl_account (ap_slots p)) \<and>
     list_all (\<lambda>s. is_account_id (sl_account s)) (ap_slots p) \<and>
     ran (ap_sessions p) \<subseteq> sl_account ` set (ap_slots p) \<and>
     1 \<le> max_resident (ap_policy p) \<and> max_resident (ap_policy p) \<le> max_engines (ap_policy p) \<and>
     max_engines (ap_policy p) \<le> MAX_PER_ACCOUNT_ENGINES"

text \<open>Every operation of the pool, in any order.\<close>

inductive pool_step :: "account_pool \<Rightarrow> account_pool \<Rightarrow> bool" where
  ps_provision: "is_account_id acct \<Longrightarrow> pool_step p (snd (provision_slot env acct now grp p))"
| ps_mark: "pool_step p (mark_provisioned ok acct grp p)"
| ps_discard: "pool_step p (discard ok acct remove p)"
| ps_start: "pool_step p (start_resident out p)"
| ps_stop: "pool_step p (stop_all p)"
| ps_demote: "pool_step p (snd (demote_pass now keep p))"
| ps_note: "pool_step p (snd (note_activity now acct p))"
| ps_wake: "pool_step p (snd (snd (ensure_resident now out1 acct p)))"
| ps_remember: "pool_get acct p \<noteq> None \<Longrightarrow> pool_step p (remember_session sid acct p)"
| ps_forget: "pool_step p (forget_session sid p)"

inductive pool_reach :: "account_pool \<Rightarrow> account_pool \<Rightarrow> bool" where
  pr_refl: "pool_reach p p"
| pr_step: "pool_reach p q \<Longrightarrow> pool_step q r \<Longrightarrow> pool_reach p r"

lemma slot_account_simps [simp]:
  "sl_account (slot_touch now s) = sl_account s"
  "sl_account (set_resident b s) = sl_account s"
  "sl_account (slot_stopped s) = sl_account s"
  "sl_account (start_one out s) = sl_account s"
  "sl_account (build_slot acct grp pv lu lk) = acct"
  by (auto simp: slot_touch_def set_resident_def slot_stopped_def start_one_def build_slot_def
      split: start_outcome.split)

lemma distinct_insort_key_map:
  "distinct (map f (insort_key f x xs)) \<longleftrightarrow> f x \<notin> f ` set xs \<and> distinct (map f xs)"
  by (induction xs) (auto simp: set_insort_key)

lemma slots_insert_keys:
  "sorted (map sl_account ss) \<Longrightarrow> sorted (map sl_account (slots_insert s ss))"
  "distinct (map sl_account ss) \<Longrightarrow> distinct (map sl_account (slots_insert s ss))"
  "set (slots_insert s ss) = insert s {x \<in> set ss. sl_account x \<noteq> sl_account s}"
  "length (slots_insert s ss) \<le> length ss + 1"
proof -
  show "sorted (map sl_account ss) \<Longrightarrow> sorted (map sl_account (slots_insert s ss))"
    by (simp add: slots_insert_def sorted_insort_key sorted_filter)
  show "distinct (map sl_account ss) \<Longrightarrow> distinct (map sl_account (slots_insert s ss))"
    by (auto simp: slots_insert_def distinct_insort_key_map intro: distinct_map_filter)
  show "set (slots_insert s ss) = insert s {x \<in> set ss. sl_account x \<noteq> sl_account s}"
    by (simp add: slots_insert_def set_insort_key)
  show "length (slots_insert s ss) \<le> length ss + 1"
    by (simp add: slots_insert_def)
qed

text \<open>An operation that keeps the account ids keeps everything else the invariant says.\<close>

lemma pool_ok_same_keys:
  assumes "pool_ok p" "map sl_account (ap_slots p') = map sl_account (ap_slots p)"
    "ap_policy p' = ap_policy p" "ap_sessions p' = ap_sessions p"
  shows "pool_ok p' \<and> length (ap_slots p') = length (ap_slots p)"
proof -
  have "sl_account ` set (ap_slots p') = sl_account ` set (ap_slots p)"
    using assms(2) by (metis set_map)
  moreover have "list_all (\<lambda>s. is_account_id (sl_account s)) (ap_slots p') =
      list_all (\<lambda>s. is_account_id (sl_account s)) (ap_slots p)"
    using calculation by (auto simp: list_all_iff) (metis image_iff)+
  moreover have "length (ap_slots p') = length (ap_slots p)" using assms(2) by (metis length_map)
  ultimately show ?thesis using assms by (simp add: pool_ok_def)
qed

lemma upd_slot_keys:
  assumes "\<And>s. sl_account (f s) = sl_account s"
  shows "map sl_account (ap_slots (upd_slot acct f p)) = map sl_account (ap_slots p)"
    "ap_policy (upd_slot acct f p) = ap_policy p" "ap_sessions (upd_slot acct f p) = ap_sessions p"
  by (simp_all add: upd_slot_def sql_update_keys assms)

lemma discard_ok:
  assumes "pool_ok p"
  shows "pool_ok (discard ok acct remove p) \<and> length (ap_slots (discard ok acct remove p)) \<le> length (ap_slots p) \<and>
    ap_policy (discard ok acct remove p) = ap_policy p"
proof (cases "pool_get acct p")
  case None
  then show ?thesis using assms by (simp add: discard_def)
next
  case (Some slot)
  let ?q = "p\<lparr>ap_slots := slots_remove acct (ap_slots p),
      ap_sessions := (\<lambda>sid. if ap_sessions p sid = Some acct then None else ap_sessions p sid)\<rparr>"
  have "ran (ap_sessions ?q) \<subseteq> sl_account ` set (ap_slots ?q)"
  proof
    fix a assume "a \<in> ran (ap_sessions ?q)"
    then have "a \<in> ran (ap_sessions p)" "a \<noteq> acct" by (auto simp: ran_def split: if_splits)
    then show "a \<in> sl_account ` set (ap_slots ?q)"
      using assms by (auto simp: pool_ok_def slots_remove_def)
  qed
  then have q: "pool_ok ?q" "length (ap_slots ?q) \<le> length (ap_slots p)"
    using assms by (auto simp: pool_ok_def slots_remove_def sorted_filter distinct_map_filter list_all_iff)
  have "ap_slots (remove_slot_directory ok acct ?q) = ap_slots ?q"
    "ap_policy (remove_slot_directory ok acct ?q) = ap_policy ?q"
    "ap_sessions (remove_slot_directory ok acct ?q) = ap_sessions ?q"
    by (auto simp: remove_slot_directory_def split: option.split)
  then have "pool_ok (remove_slot_directory ok acct ?q)" using pool_ok_same_keys [OF q(1)] by simp
  then show ?thesis using Some q \<open>ap_slots (remove_slot_directory ok acct ?q) = ap_slots ?q\<close>
      \<open>ap_policy (remove_slot_directory ok acct ?q) = ap_policy ?q\<close>
    by (simp add: discard_def Let_def)
qed

lemma provision_ok:
  assumes "pool_ok p" "is_account_id acct"
  shows "pool_ok (snd (provision_slot env acct now grp p)) \<and>
    length (ap_slots (snd (provision_slot env acct now grp p))) \<le> max (length (ap_slots p)) (max_engines (ap_policy p)) \<and>
    ap_policy (snd (provision_slot env acct now grp p)) = ap_policy p"
proof (cases "\<exists>slot. fst (provision_slot env acct now grp p) = Inr slot")
  case True
  let ?slot = "build_slot acct grp False now True"
  let ?p' = "snd (provision_slot env acct now grp p)"
  from True have p': "ap_slots ?p' = slots_insert ?slot (ap_slots p)" "ap_policy ?p' = ap_policy p"
      "ap_sessions ?p' = ap_sessions p" and room: "length (ap_slots p) < max_engines (ap_policy p)"
    by (auto simp: provision_slot_def Let_def split: if_splits)
  have "ran (ap_sessions p) \<subseteq> sl_account ` set (slots_insert ?slot (ap_slots p))"
    using assms(1) by (auto simp: pool_ok_def slots_insert_keys(3))
  then have "pool_ok ?p'"
    using assms by (auto simp: pool_ok_def p' slots_insert_keys list_all_iff)
  moreover have "length (ap_slots ?p') \<le> max_engines (ap_policy p)"
    using slots_insert_keys(4) [of ?slot "ap_slots p"] room p' by simp
  ultimately show ?thesis using p' by (simp add: le_max_iff_disj)
next
  case False
  let ?p' = "snd (provision_slot env acct now grp p)"
  from False have "ap_slots ?p' = ap_slots p" "ap_policy ?p' = ap_policy p" "ap_sessions ?p' = ap_sessions p"
    by (auto simp: provision_slot_def Let_def split: if_splits)
  then show ?thesis using pool_ok_same_keys [OF assms(1), of ?p'] by simp
qed

lemma pool_step_ok:
  assumes "pool_step p q" "pool_ok p"
  shows "pool_ok q \<and> length (ap_slots q) \<le> max (length (ap_slots p)) (max_engines (ap_policy p)) \<and>
    ap_policy q = ap_policy p"
  using assms
proof (induction rule: pool_step.induct)
  case (ps_provision acct p env now grp)
  then show ?case by (simp add: provision_ok)
next
  case (ps_mark p ok acct grp)
  have "map sl_account (ap_slots (mark_provisioned ok acct grp p)) = map sl_account (ap_slots p)"
    "ap_policy (mark_provisioned ok acct grp p) = ap_policy p"
    "ap_sessions (mark_provisioned ok acct grp p) = ap_sessions p"
    by (simp_all add: mark_provisioned_def Let_def upd_slot_keys)
  with pool_ok_same_keys [OF ps_mark this] show ?case by simp
next
  case (ps_discard p ok acct remove)
  then show ?case using discard_ok [of p ok acct remove] by (simp add: le_max_iff_disj)
next
  case (ps_start p out)
  have "map sl_account (ap_slots (start_resident out p)) = map sl_account (ap_slots p)"
    "ap_policy (start_resident out p) = ap_policy p" "ap_sessions (start_resident out p) = ap_sessions p"
    by (simp_all add: start_resident_def Let_def sql_update_keys)
  with pool_ok_same_keys [OF ps_start this] show ?case by simp
next
  case (ps_stop p)
  have "map sl_account (ap_slots (stop_all p)) = map sl_account (ap_slots p)"
    "ap_policy (stop_all p) = ap_policy p" "ap_sessions (stop_all p) = ap_sessions p"
    by (simp_all add: stop_all_def o_def)
  with pool_ok_same_keys [OF ps_stop this] show ?case by simp
next
  case (ps_demote p now keep)
  have "map sl_account (ap_slots (snd (demote_pass now keep p))) = map sl_account (ap_slots p)"
    "ap_policy (snd (demote_pass now keep p)) = ap_policy p"
    "ap_sessions (snd (demote_pass now keep p)) = ap_sessions p"
    by (simp_all add: demote_pass_def Let_def sql_update_keys)
  with pool_ok_same_keys [OF ps_demote this] show ?case by simp
next
  case (ps_note p now acct)
  have "map sl_account (ap_slots (snd (note_activity now acct p))) = map sl_account (ap_slots p)"
    "ap_policy (snd (note_activity now acct p)) = ap_policy p"
    "ap_sessions (snd (note_activity now acct p)) = ap_sessions p"
    by (simp_all add: note_activity_def Let_def upd_slot_keys)
  with pool_ok_same_keys [OF ps_note this] show ?case by simp
next
  case (ps_wake p now out acct)
  let ?q = "snd (snd (ensure_resident now out acct p))"
  have "map sl_account (ap_slots ?q) = map sl_account (ap_slots p)"
    "ap_policy ?q = ap_policy p" "ap_sessions ?q = ap_sessions p"
    by (auto simp: ensure_resident_def Let_def upd_slot_keys split: option.split start_outcome.split)
  with pool_ok_same_keys [OF ps_wake this] show ?case by simp
next
  case (ps_remember acct p sid)
  then have "acct \<in> sl_account ` set (ap_slots p)"
    by (auto simp: pool_get_def dest!: find_Some_in)
  then show ?case
    using ps_remember(2) by (auto simp: pool_ok_def remember_session_def ran_def)
next
  case (ps_forget p sid)
  then show ?case by (auto simp: pool_ok_def forget_session_def ran_def)
qed

lemma pool_reach_ok:
  assumes "pool_reach p q" "pool_ok p"
  shows "pool_ok q \<and> length (ap_slots q) \<le> max (length (ap_slots p)) (max_engines (ap_policy p)) \<and>
    ap_policy q = ap_policy p"
  using assms
proof (induction rule: pool_reach.induct)
  case (pr_step p q r)
  then show ?case using pool_step_ok [of q r] by auto
qed simp

lemma normalized_bounds:
  "1 \<le> max_resident (normalized q) \<and> max_resident (normalized q) \<le> max_engines (normalized q) \<and>
   max_engines (normalized q) \<le> MAX_PER_ACCOUNT_ENGINES"
  by (auto simp: normalized_def clamp_def Let_def MAX_PER_ACCOUNT_ENGINES_def)

lemma discover_loop_keys:
  assumes "sorted (map sl_account ss)" "distinct (map sl_account ss)" "list_all (\<lambda>s. is_account_id (sl_account s)) ss"
  shows "sorted (map sl_account (discover_loop store_group sidecars es ss)) \<and>
    distinct (map sl_account (discover_loop store_group sidecars es ss)) \<and>
    list_all (\<lambda>s. is_account_id (sl_account s)) (discover_loop store_group sidecars es ss) \<and>
    length (discover_loop store_group sidecars es ss) \<le> length ss + length es"
  using assms
proof (induction store_group sidecars es ss rule: discover_loop.induct)
  case (2 store_group sidecars e es slots)
  show ?case
  proof (cases "\<not> is_account_id (de_name e) \<or> \<not> de_is_dir e")
    case True
    then show ?thesis using 2(1) [OF True 2(3-5)] by auto
  next
    case False
    let ?s = "discovered_slot store_group sidecars e"
    have acct: "sl_account ?s = de_name e" by (simp add: discovered_slot_def Let_def)
    have "list_all (\<lambda>s. is_account_id (sl_account s)) (slots_insert ?s slots)"
      using 2(5) False by (auto simp: list_all_iff slots_insert_keys(3) acct)
    with 2(2) [OF False slots_insert_keys(1) [OF 2(3)] slots_insert_keys(2) [OF 2(4)]] False
    show ?thesis using slots_insert_keys(4) [of ?s slots] by auto
  qed
qed simp

lemma discover_slots:
  "ap_slots (discover policy root_ok store_group sidecars dirs entries) =
     discover_loop store_group sidecars (if root_ok then (case entries of None \<Rightarrow> [] | Some es \<Rightarrow> es) else []) []"
  by (cases entries) (simp_all add: discover_def)

lemma discover_ok: "pool_ok (discover policy root_ok store_group sidecars dirs entries)"
proof -
  have "sorted (map sl_account (discover_loop sg sc es [])) \<and> distinct (map sl_account (discover_loop sg sc es [])) \<and>
      list_all (\<lambda>s. is_account_id (sl_account s)) (discover_loop sg sc es [])" for sg sc es
    using discover_loop_keys [of "[]" sg sc es] by simp
  then show ?thesis
    unfolding pool_ok_def discover_slots using normalized_bounds [of policy] by (simp add: discover_def)
qed

lemma discover_length:
  "length (ap_slots (discover policy root_ok store_group sidecars dirs (Some es))) \<le> length es"
  using discover_loop_keys [of "[]" store_group sidecars es] unfolding discover_slots by simp

section \<open>Demotion\<close>

lemma demote_loop_take: "demote_loop ok n ss = map sl_account (take n (filter ok ss))"
  by (induction ss arbitrary: n) (auto simp: take_Cons' split: nat.split)

lemma take_filter_sorted:
  assumes "sorted (map f xs)" "x \<in> set (take n xs)" "y \<in> set (drop n xs)"
  shows "f x \<le> f y"
  using assms
proof -
  have "sorted (map f (take n xs) @ map f (drop n xs))" using assms(1) by (simp flip: map_append)
  then show ?thesis using assms(2,3) by (auto simp: sorted_append)
qed

lemma demoted_slots:
  fixes p keep now
  defines "elig \<equiv> filter (demotable now keep p) (sort_key sl_last_used (ap_slots p))"
  defines "excess \<equiv> resident_count p - max_resident (ap_policy p)"
  assumes "distinct (map sl_account (ap_slots p))" "s \<in> set (ap_slots p)"
  shows "sl_account s \<in> set (fst (demote_pass now keep p)) \<longleftrightarrow> s \<in> set (take excess elig)"
proof -
  have out: "fst (demote_pass now keep p) = map sl_account (take excess elig)"
    by (simp add: demote_pass_def Let_def demote_loop_take elig_def excess_def)
  have "s = t" if "t \<in> set (take excess elig)" "sl_account s = sl_account t" for t
  proof -
    have "t \<in> set (ap_slots p)" using in_set_takeD [OF that(1)] by (simp add: elig_def)
    then show ?thesis using key_unique [OF assms(3) assms(4)] that(2) by simp
  qed
  then show ?thesis by (auto simp: out)
qed

lemma sql_count_filter_split: "sql_count q t = sql_count (\<lambda>r. q r \<and> p r) t + sql_count (\<lambda>r. q r \<and> \<not> p r) t"
  by (induction t) auto

lemma sql_count_update_off:
  "(\<And>r. p r \<Longrightarrow> \<not> q (f r)) \<Longrightarrow> sql_count q (sql_update p f t) = sql_count (\<lambda>r. q r \<and> \<not> p r) t"
  by (induction t) auto

lemma demote_count:
  assumes "distinct (map sl_account (ap_slots p))"
  shows "resident_count (snd (demote_pass now keep p)) =
    resident_count p - length (fst (demote_pass now keep p))"
proof -
  let ?out = "fst (demote_pass now keep p)"
  let ?elig = "filter (demotable now keep p) (sort_key sl_last_used (ap_slots p))"
  let ?D = "take (resident_count p - max_resident (ap_policy p)) ?elig"
  have len: "length ?out = length ?D" by (simp add: demote_pass_def Let_def demote_loop_take)
  have dist: "distinct ?D"
    using assms by (auto simp: distinct_map intro!: distinct_take distinct_filter)
  have sub: "set ?D \<subseteq> set (ap_slots p)" using set_take_subset by fastforce
  have in_D: "sl_account s \<in> set ?out \<longleftrightarrow> s \<in> set ?D" if "s \<in> set (ap_slots p)" for s
    by (rule demoted_slots [OF assms that])
  have res: "sl_resident s" if "s \<in> set ?D" for s
    using in_set_takeD [OF that] by (simp add: demotable_def)
  have "sql_count (\<lambda>s. sl_resident s \<and> sl_account s \<in> set ?out) (ap_slots p) = card (set ?D)"
  proof -
    have "filter (\<lambda>s. sl_resident s \<and> sl_account s \<in> set ?out) (ap_slots p) = filter (\<lambda>s. s \<in> set ?D) (ap_slots p)"
      using in_D res by (intro filter_cong) auto
    moreover have "distinct (ap_slots p)" using assms by (simp add: distinct_map)
    then have "card (set (filter (\<lambda>s. s \<in> set ?D) (ap_slots p))) = length (filter (\<lambda>s. s \<in> set ?D) (ap_slots p))"
      by (intro distinct_card) simp
    moreover have "set (filter (\<lambda>s. s \<in> set ?D) (ap_slots p)) = set ?D" using sub by auto
    ultimately show ?thesis by (simp add: sql_count_def)
  qed
  then have cut: "sql_count (\<lambda>s. sl_resident s \<and> sl_account s \<in> set ?out) (ap_slots p) = length ?out"
    using dist len by (simp add: distinct_card)
  have "resident_count (snd (demote_pass now keep p)) =
      sql_count (\<lambda>s. sl_resident s \<and> \<not> sl_account s \<in> set ?out) (ap_slots p)"
  proof (cases "resident_count p - max_resident (ap_policy p) = 0")
    case True
    then show ?thesis by (simp add: demote_pass_def resident_count_def)
  next
    case False
    then show ?thesis
      by (simp add: demote_pass_def Let_def resident_count_def sql_count_update_off slot_stopped_def set_resident_def)
  qed
  then show ?thesis
    using cut sql_count_filter_split [of sl_resident "ap_slots p" "\<lambda>s. sl_account s \<in> set ?out"]
    by (simp add: resident_count_def)
qed

section \<open>Properties\<close>

text \<open>
  C28. The pool stays within its ceilings. From a discovery over \<open>n\<close> directory entries, after any sequence
  of operations, the pool never holds more slots than the larger of \<open>n\<close> and its policy's ceiling (at most
  eight), ids are unique account ids, and every link session belongs to a slot of the table. With the
  default policy and at most eight directories, no demotion pass is ever spawned.
\<close>
theorem pool_within_ceilings:
  assumes "pool_reach (discover policy root_ok store_group sidecars dirs (Some es)) p"
  shows "length (ap_slots p) \<le> max (length es) (max_engines (ap_policy p)) \<and>
    max_engines (ap_policy p) \<le> MAX_PER_ACCOUNT_ENGINES \<and>
    distinct (map sl_account (ap_slots p)) \<and> list_all (\<lambda>s. is_account_id (sl_account s)) (ap_slots p) \<and>
    ran (ap_sessions p) \<subseteq> sl_account ` set (ap_slots p) \<and>
    (policy = policy_from_env None \<and> length es \<le> MAX_PER_ACCOUNT_ENGINES \<longrightarrow> \<not> enforce_window p)"
proof -
  let ?p0 = "discover policy root_ok store_group sidecars dirs (Some es)"
  note r = pool_reach_ok [OF assms discover_ok]
  have len: "length (ap_slots p) \<le> max (length es) (max_engines (ap_policy p))"
    using r discover_length [of policy root_ok store_group sidecars dirs es] by (auto simp: le_max_iff_disj)
  have pol: "ap_policy p = normalized policy" using r by (simp add: discover_def)
  have "\<not> enforce_window p" if d: "policy = policy_from_env None" "length es \<le> MAX_PER_ACCOUNT_ENGINES"
  proof -
    have "max_resident (ap_policy p) = MAX_PER_ACCOUNT_ENGINES" "max_engines (ap_policy p) = MAX_PER_ACCOUNT_ENGINES"
      by (simp_all add: pol d(1) policy_from_env_def policy_default_def normalized_def clamp_def Let_def
          MAX_RESIDENT_ENGINES_def MAX_PER_ACCOUNT_ENGINES_def)
    then have "length (ap_slots p) \<le> max_resident (ap_policy p)" using len d(2) by simp
    then show ?thesis
      using sql_count_le_length [of sl_resident "ap_slots p"] by (simp add: enforce_window_def resident_count_def)
  qed
  moreover have "pool_ok p" using r by blast
  ultimately show ?thesis using len unfolding pool_ok_def by blast
qed

definition sample_account :: string where "sample_account = replicate 32 CHR ''a''"

definition sample_entry :: dir_entry where
  "sample_entry = \<lparr>de_name = sample_account, de_is_dir = True, de_lock_ok = True, de_modified = 0\<rparr>"

definition fs_fine :: provision_env where
  "fs_fine = \<lparr>pv_dir_ok = True, pv_registry_ok = True, pv_lock_ok = True, pv_sidecar_ok = True\<rparr>"

definition sample_account2 :: string where "sample_account2 = replicate 32 CHR ''b''"

lemma sample_ids [simp]: "is_account_id sample_account" "is_account_id sample_account2"
  by (simp_all add: is_account_id_def sample_account_def sample_account2_def byte_def list_all_iff)

theorem pool_within_ceilings_witness:
  "length (ap_slots (snd (provision_slot fs_fine sample_account2 5 ''g''
     (discover policy_default True (\<lambda>_. None) Map.empty Map.empty (Some [sample_entry]))))) \<le> 8"
proof -
  let ?p0 = "discover policy_default True (\<lambda>_. None) Map.empty Map.empty (Some [sample_entry])"
  have "pool_reach ?p0 (snd (provision_slot fs_fine sample_account2 5 ''g'' ?p0))"
    by (rule pr_step [OF pr_refl ps_provision]) simp
  from pool_within_ceilings [OF this] show ?thesis by (auto simp: MAX_PER_ACCOUNT_ENGINES_def)
qed

text \<open>
  C29. Demotion is least recently used and never hurts a busy account. One pass demotes only resident slots
  other than the one just woken that have been idle for the whole demotion window; among those, everything
  it demotes was used no later than anything it leaves; it ends exactly at the resident window, or with no
  such slot left.
\<close>
theorem demotion_is_lru:
  fixes p now keep
  defines "demoted \<equiv> \<lambda>s. sl_account s \<in> set (fst (demote_pass now keep p))"
  defines "p' \<equiv> snd (demote_pass now keep p)"
  assumes "distinct (map sl_account (ap_slots p))" "s \<in> set (ap_slots p)" "t \<in> set (ap_slots p)"
  shows "(demoted s \<longrightarrow> sl_resident s \<and> sl_account s \<noteq> keep \<and> demote_idle_after (ap_policy p) \<le> idle_for now s) \<and>
    (demoted s \<and> \<not> demoted t \<and> demotable now keep p t \<longrightarrow> sl_last_used s \<le> sl_last_used t) \<and>
    (resident_count p' = min (resident_count p) (max_resident (ap_policy p)) \<or>
     resident_count p' > max_resident (ap_policy p) \<and> (demotable now keep p t \<longrightarrow> demoted t))"
proof -
  let ?ss = "sort_key sl_last_used (ap_slots p)"
  let ?elig = "filter (demotable now keep p) ?ss"
  let ?n = "resident_count p - max_resident (ap_policy p)"
  have in_D: "demoted x \<longleftrightarrow> x \<in> set (take ?n ?elig)" if "x \<in> set (ap_slots p)" for x
    unfolding demoted_def by (rule demoted_slots [OF assms(3) that])
  have sorted: "sorted (map sl_last_used ?elig)" by (simp add: sorted_filter)
  have 1: "demoted s \<longrightarrow> sl_resident s \<and> sl_account s \<noteq> keep \<and> demote_idle_after (ap_policy p) \<le> idle_for now s"
    using in_D [OF assms(4)] by (auto simp: demotable_def dest!: in_set_takeD)
  have 2: "demoted s \<and> \<not> demoted t \<and> demotable now keep p t \<longrightarrow> sl_last_used s \<le> sl_last_used t"
  proof
    assume a: "demoted s \<and> \<not> demoted t \<and> demotable now keep p t"
    then have "t \<in> set ?elig" using assms(5) by simp
    then have "t \<in> set (take ?n ?elig) \<union> set (drop ?n ?elig)"
      by (metis append_take_drop_id set_append)
    then have "t \<in> set (drop ?n ?elig)" using a in_D [OF assms(5)] by blast
    then show "sl_last_used s \<le> sl_last_used t"
      using take_filter_sorted [OF sorted] a in_D [OF assms(4)] by blast
  qed
  have len: "length (fst (demote_pass now keep p)) = min ?n (length ?elig)"
    by (simp add: demote_pass_def Let_def demote_loop_take min.commute)
  have cnt: "resident_count p' = resident_count p - min ?n (length ?elig)"
    unfolding p'_def demote_count [OF assms(3)] len ..
  have 3: "resident_count p' = min (resident_count p) (max_resident (ap_policy p)) \<or>
     resident_count p' > max_resident (ap_policy p) \<and> (demotable now keep p t \<longrightarrow> demoted t)"
  proof (cases "?n \<le> length ?elig")
    case True
    then show ?thesis using cnt by (simp add: min_def)
  next
    case False
    then have "take ?n ?elig = ?elig" by simp
    then have "demotable now keep p t \<longrightarrow> demoted t" using in_D [OF assms(5)] assms(5) by simp
    moreover have "resident_count p' > max_resident (ap_policy p)" using cnt False by linarith
    ultimately show ?thesis by simp
  qed
  from 1 2 3 show ?thesis by blast
qed

definition sample_pool :: account_pool where
  "sample_pool =
     \<lparr>ap_policy = policy_default\<lparr>max_resident := 1\<rparr>, ap_available = True,
      ap_slots = [(build_slot sample_account ''g'' True 0 True)\<lparr>sl_resident := True\<rparr>,
                  (build_slot sample_account2 ''g'' True 90000 True)\<lparr>sl_resident := True\<rparr>],
      ap_sessions = Map.empty, ap_dirs = Map.empty, ap_sidecars = Map.empty\<rparr>"

theorem demotion_is_lru_witness:
  "resident_count (snd (demote_pass 100000 sample_account2 sample_pool)) = 1"
proof -
  let ?s = "(build_slot sample_account ''g'' True 0 True)\<lparr>sl_resident := True\<rparr>"
  have ne: "sample_account2 \<noteq> sample_account" by (simp add: sample_account_def sample_account2_def)
  have d: "distinct (map sl_account (ap_slots sample_pool))" "?s \<in> set (ap_slots sample_pool)"
    using ne by (auto simp: sample_pool_def)
  have out: "fst (demote_pass 100000 sample_account2 sample_pool) = [sample_account]"
    using ne by (simp add: demote_pass_def sample_pool_def resident_count_def build_slot_def demotable_def
        idle_for_def policy_default_def DEMOTE_IDLE_AFTER_MS_def)
  from demotion_is_lru [OF d d(2), of 100000 sample_account2] out
  show ?thesis
    by (simp add: demote_count [OF d(1)]) (simp add: sample_pool_def resident_count_def)
qed

text \<open>
  A refused slot leaves its directory behind. When the directory and its registry file were created
  and the occupancy lock is then refused, the call fails and registers no slot, but the clean-up removes
  empty directories only, so the directory stays with the registry file in it; the next discovery that can
  lock it takes it for a slot, which counts against the ceiling.
\<close>
lemma refused_slot_leaks_directory:
  assumes "ap_available p" "length (ap_slots p) < max_engines (ap_policy p)" "ap_dirs p acct = None"
    "is_account_id acct" "pv_dir_ok env" "pv_registry_ok env" "\<not> pv_lock_ok env"
  shows "(case provision_slot env acct now grp p of
      (r, p') \<Rightarrow> r = Inl slot_occupied_error \<and> ap_slots p' = ap_slots p \<and>
        ap_dirs p' = (ap_dirs p)(acct \<mapsto> [ENGINE_REGISTRY_FILE])) \<and>
    map sl_account (ap_slots (discover policy True (\<lambda>_. None) (ap_sidecars p) dirs
      (Some [\<lparr>de_name = acct, de_is_dir = True, de_lock_ok = True, de_modified = m\<rparr>]))) = [acct]"
  using assms
  by (simp add: provision_slot_def Let_def make_dir_def write_file_def remove_dir_def discover_slots
      slots_insert_def discovered_slot_def)

end
