(* ===== verification/Link_Flow.thy ===== *)
theory Link_Flow
  imports Account_Pool
begin

text \<open>
  Linking a device to the pool: the link session of \<open>src/service.rs\<close> (\<open>begin_link\<close> ..
  \<open>cancel_link\<close>), the finish lane of \<open>src/supervisor.rs\<close>, and the pool-mode paths of \<open>src/registry.rs\<close>
  (\<open>start_link\<close>, \<open>finish_link\<close>, \<open>cancel_link\<close>, \<open>reap_uncommitted_links\<close>). A finish is cut where the source
  awaits: \<open>finish_begin\<close> up to the engine call, \<open>finish_answer\<close> when the engine answers, \<open>finish_commit\<close>
  under the service lock, \<open>finish_settle\<close> back in the registry after the best-effort profile and contact
  calls. Anything may run between two of them. What the engine, the file system and the delete ledger
  answer are arguments.
\<close>

section \<open>The link session of one service\<close>

datatype service_error = ServiceApi api_error | ServiceEngine string | ServiceStore

definition MAX_DEVICE_NAME_BYTES :: nat where "MAX_DEVICE_NAME_BYTES = 64"

definition link_in_progress_error :: service_error where
  "link_in_progress_error = ServiceApi (api_error_new ''LINK_IN_PROGRESS'' ''a link session is already active'' False)"

definition finish_in_progress_error :: service_error where
  "finish_in_progress_error = ServiceApi (api_error_new ''LINK_IN_PROGRESS'' ''a link finish request is already active'' False)"

definition link_not_found_error :: service_error where
  "link_not_found_error = ServiceApi (api_error_new ''LINK_NOT_FOUND'' ''link session was not found'' False)"

definition link_expired_error :: service_error where
  "link_expired_error = ServiceApi (api_error_new ''LINK_EXPIRED'' ''link session has expired'' False)"

definition validate_device_name :: "string \<Rightarrow> service_error + unit" where
  "validate_device_name name =
     (if name = [] \<or> MAX_DEVICE_NAME_BYTES < length name then
        Inl (ServiceApi (api_error_new ''INVALID_REQUEST'' ''deviceName must contain between 1 and 64 bytes'' False))
      else Inr ())"

type_synonym link_slot = "active_link_session option"

definition begin_link ::
    "string \<Rightarrow> nat \<Rightarrow> string \<Rightarrow> string \<Rightarrow> link_slot \<Rightarrow> (service_error + string) \<times> link_slot" where
  "begin_link rid now name uri link =
     (case validate_device_name name of
        Inl e \<Rightarrow> (Inl e, link)
      | Inr _ \<Rightarrow>
          (case link of
             Some existing \<Rightarrow>
               if \<not> link_is_expired existing now then (Inl link_in_progress_error, link)
               else (Inr rid, Some (link_session_new rid now name uri LINK_SESSION_TTL_MS))
           | None \<Rightarrow> (Inr rid, Some (link_session_new rid now name uri LINK_SESSION_TTL_MS))))"

definition ensure_link_available :: "nat \<Rightarrow> link_slot \<Rightarrow> (service_error + unit) \<times> link_slot" where
  "ensure_link_available now link =
     (case link of
        Some existing \<Rightarrow>
          if \<not> link_is_expired existing now then (Inl link_in_progress_error, link) else (Inr (), None)
      | None \<Rightarrow> (Inr (), None))"

definition require_active_link ::
    "string \<Rightarrow> nat \<Rightarrow> link_slot \<Rightarrow> (service_error + active_link_session) \<times> link_slot" where
  "require_active_link sid now link =
     (case link of
        Some session \<Rightarrow>
          if ls_session_id session = sid then
            if link_is_expired session now then (Inl link_expired_error, None) else (Inr session, link)
          else (Inl link_not_found_error, link)
      | None \<Rightarrow> (Inl link_not_found_error, link))"

definition take_link_session ::
    "string \<Rightarrow> nat \<Rightarrow> link_slot \<Rightarrow> (service_error + active_link_session) \<times> link_slot" where
  "take_link_session sid now link =
     (case require_active_link sid now link of
        (Inl e, link') \<Rightarrow> (Inl e, link')
      | (Inr session, _) \<Rightarrow> (Inr session, None))"

definition peek_link_for_finish ::
    "string \<Rightarrow> nat \<Rightarrow> link_slot \<Rightarrow> (service_error + string \<times> string) \<times> link_slot" where
  "peek_link_for_finish sid now link =
     (case require_active_link sid now link of
        (Inl e, link') \<Rightarrow> (Inl e, link')
      | (Inr session, link') \<Rightarrow> (Inr (ls_device_name session, link_qr_payload session), link'))"

definition has_pending_link :: "nat \<Rightarrow> link_slot \<Rightarrow> bool" where
  "has_pending_link now link = (case link of None \<Rightarrow> False | Some s \<Rightarrow> \<not> link_is_expired s now)"

section \<open>Account rows\<close>

record linked_account =
  la_id :: string
  la_number :: string
  la_group :: string
  la_state :: string
  la_linked_at :: "nat option"

definition count_accounts_in_group :: "string \<Rightarrow> linked_account list \<Rightarrow> nat" where
  "count_accounts_in_group g rows = sql_count (\<lambda>r. la_group r = g) rows"

definition account_by_signal :: "string \<Rightarrow> linked_account list \<Rightarrow> linked_account option" where
  "account_by_signal number rows = find (\<lambda>r. la_number r = number) rows"

definition relink_row :: "nat option \<Rightarrow> linked_account \<Rightarrow> linked_account" where
  "relink_row linked_at r =
     r\<lparr>la_state := ''ready'', la_linked_at := (case la_linked_at r of None \<Rightarrow> linked_at | Some v \<Rightarrow> Some v)\<rparr>"

definition upsert_account_from_signal_with_id ::
    "string \<Rightarrow> nat option \<Rightarrow> string \<Rightarrow> string \<Rightarrow> linked_account list \<Rightarrow> string \<times> linked_account list" where
  "upsert_account_from_signal_with_id number linked_at grp preferred rows =
     (case account_by_signal number rows of
        Some existing \<Rightarrow> (la_id existing, sql_update (\<lambda>r. la_id r = la_id existing) (relink_row linked_at) rows)
      | None \<Rightarrow>
          (preferred,
           rows @ [\<lparr>la_id = preferred, la_number = number, la_group = grp, la_state = ''ready'',
                    la_linked_at = linked_at\<rparr>]))"

definition group_at_account_ceiling :: "string \<Rightarrow> linked_account list \<Rightarrow> bool" where
  "group_at_account_ceiling g rows \<longleftrightarrow> MAX_ACCOUNTS_PER_ENGINE \<le> count_accounts_in_group g rows"

definition link_would_exceed_ceiling :: "string \<Rightarrow> string \<Rightarrow> linked_account list \<Rightarrow> bool" where
  "link_would_exceed_ceiling number g rows =
     (case account_by_signal number rows of
        Some r \<Rightarrow> if la_group r = g then False else group_at_account_ceiling g rows
      | None \<Rightarrow> group_at_account_ceiling g rows)"

definition account_limit_error :: "string \<Rightarrow> service_error" where
  "account_limit_error g =
     ServiceApi (api_error_new ''ACCOUNT_LIMIT_REACHED''
       (''proxy group '' @ [CHR 0x27] @ g @ [CHR 0x27] @ '' already holds '' @ show_nat MAX_ACCOUNTS_PER_ENGINE @
        '' accounts, the per-engine ceiling; delete an account before linking another'') False)"

definition unfinished_delete_relink_error :: "string \<Rightarrow> service_error" where
  "unfinished_delete_relink_error state =
     ServiceApi
       (if state = ''unknown'' then
          api_error_new ''ACCOUNT_DELETE_OUTCOME_UNKNOWN''
            (''this number'' @ [CHR 0x27] @ ''s local-data delete has an unknown outcome; retry the delete before linking it again'') False
        else
          api_error_new ''ACCOUNT_DELETE_IN_PROGRESS''
            (''this number'' @ [CHR 0x27] @ ''s local-data delete is still in progress; retry the delete before linking it again'') False)"

text \<open>
  \<open>complete_link_session_with_id\<close>: \<open>del_state\<close> is the delete ledger's answer for the number. The own-ACI
  column is not part of the row.
\<close>

definition complete_link_session_with_id ::
    "string \<Rightarrow> string \<Rightarrow> string \<Rightarrow> string option \<Rightarrow> string \<Rightarrow> nat \<Rightarrow> link_slot \<Rightarrow> linked_account list \<Rightarrow>
     (service_error + string) \<times> link_slot \<times> linked_account list" where
  "complete_link_session_with_id sid number grp del_state preferred now link rows =
     (case require_active_link sid now link of
        (Inl e, link') \<Rightarrow> (Inl e, link', rows)
      | (Inr _, link') \<Rightarrow>
          (case del_state of
             Some state \<Rightarrow> (Inl (unfinished_delete_relink_error state), snd (take_link_session sid now link'), rows)
           | None \<Rightarrow>
               if link_would_exceed_ceiling number grp rows then (Inl (account_limit_error grp), link', rows)
               else
                 (case take_link_session sid now link' of
                    (Inl e, link'') \<Rightarrow> (Inl e, link'', rows)
                  | (Inr _, link'') \<Rightarrow>
                      (case upsert_account_from_signal_with_id number (Some now) grp preferred rows of
                         (i, rows') \<Rightarrow> (Inr i, link'', rows')))))"

section \<open>The system\<close>

datatype finish_phase = Waiting | Answered string | Committed string

record finish_task =
  ft_id :: nat
  ft_account :: string
  ft_group :: string
  ft_session :: string
  ft_phase :: finish_phase

record link_sys =
  ly_pool :: account_pool
  ly_rows :: "linked_account list"
  ly_tasks :: "finish_task list"

definition set_link :: "string \<Rightarrow> link_slot \<Rightarrow> account_pool \<Rightarrow> account_pool" where
  "set_link acct link p = upd_slot acct (\<lambda>s. s\<lparr>sl_link := link\<rparr>) p"

definition set_finish :: "string \<Rightarrow> string option \<Rightarrow> account_pool \<Rightarrow> account_pool" where
  "set_finish acct sid p = upd_slot acct (\<lambda>s. s\<lparr>sl_active_finish := sid\<rparr>) p"

definition rollback_account_slot :: "bool \<Rightarrow> string \<Rightarrow> account_pool \<Rightarrow> account_pool" where
  "rollback_account_slot rm_ok acct p = discard rm_ok acct True p"

definition end_task :: "nat \<Rightarrow> link_sys \<Rightarrow> link_sys" where
  "end_task i y = y\<lparr>ly_tasks := filter (\<lambda>t. ft_id t \<noteq> i) (ly_tasks y)\<rparr>"

definition set_task :: "nat \<Rightarrow> finish_phase \<Rightarrow> link_sys \<Rightarrow> link_sys" where
  "set_task i ph y = y\<lparr>ly_tasks := sql_update (\<lambda>t. ft_id t = i) (\<lambda>t. t\<lparr>ft_phase := ph\<rparr>) (ly_tasks y)\<rparr>"

subsection \<open>Starting\<close>

datatype start_link_answer = LinkUri string | NoLinkUri | StartLinkFailed string

definition link_group_id :: "string list \<Rightarrow> string option \<Rightarrow> api_error + string" where
  "link_group_id group_ids proxy_group =
     (let requested = (case proxy_group of None \<Rightarrow> ''default'' | Some g \<Rightarrow> g)
      in if requested \<in> set group_ids then Inr requested
         else Inl (api_error_new ''PROXY_GROUP_NOT_FOUND''
                (''proxy group '' @ [CHR 0x27] @ requested @ [CHR 0x27] @ '' is not configured in this connector'') False))"

record start_env =
  se_fs :: provision_env
  se_rm_ok :: bool
  se_engine :: start_outcome
  se_uri :: start_link_answer

text \<open>\<open>RuntimeSupervisor::start_link\<close>; \<open>uri\<close> is the engine's answer to \<open>startLink\<close>.\<close>

definition supervisor_start_link ::
    "string \<Rightarrow> nat \<Rightarrow> string \<Rightarrow> start_link_answer \<Rightarrow> string \<Rightarrow> linked_account list \<Rightarrow> bool \<Rightarrow> link_slot \<Rightarrow>
     (service_error + string) \<times> link_slot" where
  "supervisor_start_link rid now name uri grp rows running link =
     (case ensure_link_available now link of
        (Inl e, link') \<Rightarrow> (Inl e, link')
      | (Inr _, link') \<Rightarrow>
          if group_at_account_ceiling grp rows then (Inl (account_limit_error grp), link')
          else if \<not> running then (Inl (ServiceEngine ''NotRunning''), link')
          else
            (case uri of
               StartLinkFailed e \<Rightarrow> (Inl (ServiceEngine e), link')
             | NoLinkUri \<Rightarrow>
                 (Inl (ServiceApi (api_error_new ''UPSTREAM_PROTOCOL_ERROR''
                         ''startLink response missing deviceLinkUri'' True)), link')
             | LinkUri u \<Rightarrow> begin_link rid now name u link'))"

definition pool_start_link ::
    "start_env \<Rightarrow> string \<Rightarrow> string \<Rightarrow> nat \<Rightarrow> string \<Rightarrow> string \<Rightarrow> link_sys \<Rightarrow> (service_error + string) \<times> link_sys" where
  "pool_start_link env acct rid now name grp y =
     (case provision_slot (se_fs env) acct now grp (ly_pool y) of
        (Inl e, p) \<Rightarrow> (Inl (ServiceApi e), y\<lparr>ly_pool := p\<rparr>)
      | (Inr _, p) \<Rightarrow>
          if se_engine env = StartFailed then
            (Inl (ServiceEngine ''start''), y\<lparr>ly_pool := rollback_account_slot (se_rm_ok env) acct p\<rparr>)
          else
            let run = (se_engine env = StartedRunning);
                p = upd_slot acct (\<lambda>s. s\<lparr>sl_running := run\<rparr>) p
            in case supervisor_start_link rid now name (se_uri env) grp (ly_rows y) run None of
                 (Inl e, _) \<Rightarrow> (Inl e, y\<lparr>ly_pool := rollback_account_slot (se_rm_ok env) acct p\<rparr>)
               | (Inr sid, link) \<Rightarrow>
                   (Inr sid,
                    y\<lparr>ly_pool := snd (note_activity now acct
                                   (remember_session sid acct (set_link acct link p)))\<rparr>))"

text \<open>\<open>ConnectorRuntime::start_link\<close> with the pool enabled.\<close>

definition registry_start_link ::
    "string list \<Rightarrow> bool \<Rightarrow> start_env \<Rightarrow> string \<Rightarrow> string \<Rightarrow> nat \<Rightarrow> string \<Rightarrow> string option \<Rightarrow> link_sys \<Rightarrow>
     (service_error + string) \<times> link_sys" where
  "registry_start_link group_ids running env acct rid now name proxy_group y =
     (case link_group_id group_ids proxy_group of
        Inl e \<Rightarrow> (Inl (ServiceApi e), y)
      | Inr grp \<Rightarrow>
          if \<not> running then (Inl (ServiceEngine ''NotRunning''), y)
          else pool_start_link env acct rid now name grp y)"

lemma registry_start_link_cases:
  "snd (registry_start_link gs run env acct rid now name pg y) = y \<or>
   (\<exists>grp. snd (registry_start_link gs run env acct rid now name pg y) = snd (pool_start_link env acct rid now name grp y))"
  by (auto simp: registry_start_link_def split: sum.split)

subsection \<open>Finishing\<close>

definition link_owner :: "string \<Rightarrow> account_pool \<Rightarrow> account_slot option" where
  "link_owner sid p = (case session_owner sid p of None \<Rightarrow> None | Some acct \<Rightarrow> pool_get acct p)"

text \<open>
  Up to the engine call. \<open>store_ok\<close> is false when the account count cannot be read: that error returns
  through the question-mark operator, before the finish lane is cleared.
\<close>

definition finish_begin ::
    "nat \<Rightarrow> string \<Rightarrow> nat \<Rightarrow> bool \<Rightarrow> link_sys \<Rightarrow> (service_error + unit) \<times> link_sys" where
  "finish_begin i sid now store_ok y =
     (case link_owner sid (ly_pool y) of
        None \<Rightarrow> (Inl link_not_found_error, y)
      | Some s \<Rightarrow>
          if \<not> sl_running s then (Inl (ServiceEngine ''NotRunning''), y)
          else if sl_active_finish s \<noteq> None then (Inl finish_in_progress_error, y)
          else
            let p = set_finish (sl_account s) (Some sid) (ly_pool y)
            in case peek_link_for_finish sid now (sl_link s) of
                 (Inl e, link) \<Rightarrow>
                   (Inl e, y\<lparr>ly_pool := set_finish (sl_account s) None (set_link (sl_account s) link p)\<rparr>)
               | (Inr _, link) \<Rightarrow>
                   if \<not> store_ok then
                     (Inl ServiceStore,
                      y\<lparr>ly_pool := set_link (sl_account s) link p\<rparr>)
                   else if group_at_account_ceiling (sl_group s) (ly_rows y) then
                     (Inl (account_limit_error (sl_group s)),
                      y\<lparr>ly_pool := set_finish (sl_account s) None (set_link (sl_account s) link p)\<rparr>)
                   else
                     (Inr (),
                      y\<lparr>ly_pool := set_link (sl_account s) link p,
                        ly_tasks := ly_tasks y @
                          [\<lparr>ft_id = i, ft_account = sl_account s, ft_group = sl_group s, ft_session = sid,
                            ft_phase = Waiting\<rparr>]\<rparr>))"

text \<open>\<open>clear_link_finish\<close>: the lane is freed only by the finish that still owns it.\<close>

definition clear_link_finish :: "string \<Rightarrow> string \<Rightarrow> account_pool \<Rightarrow> bool \<times> account_pool" where
  "clear_link_finish acct sid p =
     (case pool_get acct p of
        None \<Rightarrow> (False, p)
      | Some s \<Rightarrow> if sl_active_finish s = Some sid then (True, set_finish acct None p) else (False, p))"

datatype upstream = UpNumber string | UpAbandoned | UpError

definition finish_answer :: "nat \<Rightarrow> upstream \<Rightarrow> link_sys \<Rightarrow> link_sys" where
  "finish_answer i up y =
     (case find (\<lambda>t. ft_id t = i) (ly_tasks y) of
        None \<Rightarrow> y
      | Some t \<Rightarrow>
          if ft_phase t \<noteq> Waiting then y
          else
            (case clear_link_finish (ft_account t) (ft_session t) (ly_pool y) of
               (still_current, p) \<Rightarrow>
                 let y = y\<lparr>ly_pool := p\<rparr>
                 in if \<not> still_current then end_task i y
                    else (case up of UpNumber n \<Rightarrow> set_task i (Answered n) y | _ \<Rightarrow> end_task i y)))"

definition finish_commit :: "nat \<Rightarrow> string option \<Rightarrow> nat \<Rightarrow> link_sys \<Rightarrow> (service_error + string) \<times> link_sys" where
  "finish_commit i del_state now y =
     (case find (\<lambda>t. ft_id t = i) (ly_tasks y) of
        None \<Rightarrow> (Inl link_not_found_error, y)
      | Some t \<Rightarrow>
          (case ft_phase t of
             Answered number \<Rightarrow>
               (case complete_link_session_with_id (ft_session t) number (ft_group t) del_state (ft_account t) now
                       (case pool_get (ft_account t) (ly_pool y) of None \<Rightarrow> None | Some s \<Rightarrow> sl_link s) (ly_rows y) of
                  (Inl e, link, rows) \<Rightarrow>
                    (Inl e, end_task i (y\<lparr>ly_pool := set_link (ft_account t) link (ly_pool y), ly_rows := rows\<rparr>))
                | (Inr summary, link, rows) \<Rightarrow>
                    (Inr summary,
                     set_task i (Committed summary)
                       (y\<lparr>ly_pool := set_link (ft_account t) link (ly_pool y), ly_rows := rows\<rparr>)))
           | _ \<Rightarrow> (Inl link_not_found_error, y)))"

definition finish_settle :: "nat \<Rightarrow> bool \<Rightarrow> bool \<Rightarrow> nat \<Rightarrow> link_sys \<Rightarrow> link_sys" where
  "finish_settle i sidecar_ok rm_ok now y =
     (case find (\<lambda>t. ft_id t = i) (ly_tasks y) of
        None \<Rightarrow> y
      | Some t \<Rightarrow>
          (case ft_phase t of
             Committed summary \<Rightarrow>
               (if summary = ft_account t then
                  end_task i (y\<lparr>ly_pool := snd (note_activity now (ft_account t)
                                 (forget_session (ft_session t)
                                   (mark_provisioned sidecar_ok (ft_account t) (ft_group t) (ly_pool y))))\<rparr>)
                else
                  end_task i (y\<lparr>ly_pool := rollback_account_slot rm_ok (ft_account t)
                                 (forget_session (ft_session t) (ly_pool y))\<rparr>))
           | _ \<Rightarrow> y))"

subsection \<open>Cancelling and reaping\<close>

definition registry_cancel_link :: "string \<Rightarrow> nat \<Rightarrow> bool \<Rightarrow> link_sys \<Rightarrow> (service_error + unit) \<times> link_sys" where
  "registry_cancel_link sid now rm_ok y =
     (case link_owner sid (ly_pool y) of
        None \<Rightarrow> (Inl link_not_found_error, y)
      | Some s \<Rightarrow>
          let p = (if sl_active_finish s = Some sid then set_finish (sl_account s) None (ly_pool y) else ly_pool y)
          in case take_link_session sid now (sl_link s) of
               (r, link) \<Rightarrow>
                 let p = forget_session sid (set_link (sl_account s) link p);
                     p = (if \<not> sl_provisioned s then rollback_account_slot rm_ok (sl_account s) p else p)
                 in (case r of Inl e \<Rightarrow> Inl e | Inr _ \<Rightarrow> Inr (), y\<lparr>ly_pool := p\<rparr>))"

definition reap_uncommitted_links :: "nat \<Rightarrow> bool \<Rightarrow> account_pool \<Rightarrow> account_pool" where
  "reap_uncommitted_links now rm_ok p =
     fold (\<lambda>s p. if sl_provisioned s \<or> idle_for now s < ABANDONED_LINK_TTL_MS then p
                 else if has_pending_link now (sl_link s) then p
                 else discard rm_ok (sl_account s) True p) (ap_slots p) p"

section \<open>Steps\<close>

text \<open>
  Everything that can happen short of deleting an account. A drawn account id and a drawn session id are
  new: they are 128-bit random values.
\<close>

definition fresh_account :: "string \<Rightarrow> link_sys \<Rightarrow> bool" where
  "fresh_account acct y \<longleftrightarrow>
     is_account_id acct \<and> pool_get acct (ly_pool y) = None \<and> acct \<notin> ft_account ` set (ly_tasks y)"

inductive link_step :: "link_sys \<Rightarrow> link_sys \<Rightarrow> bool" where
  lk_start: "fresh_account acct y \<Longrightarrow> link_step y (snd (registry_start_link gs run env acct rid now name pg y))"
| lk_begin: "i \<notin> ft_id ` set (ly_tasks y) \<Longrightarrow> link_step y (snd (finish_begin i sid now ok y))"
| lk_answer: "link_step y (finish_answer i up y)"
| lk_commit: "link_step y (snd (finish_commit i del_state now y))"
| lk_settle: "link_step y (finish_settle i sidecar_ok rm_ok now y)"
| lk_cancel: "link_step y (snd (registry_cancel_link sid now rm_ok y))"
| lk_reap: "link_step y (y\<lparr>ly_pool := reap_uncommitted_links now rm_ok (ly_pool y)\<rparr>)"
| lk_run: "link_step y (y\<lparr>ly_pool := start_resident out (ly_pool y)\<rparr>)"
| lk_stop: "link_step y (y\<lparr>ly_pool := stop_all (ly_pool y)\<rparr>)"
| lk_wake: "link_step y (y\<lparr>ly_pool := snd (snd (ensure_resident now o1 acct (ly_pool y)))\<rparr>)"
| lk_demote: "link_step y (y\<lparr>ly_pool := snd (demote_pass now keep (ly_pool y))\<rparr>)"

inductive link_reach :: "link_sys \<Rightarrow> link_sys \<Rightarrow> bool" where
  lr_refl: "link_reach y y"
| lr_step: "link_reach y z \<Longrightarrow> link_step z w \<Longrightarrow> link_reach y w"

definition linked_start :: "account_pool \<Rightarrow> linked_account list \<Rightarrow> link_sys" where
  "linked_start p rows = \<lparr>ly_pool = p, ly_rows = rows, ly_tasks = []\<rparr>"

section \<open>What a step sees of the pool\<close>

definition slot_ids :: "account_pool \<Rightarrow> string set" where
  "slot_ids p = sl_account ` set (ap_slots p)"

definition committed :: "account_pool \<Rightarrow> string set" where
  "committed p = {a. case pool_get a p of None \<Rightarrow> False | Some s \<Rightarrow> sl_provisioned s}"

definition link_of :: "account_pool \<Rightarrow> string \<Rightarrow> link_slot" where
  "link_of p a = (case pool_get a p of None \<Rightarrow> None | Some s \<Rightarrow> sl_link s)"

lemma pool_get_None_iff: "pool_get a p = None \<longleftrightarrow> a \<notin> slot_ids p"
  by (auto simp: pool_get_def slot_ids_def find_None_iff)

lemma pool_get_account: "pool_get a p = Some s \<Longrightarrow> sl_account s = a \<and> s \<in> set (ap_slots p)"
  by (auto simp: pool_get_def dest!: find_Some_in)

lemma find_update:
  assumes "\<And>s. sl_account (f s) = sl_account s"
  shows "find (\<lambda>s. sl_account s = a) (sql_update P f ss) =
    map_option (\<lambda>s. if P s then f s else s) (find (\<lambda>s. sl_account s = a) ss)"
  by (induction ss) (auto simp: assms)

lemma find_map_keep:
  assumes "\<And>s. sl_account (f s) = sl_account s"
  shows "find (\<lambda>s. sl_account s = a) (map f ss) = map_option f (find (\<lambda>s. sl_account s = a) ss)"
  by (induction ss) (auto simp: assms)

text \<open>An operation that removes no slot, commits none and at most drops link sessions.\<close>

definition pool_tame :: "account_pool \<Rightarrow> account_pool \<Rightarrow> bool" where
  "pool_tame p q \<longleftrightarrow>
     slot_ids q = slot_ids p \<and> committed q = committed p \<and> ap_dirs q = ap_dirs p \<and>
     (\<forall>a. link_of q a = link_of p a \<or> link_of q a = None)"

lemma pool_tameI:
  assumes "\<And>a. pool_get a q = map_option (g a) (pool_get a p)" "ap_dirs q = ap_dirs p"
    and "\<And>a s. sl_provisioned (g a s) = sl_provisioned s" "\<And>a s. sl_link (g a s) = sl_link s \<or> sl_link (g a s) = None"
  shows "pool_tame p q"
proof -
  have "slot_ids q = slot_ids p"
    using assms(1) by (metis (no_types, lifting) pool_get_None_iff option.map_disc_iff set_eqI)
  moreover have "committed q = committed p"
    using assms(1,3) by (auto simp: committed_def split: option.split)
  moreover have "link_of q a = link_of p a \<or> link_of q a = None" for a
    using assms(1) [of a] assms(4) by (auto simp: link_of_def split: option.split)
  ultimately show ?thesis using assms(2) by (simp add: pool_tame_def)
qed

lemma pool_tame_refl: "pool_tame p p" by (simp add: pool_tame_def)

lemma pool_tame_trans: "pool_tame p q \<Longrightarrow> pool_tame q r \<Longrightarrow> pool_tame p r"
  unfolding pool_tame_def by metis

lemma upd_slot_get:
  assumes "\<And>s. sl_account (f s) = sl_account s"
  shows "pool_get a (upd_slot b f p) = map_option (\<lambda>s. if a = b then f s else s) (pool_get a p)"
  by (simp add: pool_get_def upd_slot_def find_update assms)
    (auto intro!: option.map_cong0 simp: dest!: find_Some_in split: option.split)

lemma upd_slot_dirs [simp]: "ap_dirs (upd_slot b f p) = ap_dirs p"
  by (simp add: upd_slot_def)

lemma upd_slot_tame:
  assumes "\<And>s. sl_account (f s) = sl_account s" "\<And>s. sl_provisioned (f s) = sl_provisioned s"
    "\<And>s. sl_link (f s) = sl_link s"
  shows "pool_tame p (upd_slot b f p)"
  by (rule pool_tameI [where g = "\<lambda>a s. if a = b then f s else s"]) (simp_all add: upd_slot_get assms)

lemma slot_flag_simps [simp]:
  "sl_provisioned (slot_touch now s) = sl_provisioned s" "sl_link (slot_touch now s) = sl_link s"
  "sl_provisioned (set_resident b s) = sl_provisioned s" "sl_link (set_resident b s) = sl_link s"
  "sl_provisioned (slot_stopped s) = sl_provisioned s" "sl_link (slot_stopped s) = None"
  "sl_provisioned (start_one out s) = sl_provisioned s" "sl_link (start_one out s) = sl_link s"
  "sl_provisioned (build_slot acct grp pv lu lk) = pv" "sl_link (build_slot acct grp pv lu lk) = None"
  by (auto simp: slot_touch_def set_resident_def slot_stopped_def start_one_def build_slot_def
      split: start_outcome.split)

lemma sessions_tame: "pool_tame p (p\<lparr>ap_sessions := m\<rparr>)" "pool_tame p (forget_session sid p)" "pool_tame p (remember_session sid acct p)"
  by (auto simp: pool_tame_def slot_ids_def committed_def link_of_def pool_get_def forget_session_def remember_session_def)

lemma tame_ops:
  "pool_tame p (set_finish acct f p)"
  "pool_tame p (start_resident out p)"
  "pool_tame p (stop_all p)"
  "pool_tame p (snd (demote_pass now keep p))"
  "pool_tame p (snd (note_activity now acct p))"
  "pool_tame p (snd (snd (ensure_resident now o1 acct p)))"
proof -
  show "pool_tame p (set_finish acct f p)" unfolding set_finish_def by (rule upd_slot_tame) simp_all
  show "pool_tame p (start_resident out p)"
    unfolding start_resident_def Let_def
    by (rule pool_tameI [where g = "\<lambda>a s. if sl_account s \<in> set (map sl_account (take (max_resident (ap_policy p))
          (sort_key recency_key (ap_slots p)))) then start_one out s else s"])
      (simp_all add: pool_get_def find_update)
  show "pool_tame p (stop_all p)"
    unfolding stop_all_def
    by (rule pool_tameI [where g = "\<lambda>a s. slot_stopped (set_resident False s)"]) (simp_all add: pool_get_def find_map_keep)
  show "pool_tame p (snd (demote_pass now keep p))"
    by (rule pool_tameI [where g = "\<lambda>a s. if sl_account s \<in> set (fst (demote_pass now keep p))
          then slot_stopped (set_resident False s) else s"])
      (auto simp: pool_get_def find_update demote_pass_def Let_def option.map_ident_strong)
  show "pool_tame p (snd (note_activity now acct p))"
    unfolding note_activity_def Let_def snd_conv by (rule upd_slot_tame) simp_all
  have touch: "pool_tame p (upd_slot acct (slot_touch now) p)" by (rule upd_slot_tame) simp_all
  have res: "pool_tame q (upd_slot acct (set_resident True) q)" for q by (rule upd_slot_tame) simp_all
  have run: "pool_tame q (upd_slot acct (\<lambda>s. set_resident True (s\<lparr>sl_running := True\<rparr>)) q)" for q
    by (rule upd_slot_tame) simp_all
  show "pool_tame p (snd (snd (ensure_resident now o1 acct p)))"
    using touch pool_tame_trans [OF touch res] pool_tame_trans [OF touch run]
    by (auto simp: ensure_resident_def Let_def split: option.split start_outcome.split)
qed

lemma discard_view:
  "pool_get a (discard ok acct rm p) = (if a = acct then None else pool_get a p)"
  "a \<noteq> acct \<Longrightarrow> ap_dirs (discard ok acct rm p) a = ap_dirs p a"
proof -
  have f: "find (\<lambda>s. sl_account s = a) (slots_remove acct ss) =
      (if a = acct then None else find (\<lambda>s. sl_account s = a) ss)" for a ss
    by (induction ss) (auto simp: slots_remove_def)
  have r: "ap_slots (remove_slot_directory ok acct q) = ap_slots q" for q
    by (auto simp: remove_slot_directory_def split: option.split)
  show "pool_get a (discard ok acct rm p) = (if a = acct then None else pool_get a p)"
  proof (cases "pool_get acct p")
    case None
    then show ?thesis by (simp add: discard_def)
  next
    case (Some s)
    then show ?thesis using f r by (simp add: discard_def Let_def pool_get_def)
  qed
  show "a \<noteq> acct \<Longrightarrow> ap_dirs (discard ok acct rm p) a = ap_dirs p a"
    by (auto simp: discard_def remove_slot_directory_def Let_def split: option.split)
qed

lemma set_link_view:
  "pool_get a (set_link acct link p) = map_option (\<lambda>s. if a = acct then s\<lparr>sl_link := link\<rparr> else s) (pool_get a p)"
  "ap_dirs (set_link acct link p) = ap_dirs p"
  by (simp_all add: set_link_def upd_slot_get)

lemma set_link_committed [simp]:
  "slot_ids (set_link acct link p) = slot_ids p" "committed (set_link acct link p) = committed p"
proof -
  have "a \<in> slot_ids (set_link acct link p) \<longleftrightarrow> a \<in> slot_ids p" for a
    using pool_get_None_iff [of a p] pool_get_None_iff [of a "set_link acct link p"] by (simp add: set_link_view)
  then show "slot_ids (set_link acct link p) = slot_ids p" by blast
  show "committed (set_link acct link p) = committed p"
    by (auto simp: committed_def set_link_view split: option.split)
qed

lemma link_of_set_link:
  "link_of (set_link acct link p) a = (if a = acct \<and> a \<in> slot_ids p then link else link_of p a)"
  using pool_get_None_iff [of a p] by (cases "pool_get a p") (simp_all add: link_of_def set_link_view)

section \<open>The invariant\<close>

definition is_committed_task :: "finish_task \<Rightarrow> bool" where
  "is_committed_task t \<longleftrightarrow> (case ft_phase t of Committed _ \<Rightarrow> True | _ \<Rightarrow> False)"

text \<open>
  Every slot has its directory; a committed slot has no link session; a finish that has committed but not
  yet settled is the only one of its slot, whose session is spent and which is not committed yet.
\<close>

definition link_inv :: "link_sys \<Rightarrow> bool" where
  "link_inv y \<longleftrightarrow>
     distinct (map ft_id (ly_tasks y)) \<and>
     (\<forall>a \<in> slot_ids (ly_pool y). ap_dirs (ly_pool y) a \<noteq> None) \<and>
     (\<forall>a \<in> committed (ly_pool y). link_of (ly_pool y) a = None) \<and>
     (\<forall>t \<in> set (ly_tasks y). is_committed_task t \<longrightarrow>
        link_of (ly_pool y) (ft_account t) = None \<and> ft_account t \<notin> committed (ly_pool y)) \<and>
     (\<forall>t \<in> set (ly_tasks y). \<forall>u \<in> set (ly_tasks y).
        is_committed_task t \<longrightarrow> is_committed_task u \<longrightarrow> ft_account t = ft_account u \<longrightarrow> t = u)"

text \<open>What every step keeps: the committed accounts, each with its directory.\<close>

definition keeps_committed :: "link_sys \<Rightarrow> link_sys \<Rightarrow> bool" where
  "keeps_committed y z \<longleftrightarrow> committed (ly_pool y) \<subseteq> committed (ly_pool z)"

lemma tame_inv:
  assumes "link_inv y" "pool_tame (ly_pool y) q"
  shows "link_inv (y\<lparr>ly_pool := q\<rparr>) \<and> keeps_committed y (y\<lparr>ly_pool := q\<rparr>)"
  using assms unfolding link_inv_def keeps_committed_def pool_tame_def by (simp; metis)

lemma discard_inv:
  assumes "link_inv y" "acct \<notin> committed (ly_pool y)"
  shows "link_inv (y\<lparr>ly_pool := discard ok acct rm (ly_pool y)\<rparr>) \<and>
    keeps_committed y (y\<lparr>ly_pool := discard ok acct rm (ly_pool y)\<rparr>)"
proof -
  let ?q = "discard ok acct rm (ly_pool y)"
  have ids: "a \<in> slot_ids ?q \<Longrightarrow> a \<noteq> acct \<and> a \<in> slot_ids (ly_pool y)" for a
    using discard_view(1) [of a ok acct rm "ly_pool y"] pool_get_None_iff [of a ?q] pool_get_None_iff [of a "ly_pool y"]
    by (auto split: if_splits)
  have com: "committed ?q = committed (ly_pool y)"
    using assms(2) by (auto simp: committed_def discard_view)
  have lk: "link_of ?q a = (if a = acct then None else link_of (ly_pool y) a)" for a
    by (simp add: link_of_def discard_view)
  show ?thesis
    using assms(1) ids com lk discard_view(2) [of _ acct ok rm "ly_pool y"]
    unfolding link_inv_def keeps_committed_def by auto
qed

lemma end_task_inv:
  assumes "link_inv y" shows "link_inv (end_task i y)" "ly_pool (end_task i y) = ly_pool y"
  using assms by (auto simp: link_inv_def end_task_def intro: distinct_map_filter)

lemma set_link_inv:
  assumes "link_inv y" "link = link_of (ly_pool y) acct \<or> link = None"
  shows "link_inv (y\<lparr>ly_pool := set_link acct link (ly_pool y)\<rparr>) \<and>
    keeps_committed y (y\<lparr>ly_pool := set_link acct link (ly_pool y)\<rparr>)"
  using assms unfolding link_inv_def keeps_committed_def
  by (auto simp: link_of_set_link set_link_view(2))

lemma keeps_trans: "keeps_committed x y \<Longrightarrow> keeps_committed y z \<Longrightarrow> keeps_committed x z"
  by (auto simp: keeps_committed_def)

lemma view_inv:
  assumes "link_inv y" "\<And>a. a \<in> slot_ids q \<Longrightarrow> ap_dirs q a \<noteq> None" "committed q = committed (ly_pool y)"
    "\<And>a. link_of q a = link_of (ly_pool y) a \<or> link_of q a = None \<or>
       a \<notin> committed (ly_pool y) \<and> (\<forall>t \<in> set (ly_tasks y). is_committed_task t \<longrightarrow> ft_account t \<noteq> a)"
  shows "link_inv (y\<lparr>ly_pool := q\<rparr>) \<and> keeps_committed y (y\<lparr>ly_pool := q\<rparr>)"
proof -
  have "link_of q a = None" if "a \<in> committed (ly_pool y)" for a
    using assms(1,4) that unfolding link_inv_def by metis
  moreover have "link_of q (ft_account t) = None" if "t \<in> set (ly_tasks y)" "is_committed_task t" for t
    using assms(1,4) that unfolding link_inv_def by metis
  ultimately show ?thesis
    using assms(1-3) unfolding link_inv_def keeps_committed_def by auto
qed

text \<open>Provisioning a fresh account: a slot is added (or none), no other slot or directory changes.\<close>

lemma slots_insert_get:
  assumes "acct \<notin> sl_account ` set ss" "sl_account x = acct"
  shows "find (\<lambda>s. sl_account s = a) (slots_insert x ss) =
    (if acct = a then Some x else find (\<lambda>s. sl_account s = a) ss)"
proof -
  have "filter (\<lambda>s. sl_account s \<noteq> sl_account x) ss = ss"
    using assms by (intro filter_True) (metis imageI)
  moreover have "find (\<lambda>s. sl_account s = a) (insort_key sl_account x ss) =
      (if sl_account x = a then Some x else find (\<lambda>s. sl_account s = a) ss)"
    using assms by (induction ss) auto
  ultimately show ?thesis using assms(2) by (simp add: slots_insert_def)
qed

lemma provision_view:
  assumes "pool_get acct p = None" "provision_slot env acct now grp p = (r, q)"
  shows "(case r of
       Inl _ \<Rightarrow> (\<forall>a. pool_get a q = pool_get a p)
     | Inr _ \<Rightarrow> (\<forall>a. pool_get a q = (if acct = a then Some (build_slot acct grp False now True) else pool_get a p)) \<and>
         ap_dirs q acct \<noteq> None) \<and>
    (\<forall>a. a \<noteq> acct \<longrightarrow> ap_dirs q a = ap_dirs p a)"
proof -
  have "acct \<notin> sl_account ` set (ap_slots p)" using assms(1) by (simp add: pool_get_None_iff slot_ids_def)
  note ins = slots_insert_get [OF this, of "build_slot acct grp False now True"]
  have make: "make_dir acct dirs a = dirs a" "write_file acct f dirs a = dirs a" "remove_dir acct dirs a = dirs a"
    if "a \<noteq> acct" for a dirs f
    using that by (auto simp: make_dir_def write_file_def remove_dir_def split: option.split)
  have made: "write_file acct f (make_dir acct dirs) acct \<noteq> None" for dirs f
    by (auto simp: make_dir_def write_file_def split: option.split)
  from assms(2) show ?thesis
    using ins make made
    by (auto simp: provision_slot_def Let_def pool_get_def split: if_splits)
qed

lemma committed_of_view:
  "(\<And>a. pool_get a q = (if acct = a then Some s else pool_get a p)) \<Longrightarrow> pool_get acct p = None \<Longrightarrow>
   \<not> sl_provisioned s \<Longrightarrow> committed q = committed p"
  by (auto simp: committed_def)

lemma begin_step_inv:
  assumes "link_inv y" "fresh_account acct y"
  shows "link_inv (snd (pool_start_link env acct rid now name grp y)) \<and>
    keeps_committed y (snd (pool_start_link env acct rid now name grp y))"
proof -
  have none: "pool_get acct (ly_pool y) = None" and notask: "\<forall>t \<in> set (ly_tasks y). ft_account t \<noteq> acct"
    using assms(2) by (auto simp: fresh_account_def)
  obtain r q where pv: "provision_slot (se_fs env) acct now grp (ly_pool y) = (r, q)"
    by (cases "provision_slot (se_fs env) acct now grp (ly_pool y)")
  note view = provision_view [OF none pv]
  have dirs: "ap_dirs (ly_pool y) a \<noteq> None" if "a \<in> slot_ids (ly_pool y)" for a
    using assms(1) that by (simp add: link_inv_def)
  show ?thesis
  proof (cases r)
    case (Inl e)
    then have get: "pool_get a q = pool_get a (ly_pool y)" for a using view by simp
    have "link_inv (y\<lparr>ly_pool := q\<rparr>) \<and> keeps_committed y (y\<lparr>ly_pool := q\<rparr>)"
    proof (rule view_inv [OF assms(1)])
      fix a assume "a \<in> slot_ids q"
      then have "a \<in> slot_ids (ly_pool y)" using get pool_get_None_iff by metis
      then show "ap_dirs q a \<noteq> None" using dirs view none pool_get_None_iff by metis
    qed (simp_all add: committed_def link_of_def get)
    then show ?thesis using Inl pv by (simp add: pool_start_link_def)
  next
    case (Inr slot)
    let ?s = "build_slot acct grp False now True"
    have get: "pool_get a q = (if acct = a then Some ?s else pool_get a (ly_pool y))" for a
      using view Inr by simp
    have qdirs: "ap_dirs q a \<noteq> None" if "a \<in> slot_ids q" for a
    proof (cases "a = acct")
      case True
      then show ?thesis using view Inr by simp
    next
      case False
      then have "a \<in> slot_ids (ly_pool y)" using that get [of a] pool_get_None_iff by metis
      then show ?thesis using dirs view False by metis
    qed
    have qcom: "committed q = committed (ly_pool y)" by (rule committed_of_view [OF get none]) simp
    have qlink: "link_of q a = link_of (ly_pool y) a" for a using none by (auto simp: link_of_def get)
    have q: "link_inv (y\<lparr>ly_pool := q\<rparr>) \<and> keeps_committed y (y\<lparr>ly_pool := q\<rparr>)"
      by (rule view_inv [OF assms(1) qdirs qcom]) (simp_all add: qlink)
    have notc: "acct \<notin> committed (ly_pool y)" using none by (simp add: committed_def)
    let ?q1 = "upd_slot acct (\<lambda>s. s\<lparr>sl_running := se_engine env = StartedRunning\<rparr>) q"
    have q1: "pool_tame q ?q1" by (rule upd_slot_tame) simp_all
    have t1: "link_inv (y\<lparr>ly_pool := ?q1\<rparr>) \<and> keeps_committed (y\<lparr>ly_pool := q\<rparr>) (y\<lparr>ly_pool := ?q1\<rparr>)"
      using tame_inv [of "y\<lparr>ly_pool := q\<rparr>" ?q1] q q1 by simp
    have gone: "link_inv (y\<lparr>ly_pool := rollback_account_slot rm acct z\<rparr>) \<and>
        keeps_committed y (y\<lparr>ly_pool := rollback_account_slot rm acct z\<rparr>)"
      if "link_inv (y\<lparr>ly_pool := z\<rparr>)" "keeps_committed y (y\<lparr>ly_pool := z\<rparr>)" "acct \<notin> committed z" for z rm
      using discard_inv [OF that(1), of acct rm True] that(2,3)
      by (auto simp: rollback_account_slot_def intro: keeps_trans)
    have notc': "acct \<notin> committed q" "acct \<notin> committed ?q1" using notc qcom q1 by (auto simp: pool_tame_def)
    show ?thesis
    proof (cases "se_engine env = StartFailed")
      case True
      then show ?thesis using gone [of q "se_rm_ok env"] q notc' pv Inr by (simp add: pool_start_link_def)
    next
      case False
      have keep1: "keeps_committed y (y\<lparr>ly_pool := ?q1\<rparr>)" using q t1 keeps_trans by blast
      show ?thesis
      proof (cases "supervisor_start_link rid now name (se_uri env) grp (ly_rows y) (se_engine env = StartedRunning) None")
        case (Pair r2 link)
        show ?thesis
        proof (cases r2)
          case (Inl e)
          then show ?thesis
            using gone [of ?q1 "se_rm_ok env"] t1 keep1 notc' pv \<open>r = Inr slot\<close> False Pair
            by (simp add: pool_start_link_def Let_def)
        next
          case (Inr sid)
          let ?q2 = "set_link acct link ?q1"
          have s2: "link_inv (y\<lparr>ly_pool := ?q2\<rparr>) \<and> keeps_committed (y\<lparr>ly_pool := ?q1\<rparr>) (y\<lparr>ly_pool := ?q2\<rparr>)"
          proof -
            have "link_inv ((y\<lparr>ly_pool := ?q1\<rparr>)\<lparr>ly_pool := ?q2\<rparr>) \<and>
                keeps_committed (y\<lparr>ly_pool := ?q1\<rparr>) ((y\<lparr>ly_pool := ?q1\<rparr>)\<lparr>ly_pool := ?q2\<rparr>)"
              by (rule view_inv) (use t1 notask notc' in \<open>auto simp: link_of_set_link set_link_view(2) link_inv_def\<close>)
            then show ?thesis by simp
          qed
          let ?q3 = "snd (note_activity now acct (remember_session sid acct ?q2))"
          have "pool_tame ?q2 ?q3" by (rule pool_tame_trans [OF sessions_tame(3) tame_ops(5)])
          then have t3: "link_inv (y\<lparr>ly_pool := ?q3\<rparr>)" "keeps_committed (y\<lparr>ly_pool := ?q2\<rparr>) (y\<lparr>ly_pool := ?q3\<rparr>)"
            using tame_inv [of "y\<lparr>ly_pool := ?q2\<rparr>" ?q3] s2 by simp_all
          have fin: "snd (pool_start_link env acct rid now name grp y) = y\<lparr>ly_pool := ?q3\<rparr>"
            using pv \<open>r = Inr slot\<close> False Pair Inr by (simp add: pool_start_link_def Let_def)
          have "keeps_committed y (y\<lparr>ly_pool := ?q3\<rparr>)"
            using keeps_trans [OF keeps_trans [OF keep1 conjunct2 [OF s2]] t3(2)] .
          then show ?thesis unfolding fin using t3(1) by blast
        qed
      qed
    qed
  qed
qed

lemma require_active_link_keeps: "snd (require_active_link sid now l) = l \<or> snd (require_active_link sid now l) = None"
  by (auto simp: require_active_link_def split: option.split)

lemma take_link_keeps: "snd (take_link_session sid now l) = l \<or> snd (take_link_session sid now l) = None"
  using require_active_link_keeps [of sid now l] by (auto simp: take_link_session_def split: prod.splits sum.splits)

lemma peek_link_keeps: "snd (peek_link_for_finish sid now l) = l \<or> snd (peek_link_for_finish sid now l) = None"
  using require_active_link_keeps [of sid now l] by (auto simp: peek_link_for_finish_def split: prod.splits sum.splits)

lemma link_owner_Some:
  assumes "link_owner sid p = Some s"
  shows "pool_get (sl_account s) p = Some s" "link_of p (sl_account s) = sl_link s"
    "sl_provisioned s = (sl_account s \<in> committed p)"
proof -
  show g: "pool_get (sl_account s) p = Some s"
    using assms pool_get_account by (auto simp: link_owner_def split: option.splits)
  show "link_of p (sl_account s) = sl_link s" by (simp add: link_of_def g)
  show "sl_provisioned s = (sl_account s \<in> committed p)" by (simp add: committed_def g)
qed

text \<open>A tame operation, then the session of one slot kept or dropped, then another tame operation.\<close>

lemma tame_set_link:
  assumes "pool_tame p q" "link = link_of p acct \<or> link = None"
  shows "pool_tame p (set_link acct link q)"
proof -
  have "link_of (set_link acct link q) a = link_of p a \<or> link_of (set_link acct link q) a = None" for a
    using assms by (auto simp: link_of_set_link pool_tame_def)
  then show ?thesis using assms(1) by (simp add: pool_tame_def set_link_view(2))
qed

lemma add_task_inv:
  assumes "link_inv y" "ft_id t \<notin> ft_id ` set (ly_tasks y)" "\<not> is_committed_task t"
  shows "link_inv (y\<lparr>ly_tasks := ly_tasks y @ [t]\<rparr>)"
  using assms by (auto simp: link_inv_def)

lemma begin_finish_inv:
  assumes "link_inv y" "i \<notin> ft_id ` set (ly_tasks y)"
  shows "link_inv (snd (finish_begin i sid now ok y)) \<and> keeps_committed y (snd (finish_begin i sid now ok y))"
proof (cases "link_owner sid (ly_pool y)")
  case None
  then show ?thesis using assms by (simp add: finish_begin_def keeps_committed_def)
next
  case (Some s)
  let ?p = "set_finish (sl_account s) (Some sid) (ly_pool y)"
  obtain r link where pk: "peek_link_for_finish sid now (sl_link s) = (r, link)"
    by (cases "peek_link_for_finish sid now (sl_link s)")
  have "link = link_of (ly_pool y) (sl_account s) \<or> link = None"
    using peek_link_keeps [of sid now "sl_link s"] pk link_owner_Some(2) [OF Some] by simp
  then have t1: "pool_tame (ly_pool y) (set_link (sl_account s) link ?p)"
    by (rule tame_set_link [OF tame_ops(1)])
  have t2: "pool_tame (ly_pool y) (set_finish (sl_account s) None (set_link (sl_account s) link ?p))"
    by (rule pool_tame_trans [OF t1 tame_ops(1)])
  note i1 = tame_inv [OF assms(1) t1] and i2 = tame_inv [OF assms(1) t2]
  let ?t = "\<lparr>ft_id = i, ft_account = sl_account s, ft_group = sl_group s, ft_session = sid, ft_phase = Waiting\<rparr>"
  have i3: "link_inv (y\<lparr>ly_pool := set_link (sl_account s) link ?p, ly_tasks := ly_tasks y @ [?t]\<rparr>)"
    using add_task_inv [OF conjunct1 [OF i1], of ?t] assms(2) by (simp add: is_committed_task_def)
  have k3: "keeps_committed y (y\<lparr>ly_pool := set_link (sl_account s) link ?p, ly_tasks := ly_tasks y @ [?t]\<rparr>)"
    using i1 by (simp add: keeps_committed_def)
  show ?thesis
    using Some pk i1 i2 i3 k3 assms(1)
    by (cases r) (auto simp: finish_begin_def Let_def keeps_committed_def)
qed

lemma set_task_inv:
  assumes "link_inv y" "\<And>x. ph \<noteq> Committed x"
  shows "link_inv (set_task i ph y)"
proof -
  have un: "\<not> is_committed_task (t\<lparr>ft_phase := ph\<rparr>)" for t :: finish_task
    using assms(2) by (auto simp: is_committed_task_def split: finish_phase.split)
  have old: "t \<in> set (ly_tasks y) \<and> is_committed_task t"
    if "t \<in> set (ly_tasks (set_task i ph y))" "is_committed_task t" for t
    using that un by (auto simp: set_task_def elim!: sql_update_memE)
  have pool: "ly_pool (set_task i ph y) = ly_pool y" by (simp add: set_task_def)
  have keys: "map ft_id (ly_tasks (set_task i ph y)) = map ft_id (ly_tasks y)"
    by (simp add: set_task_def sql_update_keys)
  show ?thesis
    unfolding link_inv_def pool keys using assms(1) old unfolding link_inv_def by blast
qed

lemma clear_finish_tame: "pool_tame p (snd (clear_link_finish acct sid p))"
  by (auto simp: clear_link_finish_def tame_ops pool_tame_refl split: option.split)

lemma answer_inv:
  assumes "link_inv y"
  shows "link_inv (finish_answer i up y) \<and> keeps_committed y (finish_answer i up y)"
proof (cases "find (\<lambda>t. ft_id t = i) (ly_tasks y)")
  case None
  then show ?thesis using assms by (simp add: finish_answer_def keeps_committed_def)
next
  case (Some t)
  let ?p = "snd (clear_link_finish (ft_account t) (ft_session t) (ly_pool y))"
  let ?y = "y\<lparr>ly_pool := ?p\<rparr>"
  have y: "link_inv ?y" "keeps_committed y ?y" using tame_inv [OF assms clear_finish_tame] by auto
  have e: "link_inv (end_task i ?y)" "keeps_committed y (end_task i ?y)"
    using end_task_inv [OF y(1), of i] y(2) by (simp_all add: keeps_committed_def)
  have st: "link_inv (set_task i (Answered n) ?y)" "keeps_committed y (set_task i (Answered n) ?y)" for n
    using set_task_inv [OF y(1), of "Answered n" i] y(2) by (simp_all add: keeps_committed_def set_task_def)
  show ?thesis
    using Some e st assms
    by (cases "clear_link_finish (ft_account t) (ft_session t) (ly_pool y)")
      (auto simp: finish_answer_def Let_def keeps_committed_def split: upstream.split)
qed

text \<open>A commit needs the live session of the slot and spends it.\<close>

lemma require_active_link_Inr:
  "require_active_link sid now l = (Inr session, l') \<Longrightarrow> l' = l \<and> l = Some session \<and> ls_session_id session = sid"
  by (auto simp: require_active_link_def split: option.splits if_splits)

lemma take_link_after:
  assumes "require_active_link sid now l = (Inr session, l')"
  shows "take_link_session sid now l' = (Inr session, None)"
proof -
  have "l' = l" using require_active_link_Inr [OF assms] by simp
  then show ?thesis using assms by (simp add: take_link_session_def)
qed

lemma complete_link_cases:
  assumes "complete_link_session_with_id sid number grp del_state preferred now l rows = (r, l', rows')"
  shows "(\<exists>e. r = Inl e \<and> rows' = rows \<and> (l' = l \<or> l' = None)) \<or>
    (\<exists>session i. r = Inr i \<and> l = Some session \<and> ls_session_id session = sid \<and> \<not> link_is_expired session now \<and>
       l' = None \<and> upsert_account_from_signal_with_id number (Some now) grp preferred rows = (i, rows'))"
proof (cases "require_active_link sid now l")
  case (Pair r1 l1)
  show ?thesis
  proof (cases r1)
    case (Inl e)
    then show ?thesis
      using assms Pair require_active_link_keeps [of sid now l] by (auto simp: complete_link_session_with_id_def)
  next
    case (Inr session)
    note ra = require_active_link_Inr [OF Pair [unfolded Inr]]
    have live: "\<not> link_is_expired session now"
      using Pair Inr ra by (auto simp: require_active_link_def split: if_splits)
    have tk: "take_link_session sid now l1 = (Inr session, None)"
      using take_link_after [of sid now l session l1] Pair Inr by simp
    obtain i rs where up: "upsert_account_from_signal_with_id number (Some now) grp preferred rows = (i, rs)"
      by (cases "upsert_account_from_signal_with_id number (Some now) grp preferred rows")
    show ?thesis
      using assms Pair Inr ra live tk up
      by (cases del_state) (auto simp: complete_link_session_with_id_def split: if_splits)
  qed
qed

lemma commit_inv:
  assumes "link_inv y"
  shows "link_inv (snd (finish_commit i del_state now y)) \<and> keeps_committed y (snd (finish_commit i del_state now y))"
proof (cases "find (\<lambda>t. ft_id t = i) (ly_tasks y)")
  case None
  then show ?thesis using assms by (simp add: finish_commit_def keeps_committed_def)
next
  case (Some t)
  have t: "t \<in> set (ly_tasks y)" "ft_id t = i" using find_Some_in [OF Some] by auto
  show ?thesis
  proof (cases "ft_phase t")
    case (Answered number)
    let ?acct = "ft_account t"
    let ?l = "link_of (ly_pool y) ?acct"
    obtain r l' rows' where c: "complete_link_session_with_id (ft_session t) number (ft_group t) del_state ?acct now ?l (ly_rows y) = (r, l', rows')"
      by (cases "complete_link_session_with_id (ft_session t) number (ft_group t) del_state ?acct now ?l (ly_rows y)")
    let ?z = "y\<lparr>ly_pool := set_link ?acct l' (ly_pool y), ly_rows := rows'\<rparr>"
    have keep: "l' = ?l \<or> l' = None" using complete_link_cases [OF c] by auto
    have z: "link_inv ?z" "keeps_committed y ?z"
      using set_link_inv [OF assms, of l' ?acct] keep by (auto simp: link_inv_def keeps_committed_def)
    show ?thesis
    proof (cases r)
      case (Inl e)
      have "snd (finish_commit i del_state now y) = end_task i ?z"
        using Some Answered c Inl by (simp add: finish_commit_def link_of_def)
      then show ?thesis using end_task_inv [OF z(1), of i] z(2) by (simp add: keeps_committed_def)
    next
      case (Inr summary)
      then obtain session where sess: "?l = Some session" "l' = None" using complete_link_cases [OF c] by auto
      let ?w = "set_task i (Committed summary) ?z"
      have w: "snd (finish_commit i del_state now y) = ?w"
        using Some Answered c Inr by (simp add: finish_commit_def link_of_def)
      have free: "?acct \<notin> committed (ly_pool y)" "\<not> is_committed_task u"
        if "u \<in> set (ly_tasks y)" "ft_account u = ?acct" for u
        using assms sess(1) that unfolding link_inv_def by (metis option.distinct(1))+
      have notc: "?acct \<notin> committed (ly_pool y)"
        using assms sess(1) unfolding link_inv_def by (metis option.distinct(1))
      have pool: "ly_pool ?w = set_link ?acct None (ly_pool y)" by (simp add: set_task_def sess(2))
      have in_w: "u \<in> set (ly_tasks y) \<and> ft_account u \<noteq> ?acct \<or> u = t\<lparr>ft_phase := Committed summary\<rparr>"
        if "u \<in> set (ly_tasks ?w)" "is_committed_task u" for u
        using that(1)
      proof (simp add: set_task_def, elim sql_update_memE)
        fix v assume v: "v \<in> set (ly_tasks y)" "ft_id v = i" "u = v\<lparr>ft_phase := Committed summary\<rparr>"
        have "distinct (map ft_id (ly_tasks y))" using assms by (simp add: link_inv_def)
        then have "v = t" using key_unique [of ft_id "ly_tasks y" v t] v(1,2) t by simp
        then show ?thesis using v(3) by simp
      next
        assume "u \<in> set (ly_tasks y)" "ft_id u \<noteq> i"
        then show ?thesis using free that(2) by blast
      qed
      have "link_inv ?w"
        unfolding link_inv_def pool
      proof (intro conjI ballI impI)
        show "distinct (map ft_id (ly_tasks ?w))"
          using assms by (simp add: set_task_def sql_update_keys link_inv_def)
      next
        fix a assume "a \<in> slot_ids (set_link ?acct None (ly_pool y))"
        then show "ap_dirs (set_link ?acct None (ly_pool y)) a \<noteq> None"
          using assms by (simp add: link_inv_def set_link_view(2))
      next
        fix a assume "a \<in> committed (set_link ?acct None (ly_pool y))"
        then show "link_of (set_link ?acct None (ly_pool y)) a = None"
          using assms by (simp add: link_inv_def link_of_set_link)
      next
        fix u assume u: "u \<in> set (ly_tasks ?w)" "is_committed_task u"
        have no_slot: "link_of (set_link ?acct None (ly_pool y)) ?acct = None"
          by (cases "pool_get ?acct (ly_pool y)") (simp_all add: link_of_def set_link_view)
        show "link_of (set_link ?acct None (ly_pool y)) (ft_account u) = None"
          using in_w [OF u] u(2) assms no_slot by (auto simp: link_inv_def link_of_set_link)
        show "ft_account u \<notin> committed (set_link ?acct None (ly_pool y))"
          using in_w [OF u] u(2) assms notc by (auto simp: link_inv_def)
      next
        fix u v assume uv: "u \<in> set (ly_tasks ?w)" "v \<in> set (ly_tasks ?w)" "is_committed_task u"
          "is_committed_task v" "ft_account u = ft_account v"
        show "u = v"
          using in_w [OF uv(1,3)] in_w [OF uv(2,4)] uv(3-5) assms unfolding link_inv_def by auto
      qed
      moreover have "keeps_committed y ?w" by (simp add: keeps_committed_def pool)
      ultimately show ?thesis unfolding w ..
    qed
  qed (use Some assms in \<open>simp_all add: finish_commit_def keeps_committed_def\<close>)
qed

lemma mark_view:
  "pool_get a (mark_provisioned ok acct grp p) =
     map_option (\<lambda>s. if a = acct then s\<lparr>sl_provisioned := True\<rparr> else s) (pool_get a p)"
  "ap_dirs (mark_provisioned ok acct grp p) = ap_dirs p"
proof -
  have "pool_get a (mark_provisioned ok acct grp p) = pool_get a (upd_slot acct (\<lambda>s. s\<lparr>sl_provisioned := True\<rparr>) p)"
    by (simp add: mark_provisioned_def Let_def pool_get_def)
  then show "pool_get a (mark_provisioned ok acct grp p) =
     map_option (\<lambda>s. if a = acct then s\<lparr>sl_provisioned := True\<rparr> else s) (pool_get a p)"
    by (simp add: upd_slot_get)
  show "ap_dirs (mark_provisioned ok acct grp p) = ap_dirs p"
    by (simp add: mark_provisioned_def Let_def)
qed

lemma settle_inv:
  assumes "link_inv y"
  shows "link_inv (finish_settle i sidecar_ok rm_ok now y) \<and> keeps_committed y (finish_settle i sidecar_ok rm_ok now y)"
proof (cases "find (\<lambda>t. ft_id t = i) (ly_tasks y)")
  case None
  then show ?thesis using assms by (simp add: finish_settle_def keeps_committed_def)
next
  case (Some t)
  have t: "t \<in> set (ly_tasks y)" "ft_id t = i" using find_Some_in [OF Some] by auto
  let ?acct = "ft_account t"
  show ?thesis
  proof (cases "ft_phase t")
    case (Committed summary)
    then have ct: "is_committed_task t" by (simp add: is_committed_task_def)
    have tc: "link_of (ly_pool y) ?acct = None" "?acct \<notin> committed (ly_pool y)"
      using assms t ct by (auto simp: link_inv_def)
    have alone: "ft_account u \<noteq> ?acct" if "u \<in> set (ly_tasks (end_task i y))" "is_committed_task u" for u
      using that assms t ct by (auto simp: end_task_def link_inv_def)
    show ?thesis
    proof (cases "summary = ?acct")
      case True
      let ?m = "mark_provisioned sidecar_ok ?acct (ft_group t) (ly_pool y)"
      let ?q = "snd (note_activity now ?acct (forget_session (ft_session t) ?m))"
      let ?z = "end_task i (y\<lparr>ly_pool := ?m\<rparr>)"
      have com: "committed ?m \<subseteq> insert ?acct (committed (ly_pool y))" "committed (ly_pool y) \<subseteq> committed ?m"
        by (auto simp: committed_def mark_view split: option.splits if_splits)
      have lk: "link_of ?m a = link_of (ly_pool y) a" for a
        by (simp add: link_of_def mark_view option.case_eq_if) (auto simp: option.map_sel)
      have ids: "a \<in> slot_ids ?m \<longleftrightarrow> a \<in> slot_ids (ly_pool y)" for a
        using pool_get_None_iff [of a ?m] pool_get_None_iff [of a "ly_pool y"] by (simp add: mark_view)
      have tasks: "set (ly_tasks ?z) \<subseteq> set (ly_tasks y)" "ly_pool ?z = ?m" "ly_tasks ?z = ly_tasks (end_task i y)"
        by (auto simp: end_task_def)
      have z: "link_inv ?z"
        unfolding link_inv_def tasks(2)
      proof (intro conjI ballI impI)
        show "distinct (map ft_id (ly_tasks ?z))"
          using end_task_inv(1) [OF assms, of i] by (simp add: tasks(3) link_inv_def)
        fix a
        show "a \<in> slot_ids ?m \<Longrightarrow> ap_dirs ?m a \<noteq> None"
          using assms by (simp add: ids mark_view(2) link_inv_def)
        show "a \<in> committed ?m \<Longrightarrow> link_of ?m a = None"
          using assms com(1) tc(1) by (auto simp: lk link_inv_def)
      next
        fix u assume u: "u \<in> set (ly_tasks ?z)" "is_committed_task u"
        have "u \<in> set (ly_tasks y)" "ft_account u \<noteq> ?acct" using u tasks alone by auto
        then show "link_of ?m (ft_account u) = None" "ft_account u \<notin> committed ?m"
          using u(2) assms com(1) by (auto simp: lk link_inv_def)
      next
        fix u v assume "u \<in> set (ly_tasks ?z)" "v \<in> set (ly_tasks ?z)" "is_committed_task u"
          "is_committed_task v" "ft_account u = ft_account v"
        then show "u = v" using assms tasks(1) unfolding link_inv_def by blast
      qed
      have "pool_tame ?m ?q" by (rule pool_tame_trans [OF sessions_tame(2) tame_ops(5)])
      then have f: "link_inv (?z\<lparr>ly_pool := ?q\<rparr>)" "keeps_committed ?z (?z\<lparr>ly_pool := ?q\<rparr>)"
        using tame_inv [OF z, of ?q] tasks(2) by auto
      have fin: "finish_settle i sidecar_ok rm_ok now y = ?z\<lparr>ly_pool := ?q\<rparr>"
        using Some Committed True by (simp add: finish_settle_def end_task_def)
      have "keeps_committed y ?z" using com(2) tasks(2) by (simp add: keeps_committed_def)
      then show ?thesis unfolding fin using f keeps_trans by blast
    next
      case False
      let ?f = "forget_session (ft_session t) (ly_pool y)"
      let ?y1 = "y\<lparr>ly_pool := ?f\<rparr>"
      have y1: "link_inv ?y1" "keeps_committed y ?y1" using tame_inv [OF assms sessions_tame(2)] by auto
      have "?acct \<notin> committed ?f" using tc(2) sessions_tame(2) [of "ly_pool y" "ft_session t"] by (simp add: pool_tame_def)
      then have d: "link_inv (?y1\<lparr>ly_pool := discard rm_ok ?acct True ?f\<rparr>)"
        "keeps_committed ?y1 (?y1\<lparr>ly_pool := discard rm_ok ?acct True ?f\<rparr>)"
        using discard_inv [OF y1(1), of ?acct rm_ok True] by auto
      have fin: "finish_settle i sidecar_ok rm_ok now y = end_task i (?y1\<lparr>ly_pool := discard rm_ok ?acct True ?f\<rparr>)"
        using Some Committed False by (simp add: finish_settle_def rollback_account_slot_def)
      show ?thesis unfolding fin
        using end_task_inv [OF d(1), of i] keeps_trans [OF y1(2) d(2)] by (simp add: keeps_committed_def)
    qed
  qed (use Some assms in \<open>simp_all add: finish_settle_def keeps_committed_def\<close>)
qed

lemma cancel_inv:
  assumes "link_inv y"
  shows "link_inv (snd (registry_cancel_link sid now rm_ok y)) \<and>
    keeps_committed y (snd (registry_cancel_link sid now rm_ok y))"
proof (cases "link_owner sid (ly_pool y)")
  case None
  then show ?thesis using assms by (simp add: registry_cancel_link_def keeps_committed_def)
next
  case (Some s)
  note own = link_owner_Some [OF Some]
  let ?p = "if sl_active_finish s = Some sid then set_finish (sl_account s) None (ly_pool y) else ly_pool y"
  obtain r link where tk: "take_link_session sid now (sl_link s) = (r, link)"
    by (cases "take_link_session sid now (sl_link s)")
  let ?q = "forget_session sid (set_link (sl_account s) link ?p)"
  have "pool_tame (ly_pool y) ?p" using tame_ops(1) pool_tame_refl by simp
  moreover have "link = link_of (ly_pool y) (sl_account s) \<or> link = None"
    using take_link_keeps [of sid now "sl_link s"] tk own(2) by simp
  ultimately have "pool_tame (ly_pool y) (set_link (sl_account s) link ?p)" by (rule tame_set_link)
  then have t: "pool_tame (ly_pool y) ?q" by (rule pool_tame_trans [OF _ sessions_tame(2)])
  note q = tame_inv [OF assms t]
  have fin: "snd (registry_cancel_link sid now rm_ok y) =
      y\<lparr>ly_pool := (if \<not> sl_provisioned s then discard rm_ok (sl_account s) True ?q else ?q)\<rparr>"
    using Some tk by (simp add: registry_cancel_link_def Let_def rollback_account_slot_def)
  show ?thesis
  proof (cases "sl_provisioned s")
    case True
    then show ?thesis using fin q by simp
  next
    case False
    then have "sl_account s \<notin> committed ?q" using own(3) t by (simp add: pool_tame_def)
    then show ?thesis
      using fin False discard_inv [OF conjunct1 [OF q], of "sl_account s" rm_ok True] keeps_trans [OF conjunct2 [OF q]]
      by simp
  qed
qed

text \<open>The reaper discards only slots that were not committed when it looked.\<close>

lemma reap_fold_inv:
  assumes "link_inv (y\<lparr>ly_pool := p\<rparr>)" "\<forall>s \<in> set ss. sl_provisioned s \<or> sl_account s \<notin> committed p"
  shows "link_inv (y\<lparr>ly_pool := fold (\<lambda>s p. if sl_provisioned s \<or> idle_for now s < ABANDONED_LINK_TTL_MS then p
                 else if has_pending_link now (sl_link s) then p
                 else discard rm_ok (sl_account s) True p) ss p\<rparr>) \<and>
    committed (fold (\<lambda>s p. if sl_provisioned s \<or> idle_for now s < ABANDONED_LINK_TTL_MS then p
                 else if has_pending_link now (sl_link s) then p
                 else discard rm_ok (sl_account s) True p) ss p) = committed p"
  using assms
proof (induction ss arbitrary: p)
  case (Cons s ss)
  show ?case
  proof (cases "sl_provisioned s \<or> idle_for now s < ABANDONED_LINK_TTL_MS \<or> has_pending_link now (sl_link s)")
    case True
    then show ?thesis using Cons by auto
  next
    case False
    let ?q = "discard rm_ok (sl_account s) True p"
    have nc: "sl_account s \<notin> committed p" using Cons.prems(2) False by auto
    then have com: "committed ?q = committed p" by (auto simp: committed_def discard_view)
    have "link_inv (y\<lparr>ly_pool := ?q\<rparr>)"
      using discard_inv [OF Cons.prems(1), of "sl_account s" rm_ok True] nc by simp
    moreover have "\<forall>s \<in> set ss. sl_provisioned s \<or> sl_account s \<notin> committed ?q" using Cons.prems(2) com by simp
    ultimately show ?thesis using Cons.IH [of ?q] False com by simp
  qed
qed simp

lemma reap_inv:
  assumes "link_inv y" "distinct (map sl_account (ap_slots (ly_pool y)))"
  shows "link_inv (y\<lparr>ly_pool := reap_uncommitted_links now rm_ok (ly_pool y)\<rparr>) \<and>
    keeps_committed y (y\<lparr>ly_pool := reap_uncommitted_links now rm_ok (ly_pool y)\<rparr>)"
proof -
  have "sl_provisioned s \<or> sl_account s \<notin> committed (ly_pool y)" if "s \<in> set (ap_slots (ly_pool y))" for s
    using find_by_key [OF assms(2) that] by (simp add: committed_def pool_get_def)
  then show ?thesis
    using reap_fold_inv [where y = y and p = "ly_pool y" and ss = "ap_slots (ly_pool y)" and now = now and rm_ok = rm_ok] assms(1)
    by (simp add: reap_uncommitted_links_def keeps_committed_def)
qed

text \<open>Account ids stay unique.\<close>

definition ids_distinct :: "account_pool \<Rightarrow> bool" where
  "ids_distinct p \<longleftrightarrow> distinct (map sl_account (ap_slots p))"

lemma ids_distinct_upd: "(\<And>s. sl_account (f s) = sl_account s) \<Longrightarrow> ids_distinct (upd_slot b f p) = ids_distinct p"
  by (simp add: ids_distinct_def upd_slot_keys(1))

lemma ids_distinct_ops [simp]:
  "ids_distinct (set_link acct l p) = ids_distinct p"
  "ids_distinct (set_finish acct f p) = ids_distinct p"
  "ids_distinct (forget_session sid p) = ids_distinct p"
  "ids_distinct (remember_session sid acct p) = ids_distinct p"
  "ids_distinct (start_resident out p) = ids_distinct p"
  "ids_distinct (stop_all p) = ids_distinct p"
  "ids_distinct (snd (demote_pass now keep p)) = ids_distinct p"
  "ids_distinct (snd (note_activity now acct p)) = ids_distinct p"
  "ids_distinct (mark_provisioned ok acct grp p) = ids_distinct p"
  "ids_distinct (snd (snd (ensure_resident now o1 acct p))) = ids_distinct p"
  "ids_distinct (upd_slot acct (\<lambda>s. s\<lparr>sl_running := run\<rparr>) p) = ids_distinct p"
proof -
  have sess: "ids_distinct (p\<lparr>ap_sessions := m\<rparr>) = ids_distinct p" for m by (simp add: ids_distinct_def)
  show "ids_distinct (set_link acct l p) = ids_distinct p" by (simp add: set_link_def ids_distinct_upd)
  show "ids_distinct (set_finish acct f p) = ids_distinct p" by (simp add: set_finish_def ids_distinct_upd)
  show "ids_distinct (forget_session sid p) = ids_distinct p" by (simp add: forget_session_def sess)
  show "ids_distinct (remember_session sid acct p) = ids_distinct p" by (simp add: remember_session_def sess)
  show "ids_distinct (start_resident out p) = ids_distinct p"
    by (simp add: ids_distinct_def start_resident_def Let_def sql_update_keys)
  show "ids_distinct (stop_all p) = ids_distinct p" by (simp add: ids_distinct_def stop_all_def o_def)
  show "ids_distinct (snd (demote_pass now keep p)) = ids_distinct p"
    by (simp add: ids_distinct_def demote_pass_def Let_def sql_update_keys)
  show "ids_distinct (snd (note_activity now acct p)) = ids_distinct p"
    by (simp add: note_activity_def Let_def ids_distinct_upd)
  show "ids_distinct (mark_provisioned ok acct grp p) = ids_distinct p"
    by (simp add: mark_provisioned_def Let_def ids_distinct_def upd_slot_keys(1))
  show "ids_distinct (snd (snd (ensure_resident now o1 acct p))) = ids_distinct p"
    by (auto simp: ensure_resident_def Let_def ids_distinct_upd split: option.split start_outcome.split)
  show "ids_distinct (upd_slot acct (\<lambda>s. s\<lparr>sl_running := run\<rparr>) p) = ids_distinct p" by (simp add: ids_distinct_upd)
qed

lemma ids_distinct_discard: "ids_distinct p \<Longrightarrow> ids_distinct (discard ok acct rm p)"
  by (auto simp: ids_distinct_def discard_def remove_slot_directory_def slots_remove_def Let_def
      intro: distinct_map_filter split: option.split)

lemma ids_distinct_reap: "ids_distinct p \<Longrightarrow> ids_distinct (reap_uncommitted_links now rm_ok p)"
proof -
  have "ids_distinct q \<Longrightarrow> ids_distinct (fold (\<lambda>s p. if sl_provisioned s \<or> idle_for now s < ABANDONED_LINK_TTL_MS then p
      else if has_pending_link now (sl_link s) then p else discard rm_ok (sl_account s) True p) ss q)" for ss q
    by (induction ss arbitrary: q) (auto simp: ids_distinct_discard)
  then show "ids_distinct p \<Longrightarrow> ids_distinct (reap_uncommitted_links now rm_ok p)"
    by (simp add: reap_uncommitted_links_def)
qed

lemma ids_distinct_provision: "ids_distinct p \<Longrightarrow> ids_distinct (snd (provision_slot env acct now grp p))"
  by (auto simp: ids_distinct_def provision_slot_def Let_def slots_insert_keys(2))

lemma ids_distinct_start:
  assumes "ids_distinct (ly_pool y)"
  shows "ids_distinct (ly_pool (snd (pool_start_link env acct rid now name grp y)))"
proof (cases "provision_slot (se_fs env) acct now grp (ly_pool y)")
  case (Pair r q)
  then have "ids_distinct q" using ids_distinct_provision [OF assms, of "se_fs env" acct now grp] by simp
  then show ?thesis using Pair
    by (auto simp: pool_start_link_def Let_def rollback_account_slot_def ids_distinct_discard split: sum.split prod.split)
qed

lemma ids_distinct_finish:
  assumes "ids_distinct (ly_pool y)"
  shows "ids_distinct (ly_pool (snd (finish_begin i sid now ok y)))"
    "ids_distinct (ly_pool (finish_answer i up y))"
    "ids_distinct (ly_pool (snd (finish_commit i del_state now y)))"
    "ids_distinct (ly_pool (finish_settle i sidecar_ok rm_ok now y))"
    "ids_distinct (ly_pool (snd (registry_cancel_link sid now rm_ok y)))"
proof -
  show "ids_distinct (ly_pool (snd (finish_begin i sid now ok y)))"
    using assms by (auto simp: finish_begin_def Let_def split: option.split sum.split prod.split)
  show "ids_distinct (ly_pool (finish_answer i up y))"
    using assms by (auto simp: finish_answer_def clear_link_finish_def end_task_def set_task_def Let_def
        split: option.split upstream.split prod.split)
  show "ids_distinct (ly_pool (snd (finish_commit i del_state now y)))"
    using assms by (auto simp: finish_commit_def end_task_def set_task_def
        split: option.split finish_phase.split prod.split sum.split)
  show "ids_distinct (ly_pool (finish_settle i sidecar_ok rm_ok now y))"
    using assms by (auto simp: finish_settle_def end_task_def rollback_account_slot_def ids_distinct_discard
        split: option.split finish_phase.split)
  show "ids_distinct (ly_pool (snd (registry_cancel_link sid now rm_ok y)))"
    using assms by (auto simp: registry_cancel_link_def rollback_account_slot_def Let_def ids_distinct_discard
        split: option.split prod.split)
qed

lemma link_step_inv:
  assumes "link_step y z" "link_inv y" "ids_distinct (ly_pool y)"
  shows "link_inv z \<and> keeps_committed y z \<and> ids_distinct (ly_pool z)"
  using assms
proof (cases rule: link_step.cases)
  case (lk_start acct gs run env rid now name pg)
  have "link_inv (snd (pool_start_link env acct rid now name grp y)) \<and>
      keeps_committed y (snd (pool_start_link env acct rid now name grp y)) \<and>
      ids_distinct (ly_pool (snd (pool_start_link env acct rid now name grp y)))" for grp
    using begin_step_inv [OF assms(2) lk_start(2)] ids_distinct_start [OF assms(3)] by blast
  then show ?thesis
    using registry_start_link_cases [of gs run env acct rid now name pg y] assms(2,3) lk_start(1)
    by (metis keeps_committed_def order_refl)
next
  case (lk_reap now rm_ok)
  then show ?thesis
    using reap_inv [OF assms(2), of now rm_ok] assms(3) ids_distinct_reap by (simp add: ids_distinct_def)
qed (use assms(2,3) in \<open>auto simp: begin_step_inv begin_finish_inv answer_inv commit_inv settle_inv cancel_inv
    ids_distinct_start ids_distinct_finish intro: conjunct1 [OF tame_inv] conjunct2 [OF tame_inv] tame_ops\<close>)

lemma link_reach_inv:
  assumes "link_reach y z" "link_inv y" "ids_distinct (ly_pool y)"
  shows "link_inv z \<and> keeps_committed y z \<and> ids_distinct (ly_pool z)"
  using assms
proof (induction rule: link_reach.induct)
  case (lr_step y z w)
  then show ?case using link_step_inv [of z w] keeps_trans by blast
qed (simp add: keeps_committed_def)

lemma discovered_slots:
  "s \<in> set (discover_loop sg sc es ss) \<Longrightarrow> s \<in> set ss \<or> (\<exists>e \<in> set es. s = discovered_slot sg sc e)"
  by (induction sg sc es ss rule: discover_loop.induct)
    (auto simp: slots_insert_def set_insort_key split: if_splits)

lemma linked_start_inv:
  assumes "\<And>e. e \<in> set es \<Longrightarrow> dirs (de_name e) \<noteq> None"
  shows "link_inv (linked_start (discover policy root_ok sg sc dirs (Some es)) rows)"
    "ids_distinct (ly_pool (linked_start (discover policy root_ok sg sc dirs (Some es)) rows))"
proof -
  let ?p = "discover policy root_ok sg sc dirs (Some es)"
  have slot: "\<exists>e \<in> set es. s = discovered_slot sg sc e" if "s \<in> set (ap_slots ?p)" for s
    using that discovered_slots [of s sg sc es "[]"] by (auto simp: discover_slots split: if_splits)
  have name: "sl_account (discovered_slot sg sc e) = de_name e" for e
    by (simp add: discovered_slot_def build_slot_def Let_def)
  have "ap_dirs ?p a \<noteq> None" if a: "a \<in> slot_ids ?p" for a
  proof -
    from a obtain s where "s \<in> set (ap_slots ?p)" "a = sl_account s" unfolding slot_ids_def by blast
    then obtain e where "e \<in> set es" "a = de_name e" using slot name by metis
    moreover have "ap_dirs ?p = dirs" by (simp add: discover_def)
    ultimately show ?thesis using assms by metis
  qed
  moreover have "sl_link s = None" if "s \<in> set (ap_slots ?p)" for s
    using slot [OF that] by (auto simp: discovered_slot_def build_slot_def Let_def)
  then have "link_of ?p a = None" for a
    using pool_get_account [of a ?p] by (cases "pool_get a ?p") (auto simp: link_of_def)
  ultimately show "link_inv (linked_start ?p rows)" by (simp add: link_inv_def linked_start_def)
  show "ids_distinct (ly_pool (linked_start ?p rows))"
    using discover_ok [of policy root_ok sg sc dirs "Some es"] by (simp add: ids_distinct_def linked_start_def pool_ok_def)
qed

lemma settle_no_revive:
  assumes "pool_get a (ly_pool z) = None"
  shows "pool_get a (ly_pool (finish_settle i sidecar_ok rm_ok now z)) = None"
proof -
  have act: "pool_get a p = None \<Longrightarrow> pool_get a (snd (note_activity now b p)) = None" for b p
    by (simp add: note_activity_def Let_def upd_slot_get)
  have mark: "pool_get a p = None \<Longrightarrow> pool_get a (mark_provisioned ok b g p) = None" for ok b g p
    by (simp add: mark_view)
  have forget: "pool_get a (forget_session sid p) = pool_get a p" for sid p
    by (simp add: forget_session_def pool_get_def)
  show ?thesis using assms
    by (auto simp: finish_settle_def end_task_def rollback_account_slot_def act mark forget discard_view
        split: option.split finish_phase.split)
qed

lemma discard_gone:
  assumes "pool_get a p \<noteq> None" "is_account_id a"
  shows "ap_dirs (discard True a True p) a = None"
  using assms by (auto simp: discard_def remove_slot_directory_def Let_def split: option.split)

lemma discard_keeps_gone: "ap_dirs p a = None \<Longrightarrow> ap_dirs (discard ok b rm p) a = None"
  by (auto simp: discard_def remove_slot_directory_def Let_def split: option.split)

definition slot_gone :: "string \<Rightarrow> account_pool \<Rightarrow> bool" where
  "slot_gone a p \<longleftrightarrow> pool_get a p = None \<and> ap_dirs p a = None"

lemma slot_gone_discard:
  "slot_gone a p \<Longrightarrow> slot_gone a (discard ok b rm p)"
  "pool_get a p \<noteq> None \<Longrightarrow> is_account_id a \<Longrightarrow> slot_gone a (discard True a True p)"
  by (simp_all add: slot_gone_def discard_view discard_gone discard_keeps_gone)

lemma reap_fold_gone:
  assumes "s \<in> set ss" "sl_account s = a" "is_account_id a" "\<not> sl_provisioned s"
    "ABANDONED_LINK_TTL_MS \<le> idle_for now s" "\<not> has_pending_link now (sl_link s)"
    "pool_get a p \<noteq> None \<or> slot_gone a p"
  defines "f \<equiv> \<lambda>s p. if sl_provisioned s \<or> idle_for now s < ABANDONED_LINK_TTL_MS then p
      else if has_pending_link now (sl_link s) then p else discard True (sl_account s) True p"
  shows "slot_gone a (fold f ss p)"
proof -
  have keep: "slot_gone a q \<Longrightarrow> slot_gone a (fold f xs q)" for xs q
    by (induction xs arbitrary: q) (simp_all add: f_def slot_gone_discard(1))
  have either: "pool_get a (f x q) \<noteq> None \<or> slot_gone a (f x q)" if "pool_get a q \<noteq> None \<or> slot_gone a q" for x q
    using that slot_gone_discard [of a q] assms(3) by (auto simp: f_def discard_view)
  have here: "slot_gone a (f s q)" if "pool_get a q \<noteq> None \<or> slot_gone a q" for q
    using that assms(2-6) slot_gone_discard [of a q] by (auto simp: f_def)
  show ?thesis using assms(1,7)
  proof (induction ss arbitrary: p)
    case (Cons x xs)
    show ?case
    proof (cases "x = s")
      case True
      then show ?thesis using here [OF Cons.prems(2)] keep by simp
    next
      case False
      then show ?thesis using Cons.IH [OF _ either [OF Cons.prems(2)]] Cons.prems(1) by simp
    qed
  qed simp
qed

section \<open>Properties\<close>


text \<open>
  C30. Until a finish settles, its credentials are not protected. When a finish has committed its account row
  but the registry has not yet marked the slot, a \<open>link.cancel\<close> of the same session, and a reaper tick once
  the slot has been idle for the abandonment limit, both remove the slot and its data directory, credentials
  included, while the account row stays. The settling step that follows cannot bring the slot back.
\<close>
theorem commit_window_loses_credentials:
  assumes "link_reach (linked_start (discover policy root_ok store_group sidecars dirs (Some es)) rows) y"
    and "\<And>e. e \<in> set es \<Longrightarrow> dirs (de_name e) \<noteq> None"
    and "t \<in> set (ly_tasks y)" "ft_phase t = Committed (ft_account t)" "is_account_id (ft_account t)"
    and "session_owner (ft_session t) (ly_pool y) = Some (ft_account t)"
    and "pool_get (ft_account t) (ly_pool y) = Some s"
    and "z = snd (registry_cancel_link (ft_session t) now True y) \<or>
         z = y\<lparr>ly_pool := reap_uncommitted_links now True (ly_pool y)\<rparr> \<and> ABANDONED_LINK_TTL_MS \<le> idle_for now s"
  shows "pool_get (ft_account t) (ly_pool z) = None \<and> ap_dirs (ly_pool z) (ft_account t) = None \<and>
    ly_rows z = ly_rows y \<and>
    pool_get (ft_account t) (ly_pool (finish_settle (ft_id t) sidecar_ok True later z)) = None"
proof -
  have inv: "link_inv y" using link_reach_inv [OF assms(1)] linked_start_inv [of es dirs, OF assms(2)] by blast
  have com: "is_committed_task t" using assms(4) by (simp add: is_committed_task_def)
  have s: "sl_account s = ft_account t" "s \<in> set (ap_slots (ly_pool y))" using pool_get_account [OF assms(7)] by simp_all
  have np: "\<not> sl_provisioned s" and nl: "sl_link s = None"
    using inv com assms(3,7) unfolding link_inv_def by (auto simp: committed_def link_of_def)
  have gone: "slot_gone (ft_account t) (ly_pool z) \<and> ly_rows z = ly_rows y"
    using assms(8)
  proof
    assume z: "z = snd (registry_cancel_link (ft_session t) now True y)"
    have owner: "link_owner (ft_session t) (ly_pool y) = Some s" using assms(6,7) by (simp add: link_owner_def)
    have "pool_get a (forget_session sid p) = pool_get a p" for a sid p by (simp add: forget_session_def pool_get_def)
    then show ?thesis using owner np s(1) assms(7) slot_gone_discard(2) [OF _ assms(5)]
      by (simp add: z registry_cancel_link_def Let_def rollback_account_slot_def set_link_view upd_slot_get set_finish_def
          split: prod.split)
  next
    assume "z = y\<lparr>ly_pool := reap_uncommitted_links now True (ly_pool y)\<rparr> \<and> ABANDONED_LINK_TTL_MS \<le> idle_for now s"
    then show ?thesis using reap_fold_gone [OF s(2,1) assms(5) np] nl assms(7)
      by (simp add: has_pending_link_def reap_uncommitted_links_def)
  qed
  then have none: "pool_get (ft_account t) (ly_pool z) = None" "ap_dirs (ly_pool z) (ft_account t) = None"
    unfolding slot_gone_def by blast+
  show ?thesis using none gone settle_no_revive [OF none(1)] by blast
qed

text \<open>A link that runs up to its commit: start, finish, the engine's answer, the row.\<close>

definition demo_pool :: "link_slot \<Rightarrow> string option \<Rightarrow> account_pool" where
  "demo_pool link fin =
     \<lparr>ap_policy = normalized policy_default, ap_available = True,
      ap_slots = [\<lparr>sl_account = sample_account, sl_group = ''g'', sl_resident = True, sl_provisioned = False,
        sl_locked = True, sl_running = True, sl_last_used = 0, sl_link = link, sl_active_finish = fin\<rparr>],
      ap_sessions = [''S'' \<mapsto> sample_account], ap_dirs = [sample_account \<mapsto> [ENGINE_REGISTRY_FILE]],
      ap_sidecars = [sample_account \<mapsto> (''g'', False)]\<rparr>"

definition demo_link :: active_link_session where
  "demo_link = link_session_new ''S'' 0 ''pc'' ''u'' LINK_SESSION_TTL_MS"

definition demo_task :: "finish_phase \<Rightarrow> finish_task" where
  "demo_task ph = \<lparr>ft_id = 0, ft_account = sample_account, ft_group = ''g'', ft_session = ''S'', ft_phase = ph\<rparr>"

definition demo_sys :: "link_slot \<Rightarrow> string option \<Rightarrow> linked_account list \<Rightarrow> finish_task list \<Rightarrow> link_sys" where
  "demo_sys link fin rows tasks = \<lparr>ly_pool = demo_pool link fin, ly_rows = rows, ly_tasks = tasks\<rparr>"

definition demo_start :: link_sys where
  "demo_start = linked_start (discover policy_default True (\<lambda>_. None) Map.empty Map.empty (Some [])) []"

definition demo_row :: linked_account where
  "demo_row = \<lparr>la_id = sample_account, la_number = ''1'', la_group = ''g'', la_state = ''ready'', la_linked_at = Some 2\<rparr>"

definition demo_committed :: link_sys where
  "demo_committed = demo_sys None None [demo_row] [demo_task (Committed sample_account)]"

lemma demo_live [simp]: "t < 300000 \<Longrightarrow> link_is_expired demo_link t = False" "ls_session_id demo_link = ''S''"
  by (simp_all add: demo_link_def link_is_expired_def link_session_new_def LINK_SESSION_TTL_MS_def sat_add64_def u64_max_def)

lemma demo_link_started:
  "snd (registry_start_link [''g''] True \<lparr>se_fs = fs_fine, se_rm_ok = True, se_engine = StartedRunning, se_uri = LinkUri ''u''\<rparr>
     sample_account ''S'' 0 ''pc'' (Some ''g'') demo_start) = demo_sys (Some demo_link) None [] []"
  by (simp add: registry_start_link_def link_group_id_def pool_start_link_def demo_start_def linked_start_def discover_def provision_slot_def fs_fine_def
      normalized_def policy_default_def clamp_def MAX_PER_ACCOUNT_ENGINES_def MAX_RESIDENT_ENGINES_def
      make_dir_def write_file_def slots_insert_def build_slot_def Let_def upd_slot_def sql_update_def
      supervisor_start_link_def ensure_link_available_def group_at_account_ceiling_def count_accounts_in_group_def
      sql_count_def MAX_ACCOUNTS_PER_ENGINE_def begin_link_def validate_device_name_def MAX_DEVICE_NAME_BYTES_def
      set_link_def remember_session_def note_activity_def slot_touch_def set_resident_def
      demo_sys_def demo_pool_def demo_link_def)

lemma demo_finish_begun:
  "snd (finish_begin 0 ''S'' 1 True (demo_sys (Some demo_link) None [] [])) =
     demo_sys (Some demo_link) (Some ''S'') [] [demo_task Waiting]"
  by (simp add: finish_begin_def link_owner_def session_owner_def pool_get_def demo_sys_def demo_pool_def
      peek_link_for_finish_def require_active_link_def group_at_account_ceiling_def count_accounts_in_group_def
      sql_count_def MAX_ACCOUNTS_PER_ENGINE_def set_link_def set_finish_def upd_slot_def sql_update_def demo_task_def)

lemma demo_finish_answered:
  "finish_answer 0 (UpNumber ''1'') (demo_sys (Some demo_link) (Some ''S'') [] [demo_task Waiting]) =
     demo_sys (Some demo_link) None [] [demo_task (Answered ''1'')]"
  by (simp add: finish_answer_def demo_sys_def demo_pool_def demo_task_def clear_link_finish_def pool_get_def
      set_finish_def upd_slot_def sql_update_def set_task_def)

lemma demo_finish_committed:
  "snd (finish_commit 0 None 2 (demo_sys (Some demo_link) None [] [demo_task (Answered ''1'')])) = demo_committed"
  by (simp add: finish_commit_def demo_sys_def demo_pool_def demo_task_def pool_get_def demo_committed_def
      complete_link_session_with_id_def require_active_link_def link_would_exceed_ceiling_def account_by_signal_def
      group_at_account_ceiling_def count_accounts_in_group_def sql_count_def MAX_ACCOUNTS_PER_ENGINE_def
      take_link_session_def upsert_account_from_signal_with_id_def set_link_def upd_slot_def sql_update_def
      set_task_def demo_row_def)

lemma demo_reach: "link_reach demo_start demo_committed"
proof -
  have "fresh_account sample_account demo_start"
    by (simp add: fresh_account_def demo_start_def linked_start_def discover_def pool_get_def)
  note 1 = lk_start [OF this, of "[''g'']" True "\<lparr>se_fs = fs_fine, se_rm_ok = True, se_engine = StartedRunning, se_uri = LinkUri ''u''\<rparr>"
      "''S''" 0 "''pc''" "Some ''g''", unfolded demo_link_started]
  have "(0::nat) \<notin> ft_id ` set (ly_tasks (demo_sys (Some demo_link) None [] []))" by (simp add: demo_sys_def)
  note 2 = lk_begin [OF this, of "''S''" 1 True, unfolded demo_finish_begun]
  note 3 = lk_answer [of "demo_sys (Some demo_link) (Some ''S'') [] [demo_task Waiting]" 0 "UpNumber ''1''",
      unfolded demo_finish_answered]
  note 4 = lk_commit [of "demo_sys (Some demo_link) None [] [demo_task (Answered ''1'')]" 0 None 2,
      unfolded demo_finish_committed]
  show ?thesis by (rule lr_step [OF lr_step [OF lr_step [OF lr_step [OF lr_refl 1] 2] 3] 4])
qed

theorem commit_window_loses_credentials_witness:
  "sample_account \<in> la_id ` set (ly_rows demo_committed) \<and>
   ap_dirs (ly_pool (snd (registry_cancel_link ''S'' 3 True demo_committed))) sample_account = None \<and>
   ly_rows (snd (registry_cancel_link ''S'' 3 True demo_committed)) = ly_rows demo_committed"
proof -
  have s: "pool_get sample_account (ly_pool demo_committed) = Some (hd (ap_slots (demo_pool None None)))"
    by (simp add: demo_committed_def demo_sys_def demo_pool_def pool_get_def)
  have r: "sample_account \<in> la_id ` set (ly_rows demo_committed)"
    by (simp add: demo_committed_def demo_sys_def demo_row_def)
  let ?t = "demo_task (Committed sample_account)"
  have t: "?t \<in> set (ly_tasks demo_committed)" "ft_phase ?t = Committed (ft_account ?t)" "is_account_id (ft_account ?t)"
      "session_owner (ft_session ?t) (ly_pool demo_committed) = Some (ft_account ?t)"
      "pool_get (ft_account ?t) (ly_pool demo_committed) = Some (hd (ap_slots (demo_pool None None)))"
    using s by (simp_all add: demo_task_def demo_committed_def demo_sys_def demo_pool_def session_owner_def)
  have "ft_account ?t = sample_account" "ft_session ?t = ''S''" by (simp_all add: demo_task_def)
  then show ?thesis
    using r commit_window_loses_credentials [OF demo_reach [unfolded demo_start_def] _ t disjI1 [OF refl], where now = 3]
    by simp
qed

definition demo_known :: link_sys where
  "demo_known = linked_start (discover policy_default True (\<lambda>_. Some ''g'') Map.empty
     [sample_account \<mapsto> [ENGINE_REGISTRY_FILE]] (Some [sample_entry])) []"


text \<open>
  A store fault in \<open>link.finish\<close> blocks the account's finish lane. When the account count cannot be read,
  the finish returns the store error but leaves itself registered as the active finish; every further finish
  of that session, with the store healthy again, is refused as already in progress.
\<close>
lemma store_fault_blocks_finish_lane:
  assumes "finish_begin i sid now False y = (Inl ServiceStore, z)"
  shows "fst (finish_begin j sid later True z) = Inl finish_in_progress_error"
proof -
  obtain s where s: "link_owner sid (ly_pool y) = Some s" "sl_running s"
    and z: "z = y\<lparr>ly_pool := set_link (sl_account s) (snd (peek_link_for_finish sid now (sl_link s)))
             (set_finish (sl_account s) (Some sid) (ly_pool y))\<rparr>"
    using assms by (auto simp: finish_begin_def Let_def finish_in_progress_error_def link_not_found_error_def
        peek_link_for_finish_def require_active_link_def link_expired_error_def
        split: option.splits if_splits sum.splits prod.splits)
  obtain acct where acct: "session_owner sid (ly_pool y) = Some acct" "pool_get acct (ly_pool y) = Some s" "sl_account s = acct"
    using s(1) pool_get_account by (auto simp: link_owner_def split: option.splits)
  have "link_owner sid (ly_pool z) =
      Some (s\<lparr>sl_active_finish := Some sid, sl_link := snd (peek_link_for_finish sid now (sl_link s))\<rparr>)"
  proof -
    have "session_owner sid (ly_pool z) = Some acct"
      using acct(1) by (simp add: z session_owner_def set_link_def set_finish_def upd_slot_def)
    then show ?thesis using acct by (simp add: z link_owner_def set_link_view set_finish_def upd_slot_get)
  qed
  then show ?thesis using s(2) by (simp add: finish_begin_def)
qed

end
