(* ===== verification/Base64_Codec.thy ===== *)
theory Base64_Codec
  imports Conn_Prelude
begin

unbundle bit_operations_syntax

text \<open>
  The standard base64 codec of \<open>src/service.rs\<close> (\<open>base64_encode\<close>, \<open>base64_decode_to_vec\<close>). A byte is a number below
  256; shifts of the decoder are on \<open>u8\<close>, so a left shift drops what leaves the byte.
\<close>

definition ALPHABET :: string where
  "ALPHABET = ''ABCDEFGHIJKLMNOPQRSTUVWXYZabcdefghijklmnopqrstuvwxyz0123456789+/''"

definition sextet :: "nat \<Rightarrow> char" where
  "sextet n = ALPHABET ! (n AND 63)"

fun base64_encode :: "nat list \<Rightarrow> string" where
  "base64_encode [] = []"
| "base64_encode [a] =
     (let triple = push_bit 16 a
      in [sextet (drop_bit 18 triple), sextet (drop_bit 12 triple), CHR ''='', CHR ''=''])"
| "base64_encode [a, b] =
     (let triple = push_bit 16 a OR push_bit 8 b
      in [sextet (drop_bit 18 triple), sextet (drop_bit 12 triple), sextet (drop_bit 6 triple), CHR ''=''])"
| "base64_encode (a # b # c # rest) =
     (let triple = push_bit 16 a OR push_bit 8 b OR c
      in [sextet (drop_bit 18 triple), sextet (drop_bit 12 triple), sextet (drop_bit 6 triple), sextet triple]
         @ base64_encode rest)"

text \<open>The decoder's alphabet: \<open>None\<close> is its \<open>INVALID\<close>.\<close>

definition base64_value :: "char \<Rightarrow> nat option" where
  "base64_value c =
     (let b = byte c
      in if 65 \<le> b \<and> b \<le> 90 then Some (b - 65)
         else if 97 \<le> b \<and> b \<le> 122 then Some (b - 97 + 26)
         else if 48 \<le> b \<and> b \<le> 57 then Some (b - 48 + 52)
         else if b = 43 then Some 62
         else if b = 47 then Some 63
         else None)"

definition shl8 :: "nat \<Rightarrow> nat \<Rightarrow> nat" where
  "shl8 k n = push_bit k n mod 256"

text \<open>The quad loop over the data characters and the final partial quad.\<close>

fun decode_quads :: "nat list \<Rightarrow> nat list option" where
  "decode_quads [] = Some []"
| "decode_quads [a] = None"
| "decode_quads [a, b] =
     (if b AND 15 \<noteq> 0 then None else Some [shl8 2 a OR drop_bit 4 b])"
| "decode_quads [a, b, c] =
     (if c AND 3 \<noteq> 0 then None else Some [shl8 2 a OR drop_bit 4 b, shl8 4 b OR drop_bit 2 c])"
| "decode_quads (a # b # c # d # rest) =
     (case decode_quads rest of
        None \<Rightarrow> None
      | Some out \<Rightarrow>
          Some ((shl8 2 a OR drop_bit 4 b) # (shl8 4 b OR drop_bit 2 c) # (shl8 6 c OR d) # out))"

fun values_of :: "string \<Rightarrow> nat list option" where
  "values_of [] = Some []"
| "values_of (c # cs) =
     (case base64_value c of
        None \<Rightarrow> None
      | Some v \<Rightarrow> (case values_of cs of None \<Rightarrow> None | Some vs \<Rightarrow> Some (v # vs)))"

definition base64_decode_to_vec :: "string \<Rightarrow> nat list option" where
  "base64_decode_to_vec input =
     (if length input mod 4 \<noteq> 0 then None
      else let padding = length (takeWhile (\<lambda>c. c = CHR ''='') (rev input))
           in if padding > 2 then None
              else (case values_of (take (length input - padding) input) of
                      None \<Rightarrow> None
                    | Some vs \<Rightarrow> decode_quads vs))"

section \<open>The alphabet\<close>

lemma alphabet_values: "n < 64 \<Longrightarrow> base64_value (ALPHABET ! n) = Some n"
proof -
  have "map base64_value ALPHABET = map Some [0..<64]"
    by (simp add: ALPHABET_def base64_value_def byte_def upt_rec)
  then have "map base64_value ALPHABET ! n = map Some [0..<64] ! n" by (rule arg_cong)
  moreover have "length ALPHABET = 64" by (simp add: ALPHABET_def)
  ultimately show "n < 64 \<Longrightarrow> base64_value (ALPHABET ! n) = Some n" by simp
qed

lemma base64_value_inj: "base64_value c = Some v \<Longrightarrow> base64_value d = Some v \<Longrightarrow> c = d"
proof -
  assume "base64_value c = Some v" "base64_value d = Some v"
  then have "byte c = byte d" by (auto simp: base64_value_def Let_def split: if_splits)
  then show "c = d" by (simp add: byte_def)
qed

lemma value_in_alphabet: "base64_value c = Some v \<Longrightarrow> v < 64 \<and> ALPHABET ! v = c"
proof -
  assume v: "base64_value c = Some v"
  then have "v < 64" by (auto simp: base64_value_def Let_def split: if_splits)
  then show ?thesis using v base64_value_inj alphabet_values by blast
qed

lemma value_not_pad: "base64_value c = Some v \<Longrightarrow> c \<noteq> CHR ''=''"
  by (auto simp: base64_value_def byte_def)

lemma sextet_mod: "sextet n = ALPHABET ! (n mod 64)"
proof -
  have "n AND 63 = take_bit 6 n" by (simp add: take_bit_eq_mask mask_eq_exp_minus_1)
  then show ?thesis by (simp add: sextet_def take_bit_eq_mod)
qed

section \<open>Bits of a group\<close>

lemma push_or: "c < 2 ^ k \<Longrightarrow> push_bit k n OR c = n * 2 ^ k + c" for c n :: nat
proof -
  assume "c < 2 ^ k"
  then have c: "c = take_bit k c" by (simp add: take_bit_nat_eq_self)
  have "push_bit k n AND c = 0"
    by (subst c) (auto simp: bit_eq_iff bit_simps)
  then have "push_bit k n + c = push_bit k n OR c" by (rule disjunctive_add_eq_or)
  then show ?thesis by (simp add: push_bit_eq_mult)
qed

lemma encode_bits:
  fixes a b c :: nat
  assumes "b < 256" and "c < 256"
  shows "push_bit 16 a OR push_bit 8 b OR c = a * 65536 + b * 256 + c"
proof -
  have "push_bit 16 a OR (push_bit 8 b OR c) = a * 2 ^ 16 + (b * 2 ^ 8 + c)"
    using assms push_or [of c 8 b] push_or [of "b * 2 ^ 8 + c" 16 a] by simp
  then show ?thesis by (simp add: or.assoc)
qed

lemma encode_sextets:
  fixes a b c :: nat
  assumes "a < 256" and "b < 256" and "c < 256"
  shows "(a * 65536 + b * 256 + c) div 2 ^ 18 mod 64 = a div 4"
    and "(a * 65536 + b * 256 + c) div 2 ^ 12 mod 64 = (a mod 4) * 16 + b div 16"
    and "(a * 65536 + b * 256 + c) div 2 ^ 6 mod 64 = (b mod 16) * 4 + c div 64"
    and "(a * 65536 + b * 256 + c) mod 64 = c mod 64"
proof -
  define a1 a0 b1 b0 c1 c0 where "a1 = a div 4" "a0 = a mod 4" "b1 = b div 16" "b0 = b mod 16"
    "c1 = c div 64" "c0 = c mod 64"
  then have abc: "a = 4 * a1 + a0" "b = 16 * b1 + b0" "c = 64 * c1 + c0"
    and small: "a1 < 64" "a0 < 4" "b1 < 16" "b0 < 16" "c1 < 4" "c0 < 64"
    using assms by auto
  have cut: "r < m \<Longrightarrow> x = q * m + r \<Longrightarrow> x div m = q" for x q r m :: nat by simp
  have rest: "r < m \<Longrightarrow> x = q * m + r \<Longrightarrow> x mod m = r" for x q r m :: nat by simp
  let ?t = "a * 65536 + b * 256 + c"
  have "?t div 2 ^ 18 = 0 * 64 + a1"
    by (rule cut [of "a0 * 65536 + b * 256 + c"]) (use small abc in simp_all)
  from rest [OF small(1) this] show "?t div 2 ^ 18 mod 64 = a div 4" by (simp add: a1_a0_b1_b0_c1_c0_def)
  have "?t div 2 ^ 12 = a1 * 64 + (a0 * 16 + b1)"
    by (rule cut [of "b0 * 256 + c"]) (use small abc in simp_all)
  from rest [OF _ this] show "?t div 2 ^ 12 mod 64 = (a mod 4) * 16 + b div 16"
    using small by (simp add: a1_a0_b1_b0_c1_c0_def)
  have "?t div 2 ^ 6 = (a * 16 + b1) * 64 + (b0 * 4 + c1)"
    by (rule cut [of c0]) (use small abc in simp_all)
  from rest [OF _ this] show "?t div 2 ^ 6 mod 64 = (b mod 16) * 4 + c div 64"
    using small by (simp add: a1_a0_b1_b0_c1_c0_def)
  have "?t = (a * 1024 + b * 4) * 64 + c" by simp
  then show "?t mod 64 = c mod 64" by (simp only: mod_mult_self3)
qed

lemma decode_bits:
  assumes "p < 64" and "q < 64" and "r < 64" and "t < 64"
  shows "shl8 2 p OR drop_bit 4 q = p * 4 + q div 16"
    and "shl8 4 q OR drop_bit 2 r = (q mod 16) * 16 + r div 4"
    and "shl8 6 r OR t = (r mod 4) * 64 + t"
proof -
  have s: "shl8 2 p = push_bit 2 p" "shl8 4 q = push_bit 4 (q mod 16)" "shl8 6 r = push_bit 6 (r mod 4)"
    using assms mod_mult_mult2 [of q 16 16] mod_mult_mult2 [of r 64 4] by (simp_all add: shl8_def push_bit_eq_mult)
  have d: "drop_bit 4 q = q div 16" "drop_bit 2 r = r div 4" by (simp_all add: drop_bit_eq_div)
  show "shl8 2 p OR drop_bit 4 q = p * 4 + q div 16"
    unfolding s d using push_or [of "q div 16" 2 p] assms by simp
  show "shl8 4 q OR drop_bit 2 r = (q mod 16) * 16 + r div 4"
    unfolding s d using push_or [of "r div 4" 4 "q mod 16"] assms by simp
  show "shl8 6 r OR t = (r mod 4) * 64 + t"
    unfolding s using push_or [of t 6 "r mod 4"] assms by simp
qed

section \<open>The codec is a bijection\<close>

text \<open>The sextets of a byte list and the number of padding characters.\<close>

fun enc_values :: "nat list \<Rightarrow> nat list" where
  "enc_values [] = []"
| "enc_values [a] = [a div 4, (a mod 4) * 16]"
| "enc_values [a, b] = [a div 4, (a mod 4) * 16 + b div 16, (b mod 16) * 4]"
| "enc_values (a # b # c # rest) =
     [a div 4, (a mod 4) * 16 + b div 16, (b mod 16) * 4 + c div 64, c mod 64] @ enc_values rest"

fun enc_pad :: "nat list \<Rightarrow> nat" where
  "enc_pad [] = 0"
| "enc_pad [a] = 2"
| "enc_pad [a, b] = 1"
| "enc_pad (a # b # c # rest) = enc_pad rest"

lemma parts: "n < 256 \<Longrightarrow> n div 4 < 64" "n < 256 \<Longrightarrow> n div 16 < 16" "n < 256 \<Longrightarrow> n div 64 < 4"
  "n < 64 \<Longrightarrow> n div 16 < 4" "n < 64 \<Longrightarrow> n div 4 < 16" for n :: nat
  by auto

lemma pad_two: "replicate 2 x = [x, x]"
  by (simp add: numeral_2_eq_2)

lemma triple_chars:
  assumes "a < 256" and "b < 256" and "c < 256"
  shows "sextet (drop_bit 18 (push_bit 16 a OR push_bit 8 b OR c)) = ALPHABET ! (a div 4)"
    and "sextet (drop_bit 12 (push_bit 16 a OR push_bit 8 b OR c)) = ALPHABET ! ((a mod 4) * 16 + b div 16)"
    and "sextet (drop_bit 6 (push_bit 16 a OR push_bit 8 b OR c)) = ALPHABET ! ((b mod 16) * 4 + c div 64)"
    and "sextet (push_bit 16 a OR push_bit 8 b OR c) = ALPHABET ! (c mod 64)"
  unfolding sextet_mod drop_bit_eq_div encode_bits [OF assms(2,3)] encode_sextets [OF assms] by (rule refl)+

lemma base64_encode_values:
  "list_all (\<lambda>b. b < 256) d \<Longrightarrow>
   base64_encode d = map ((!) ALPHABET) (enc_values d) @ replicate (enc_pad d) CHR ''=''"
proof (induction d rule: base64_encode.induct)
  case (2 a)
  have t: "push_bit 16 a OR push_bit 8 0 OR 0 = push_bit 16 a" by simp
  show ?case using 2 triple_chars(1,2) [of a 0 0] by (simp add: t pad_two Let_def)
next
  case (3 a b)
  have t: "push_bit 16 a OR push_bit 8 b OR 0 = push_bit 16 a OR push_bit 8 b" by simp
  show ?case using 3 triple_chars(1,2,3) [of a b 0] by (simp add: t Let_def)
next
  case (4 a b c rest)
  then have ih: "base64_encode rest = map ((!) ALPHABET) (enc_values rest) @ replicate (enc_pad rest) CHR ''=''"
    and small: "a < 256" "b < 256" "c < 256" by simp_all
  show ?case
    by (simp only: base64_encode.simps enc_values.simps enc_pad.simps Let_def ih triple_chars [OF small]
        map_append list.map append.assoc)
qed simp

lemma enc_values_small: "list_all (\<lambda>b. b < 256) d \<Longrightarrow> list_all (\<lambda>v. v < 64) (enc_values d)"
  by (induction d rule: enc_values.induct) auto

lemma low_bits: "n AND 15 = n mod 16" "n AND 3 = n mod 4" for n :: nat
  using take_bit_eq_mask [of 4 n] take_bit_eq_mask [of 2 n] take_bit_eq_mod [of 4 n] take_bit_eq_mod [of 2 n]
  by (simp_all add: mask_eq_exp_minus_1)

lemma join:
  "y < 4 \<Longrightarrow> (x * 4 + y) div 4 = x" "y < 4 \<Longrightarrow> (x * 4 + y) mod 4 = y"
  "y < 16 \<Longrightarrow> (x * 16 + y) div 16 = x" "y < 16 \<Longrightarrow> (x * 16 + y) mod 16 = y"
  "y < 64 \<Longrightarrow> (x * 64 + y) div 64 = x" "y < 64 \<Longrightarrow> (x * 64 + y) mod 64 = y" for x y :: nat
  by simp_all

lemma enc_sextet_bounds:
  fixes a b c :: nat
  assumes "a < 256" and "b < 256" and "c < 256"
  shows "(a mod 4) * 16 + b div 16 < 64" and "(b mod 16) * 4 + c div 64 < 64"
proof -
  have "a mod 4 \<le> 3" "b mod 16 \<le> 15" using mod_less_divisor [of 4 a] mod_less_divisor [of 16 b] by linarith+
  moreover have "b div 16 \<le> 15" "c div 64 \<le> 3" using assms by linarith+
  ultimately show "(a mod 4) * 16 + b div 16 < 64" "(b mod 16) * 4 + c div 64 < 64" by linarith+
qed

lemma decode_enc_values: "list_all (\<lambda>b. b < 256) d \<Longrightarrow> decode_quads (enc_values d) = Some d"
proof (induction d rule: enc_values.induct)
  case (2 a)
  then show ?case using decode_bits(1) [of "a div 4" "(a mod 4) * 16" 0 0] enc_sextet_bounds [of a 0 0]
    by (simp add: low_bits parts)
next
  case (3 a b)
  then show ?case
    using decode_bits(1,2) [of "a div 4" "(a mod 4) * 16 + b div 16" "(b mod 16) * 4" 0] enc_sextet_bounds [of a b 0]
    by (simp add: low_bits join parts)
next
  case (4 a b c rest)
  then show ?case
    using decode_bits [of "a div 4" "(a mod 4) * 16 + b div 16" "(b mod 16) * 4 + c div 64" "c mod 64"]
      enc_sextet_bounds [of a b c]
    by (simp add: join parts)
qed simp

lemma enc_decode_values:
  "list_all (\<lambda>v. v < 64) vs \<Longrightarrow> decode_quads vs = Some d \<Longrightarrow> enc_values d = vs \<and> list_all (\<lambda>b. b < 256) d"
proof (induction vs arbitrary: d rule: decode_quads.induct)
  case (3 p q)
  then have "q mod 16 = 0" by (auto simp: low_bits split: if_splits)
  then show ?case using 3 decode_bits(1) [of p q 0 0]
    by (auto simp: join parts low_bits)
next
  case (4 p q r)
  then have "r mod 4 = 0" by (auto simp: low_bits split: if_splits)
  then show ?case using 4 decode_bits(1,2) [of p q r 0]
    by (auto simp: join parts low_bits)
next
  case (5 p q r t rest)
  then show ?case using decode_bits [of p q r t]
    by (auto simp: join parts split: option.splits)
qed auto

lemma enc_pad_length: "(length (enc_values d) + enc_pad d) mod 4 = 0" "enc_pad d \<le> 2"
  by (induction d rule: enc_values.induct) auto

lemma values_of_map: "list_all (\<lambda>v. v < 64) vs \<Longrightarrow> values_of (map ((!) ALPHABET) vs) = Some vs"
  by (induction vs) (simp_all add: alphabet_values)

lemma values_of_Some:
  "values_of cs = Some vs \<Longrightarrow> cs = map ((!) ALPHABET) vs \<and> list_all (\<lambda>v. v < 64) vs"
proof (induction cs arbitrary: vs)
  case (Cons c cs)
  then obtain v ws where "base64_value c = Some v" "values_of cs = Some ws" "vs = v # ws"
    by (simp split: option.splits)
  then show ?case using Cons.IH value_in_alphabet by simp
qed simp

lemma alphabet_not_pad: "v < 64 \<Longrightarrow> ALPHABET ! v \<noteq> CHR ''=''"
  using alphabet_values value_not_pad by blast

lemma trailing_pad:
  assumes "list_all (\<lambda>v. v < 64) vs"
  shows "takeWhile (\<lambda>c. c = CHR ''='') (rev (map ((!) ALPHABET) vs @ replicate n CHR ''='')) = replicate n CHR ''=''"
proof -
  have "takeWhile (\<lambda>c. c = CHR ''='') (rev (map ((!) ALPHABET) vs)) = []"
    using assms alphabet_not_pad by (cases vs rule: rev_cases) auto
  moreover have "takeWhile (\<lambda>c. c = x) (replicate n x @ ys) = replicate n x @ takeWhile (\<lambda>c. c = x) ys"
    for x :: char and ys
    by (induction n) auto
  ultimately show ?thesis by simp
qed

lemma padded_split:
  "s = take (length s - length (takeWhile (\<lambda>c. c = x) (rev s))) s @
       replicate (length (takeWhile (\<lambda>c. c = x) (rev s))) x"
proof -
  let ?t = "takeWhile (\<lambda>c. c = x) (rev s)"
  have "?t = replicate (length ?t) x"
    by (metis (mono_tags, lifting) replicate_length_same set_takeWhileD)
  moreover have s: "s = rev (dropWhile (\<lambda>c. c = x) (rev s)) @ rev ?t"
    by (metis rev_append rev_rev_ident takeWhile_dropWhile_id)
  moreover have "take (length s - length ?t) s = rev (dropWhile (\<lambda>c. c = x) (rev s))"
    by (metis add_diff_cancel_right' append_eq_conv_conj length_append length_rev s)
  ultimately show ?thesis by (metis rev_replicate)
qed

lemma decode_of_encode:
  assumes "list_all (\<lambda>b. b < 256) d"
  shows "base64_decode_to_vec (base64_encode d) = Some d"
proof -
  let ?n = "enc_pad d"
  have vs: "list_all (\<lambda>v. v < 64) (enc_values d)" using assms by (rule enc_values_small)
  have "length (base64_encode d) mod 4 = 0"
    using enc_pad_length(1) [of d] by (simp add: base64_encode_values [OF assms])
  moreover have "length (takeWhile (\<lambda>c. c = CHR ''='') (rev (base64_encode d))) = ?n"
    unfolding base64_encode_values [OF assms] trailing_pad [OF vs] by simp
  ultimately show ?thesis
    using enc_pad_length(2) [of d] values_of_map [OF vs] decode_enc_values [OF assms]
    by (simp add: base64_decode_to_vec_def Let_def base64_encode_values [OF assms])
qed

lemma encode_of_decode:
  assumes "base64_decode_to_vec s = Some d"
  shows "list_all (\<lambda>b. b < 256) d \<and> base64_encode d = s"
proof -
  define n where "n = length (takeWhile (\<lambda>c. c = CHR ''='') (rev s))"
  have n: "length s mod 4 = 0" "n \<le> 2"
    using assms by (auto simp: base64_decode_to_vec_def n_def Let_def split: if_splits)
  obtain vs where vs: "values_of (take (length s - n) s) = Some vs" and d: "decode_quads vs = Some d"
    using assms by (auto simp: base64_decode_to_vec_def n_def Let_def split: if_splits option.splits)
  from values_of_Some [OF vs] have s: "s = map ((!) ALPHABET) vs @ replicate n CHR ''=''"
    and small: "list_all (\<lambda>v. v < 64) vs"
    using padded_split [of s "CHR ''=''"] by (simp_all flip: n_def)
  from enc_decode_values [OF small d] have e: "enc_values d = vs" "list_all (\<lambda>b. b < 256) d" by auto
  have len: "(length vs + n) mod 4 = 0" using n(1) by (simp add: s)
  have pad: "(k + x) mod 4 = 0 \<Longrightarrow> (k + y) mod 4 = 0 \<Longrightarrow> x \<le> 2 \<Longrightarrow> y \<le> 2 \<Longrightarrow> x = y" for k x y :: nat
    by presburger
  have "n = enc_pad d" by (rule pad [OF len enc_pad_length(1) [of d, unfolded e(1)] n(2) enc_pad_length(2)])
  then show ?thesis using e base64_encode_values [OF e(2)] s by simp
qed

text \<open>
  C31. The base64 decoder accepts exactly the encoder's outputs: \<open>base64_decode_to_vec\<close> answers the bytes \<open>d\<close> for a
  text if and only if the text is the encoding of \<open>d\<close>. So decoding inverts encoding, and there is no second text
  for the same bytes: wrong padding, a stray character or non-zero leftover bits are all refused.
\<close>

theorem base64_decode_exact:
  "base64_decode_to_vec s = Some d \<longleftrightarrow> list_all (\<lambda>b. b < 256) d \<and> base64_encode d = s"
  using decode_of_encode encode_of_decode by blast

end
