(* ===== verification/Receive_Text.thy ===== *)
theory Receive_Text
  imports Json_Value "HOL-Library.Monad_Syntax"
begin

text \<open>
  The string and object readers under the receive ladder of \<open>src/engine.rs\<close>: field access on a JSON object,
  the trimmed and bounded string faces, the byte truncation at a character boundary, the attachment file name
  sanitiser and the identifier shapes. A Rust \<open>str\<close> is UTF-8: \<open>str_ok\<close> says that no scalar of it has more than
  four bytes, \<open>json_ok\<close> that this holds for every string of a value, which is what turns a bound on characters
  into a bound on bytes.
\<close>

type_synonym jobject = "(string \<times> json) list"

definition o_str :: "jobject \<Rightarrow> string \<Rightarrow> string option" where
  "o_str obj k = Option.bind (map_of obj k) as_str"

definition o_u64 :: "jobject \<Rightarrow> string \<Rightarrow> nat option" where
  "o_u64 obj k = Option.bind (map_of obj k) json_as_u64"

definition o_bool :: "jobject \<Rightarrow> string \<Rightarrow> bool option" where
  "o_bool obj k = Option.bind (map_of obj k) as_bool"

definition o_arr :: "jobject \<Rightarrow> string \<Rightarrow> json list option" where
  "o_arr obj k = Option.bind (map_of obj k) as_array"

definition o_obj :: "jobject \<Rightarrow> string \<Rightarrow> jobject option" where
  "o_obj obj k = Option.bind (map_of obj k) as_object"

text \<open>\<open>Option::filter\<close> and \<open>Option::or\<close>.\<close>

definition opt_filter :: "('a \<Rightarrow> bool) \<Rightarrow> 'a option \<Rightarrow> 'a option" where
  "opt_filter p x = (case x of Some v \<Rightarrow> if p v then Some v else None | None \<Rightarrow> None)"

definition opt_or :: "'a option \<Rightarrow> 'a option \<Rightarrow> 'a option" where
  "opt_or x y = (case x of Some v \<Rightarrow> Some v | None \<Rightarrow> y)"

definition opt_default :: "'a \<Rightarrow> 'a option \<Rightarrow> 'a" where
  "opt_default d x = (case x of Some v \<Rightarrow> v | None \<Rightarrow> d)"

lemma opt_filter_Some [simp]: "opt_filter p x = Some v \<longleftrightarrow> x = Some v \<and> p v"
  by (auto simp: opt_filter_def split: option.splits if_splits)

lemma opt_or_Some: "opt_or x y = Some v \<longleftrightarrow> x = Some v \<or> x = None \<and> y = Some v"
  by (auto simp: opt_or_def split: option.splits)

text \<open>\<open>u32::try_from\<close> and \<open>u8::try_from\<close> on a \<open>u64\<close>.\<close>

definition try_u32 :: "nat \<Rightarrow> nat option" where
  "try_u32 n = (if n \<le> u32_max then Some n else None)"

definition try_u8 :: "nat \<Rightarrow> nat option" where
  "try_u8 n = (if n \<le> 255 then Some n else None)"

definition positive :: "nat option \<Rightarrow> nat option" where
  "positive = opt_filter (\<lambda>n. 0 < n)"

lemma positive_Some [simp]: "positive x = Some n \<longleftrightarrow> x = Some n \<and> 0 < n"
  by (simp add: positive_def)

definition char_count :: "string \<Rightarrow> nat" where
  "char_count s = length (utf8_chars s)"

text \<open>\<open>s.chars().take(n).collect()\<close>, and the trimmed, non-empty string the faces start from.\<close>

definition take_chars :: "nat \<Rightarrow> string \<Rightarrow> string" where
  "take_chars n s = concat (take n (utf8_chars s))"

definition trimmed :: "string option \<Rightarrow> string option" where
  "trimmed x = opt_filter (\<lambda>s. s \<noteq> []) (map_option str_trim x)"

definition bounded :: "nat \<Rightarrow> string option \<Rightarrow> string option" where
  "bounded n x = map_option (take_chars n) (trimmed x)"

definition MAX_RECEIVE_ID_CHARS :: nat where
  "MAX_RECEIVE_ID_CHARS = 128"

definition optional_bounded_string :: "json option \<Rightarrow> string option" where
  "optional_bounded_string v = bounded MAX_RECEIVE_ID_CHARS (Option.bind v as_str)"

definition is_ascii_hexdigit :: "char \<Rightarrow> bool" where
  "is_ascii_hexdigit c \<longleftrightarrow>
     is_ascii_digit c \<or> (65 \<le> byte c \<and> byte c \<le> 70) \<or> (97 \<le> byte c \<and> byte c \<le> 102)"

definition to_ascii_lowercase :: "string \<Rightarrow> string" where
  "to_ascii_lowercase = map (\<lambda>c. if is_ascii_uppercase c then char_of (byte c + 32) else c)"

definition to_ascii_uppercase :: "string \<Rightarrow> string" where
  "to_ascii_uppercase = map (\<lambda>c. if is_ascii_lowercase c then char_of (byte c - 32) else c)"

definition is_service_id_uuid :: "string \<Rightarrow> bool" where
  "is_service_id_uuid v \<longleftrightarrow>
     (let parts = split_on CHR ''-'' v
      in length parts = 5 \<and>
         list_all2 (\<lambda>part n. length part = n \<and> list_all is_ascii_hexdigit part) parts [8, 4, 4, 4, 12])"

definition is_uuid_shaped :: "string \<Rightarrow> bool" where
  "is_uuid_shaped v \<longleftrightarrow>
     length v = 36 \<and>
     list_all (\<lambda>(i, c). if i \<in> {8, 13, 18, 23} then c = CHR ''-'' else is_ascii_hexdigit c)
       (enumerate 0 v)"

section \<open>Truncation at a character boundary\<close>

definition is_char_boundary :: "string \<Rightarrow> nat \<Rightarrow> bool" where
  "is_char_boundary s i \<longleftrightarrow>
     i = 0 \<or> i = length s \<or> (i < length s \<and> \<not> is_utf8_cont (s ! i))"

fun boundary_down :: "string \<Rightarrow> nat \<Rightarrow> nat" where
  "boundary_down s 0 = 0"
| "boundary_down s (Suc e) = (if is_char_boundary s (Suc e) then Suc e else boundary_down s e)"

definition truncate_utf8_bytes :: "string \<Rightarrow> nat \<Rightarrow> string" where
  "truncate_utf8_bytes text max_bytes =
     (if length text \<le> max_bytes then text else take (boundary_down text max_bytes) text)"

section \<open>Attachment file names\<close>

definition MAX_ATTACHMENT_FILENAME_BYTES :: nat where
  "MAX_ATTACHMENT_FILENAME_BYTES = 1024"

text \<open>
  The bidirectional controls by their UTF-8 bytes: U+202A-U+202E and U+2066-U+2069, U+200E, U+200F, U+061C;
  each becomes U+FFFD.
\<close>

definition is_bidi_control :: "string \<Rightarrow> bool" where
  "is_bidi_control ch \<longleftrightarrow>
     (case map byte ch of
        [b, c] \<Rightarrow> b = 216 \<and> c = 156
      | [b, c, d] \<Rightarrow>
          b = 226 \<and> ((c = 128 \<and> (d = 142 \<or> d = 143 \<or> (170 \<le> d \<and> d \<le> 174))) \<or>
                      (c = 129 \<and> 166 \<le> d \<and> d \<le> 169))
      | _ \<Rightarrow> False)"

definition replacement_char :: string where
  "replacement_char = map char_of [239, 191, 189 :: nat]"

definition un_bidi :: "string \<Rightarrow> string" where
  "un_bidi s = concat (map (\<lambda>ch. if is_bidi_control ch then replacement_char else ch) (utf8_chars s))"

definition split_path :: "string \<Rightarrow> string list" where
  "split_path s = split_on CHR ''/'' (map (\<lambda>c. if byte c = 92 then CHR ''/'' else c) s)"

definition sanitize_inbound_filename :: "string \<Rightarrow> string" where
  "sanitize_inbound_filename name =
     (let flattened = opt_default [] (find (\<lambda>part. part \<noteq> []) (rev (split_path name)))
      in if flattened = [] \<or> flattened = ''.'' \<or> flattened = ''..'' then []
         else truncate_utf8_bytes (un_bidi flattened) MAX_ATTACHMENT_FILENAME_BYTES)"

section \<open>Scalars of a cut string\<close>

text \<open>
  \<open>groups_ok\<close> holds of exactly the lists of scalars a string splits into, so a string put together from a
  segment of them splits into that segment again.
\<close>

definition is_group :: "string \<Rightarrow> bool" where
  "is_group g \<longleftrightarrow> g \<noteq> [] \<and> list_all is_utf8_cont (tl g)"

definition group_start :: "string \<Rightarrow> bool" where
  "group_start g \<longleftrightarrow> g \<noteq> [] \<and> \<not> is_utf8_cont (hd g)"

definition groups_ok :: "string list \<Rightarrow> bool" where
  "groups_ok gs \<longleftrightarrow> list_all is_group gs \<and> list_all group_start (tl gs)"

lemma groups_ok_Nil [simp]: "groups_ok []"
  by (simp add: groups_ok_def)

lemma dropWhile_start: "dropWhile p xs = [] \<or> \<not> p (hd (dropWhile p xs))"
  by (induction xs) auto

lemma utf8_chars_starts: "s = [] \<or> \<not> is_utf8_cont (hd s) \<Longrightarrow> list_all group_start (utf8_chars s)"
proof (induction s rule: utf8_chars.induct)
  case (2 c cs)
  show ?case
    using "2.IH" [OF dropWhile_start] "2.prems" by (simp add: group_start_def)
qed simp

lemma takeWhile_all: "list_all p (takeWhile p xs)"
  by (induction xs) auto

lemma utf8_chars_groups: "list_all is_group (utf8_chars s)"
  by (induction s rule: utf8_chars.induct) (simp_all add: is_group_def takeWhile_all)

lemma groups_ok_utf8_chars: "groups_ok (utf8_chars s)"
proof (cases s)
  case (Cons c cs)
  have "list_all group_start (utf8_chars (dropWhile is_utf8_cont cs))"
    by (rule utf8_chars_starts [OF dropWhile_start])
  then show ?thesis using utf8_chars_groups [of s] Cons by (simp add: groups_ok_def)
qed simp

lemma takeWhile_group:
  assumes "list_all p xs" and "ys = [] \<or> \<not> p (hd ys)"
  shows "takeWhile p (xs @ ys) = xs" and "dropWhile p (xs @ ys) = ys"
  using assms by (induction xs) (cases ys, auto)+

lemma utf8_chars_concat: "groups_ok gs \<Longrightarrow> utf8_chars (concat gs) = gs"
proof (induction gs)
  case (Cons g gs)
  obtain c cs where g: "g = c # cs" and cs: "list_all is_utf8_cont cs"
    using Cons.prems by (auto simp: groups_ok_def is_group_def neq_Nil_conv)
  have start: "list_all group_start gs" and gs: "list_all is_group gs"
    using Cons.prems by (simp_all add: groups_ok_def)
  then have "groups_ok gs" by (cases gs) (simp_all add: groups_ok_def)
  moreover have "concat gs = [] \<or> \<not> is_utf8_cont (hd (concat gs))"
    using start by (cases gs) (auto simp: group_start_def)
  ultimately show ?case
    using Cons.IH g takeWhile_group [OF cs] by simp
qed simp

lemma groups_ok_take: "groups_ok gs \<Longrightarrow> groups_ok (take n gs)"
  by (cases gs; cases n) (auto simp: groups_ok_def list_all_iff dest: in_set_takeD)

lemma groups_ok_tl: "groups_ok (g # gs) \<Longrightarrow> groups_ok gs"
  by (cases gs) (simp_all add: groups_ok_def)

lemma groups_ok_dropWhile: "groups_ok gs \<Longrightarrow> groups_ok (dropWhile p gs)"
  by (induction gs) (auto dest: groups_ok_tl)

lemma groups_ok_map:
  assumes "groups_ok gs" and "\<And>g. is_group g \<Longrightarrow> is_group (f g)"
    and "\<And>g. group_start g \<Longrightarrow> group_start (f g)"
  shows "groups_ok (map f gs)"
  using assms by (cases gs) (auto simp: groups_ok_def list_all_iff)

lemma utf8_chars_take_chars: "utf8_chars (take_chars n s) = take n (utf8_chars s)"
  by (simp add: take_chars_def utf8_chars_concat groups_ok_take groups_ok_utf8_chars)

lemma str_trim_segment: "\<exists>i j. str_trim s = concat (take j (drop i (utf8_chars s)))"
proof -
  let ?xs = "utf8_chars s"
  obtain ys where xs: "?xs = ys @ dropWhile char_is_whitespace ?xs"
    by (metis takeWhile_dropWhile_id)
  then have front: "dropWhile char_is_whitespace ?xs = drop (length ys) ?xs"
    by (metis append_eq_conv_conj)
  have rear: "\<exists>j. rev (dropWhile char_is_whitespace (rev zs)) = take j zs" for zs
    by (metis append_eq_conv_conj rev_append rev_rev_ident takeWhile_dropWhile_id)
  show ?thesis using rear [of "drop (length ys) ?xs"]
    unfolding str_trim_def front by metis
qed

lemma groups_ok_segment: "groups_ok gs \<Longrightarrow> groups_ok (take j (drop i gs))"
proof (induction i arbitrary: gs)
  case (Suc i)
  then show ?case by (cases gs) (auto dest: groups_ok_tl)
qed (simp add: groups_ok_take)

section \<open>Byte bounds of a character bound\<close>

definition str_ok :: "string \<Rightarrow> bool" where
  "str_ok s \<longleftrightarrow> list_all (\<lambda>ch. length ch \<le> 4) (utf8_chars s)"

fun json_ok :: "json \<Rightarrow> bool" where
  "json_ok (JStr s) = str_ok s"
| "json_ok (JArr xs) = (\<forall>x \<in> set xs. json_ok x)"
| "json_ok (JObj m) = (\<forall>e \<in> set m. json_ok (snd e))"
| "json_ok _ = True"

definition obj_utf8 :: "jobject \<Rightarrow> bool" where
  "obj_utf8 obj \<longleftrightarrow> (\<forall>e \<in> set obj. json_ok (snd e))"

lemma str_ok_trim: "str_ok s \<Longrightarrow> str_ok (str_trim s)"
proof -
  assume ok: "str_ok s"
  obtain i j where "str_trim s = concat (take j (drop i (utf8_chars s)))"
    using str_trim_segment by blast
  then have "utf8_chars (str_trim s) = take j (drop i (utf8_chars s))"
    by (simp add: utf8_chars_concat groups_ok_segment groups_ok_utf8_chars)
  then show ?thesis using ok by (auto simp: str_ok_def list_all_iff dest: in_set_takeD in_set_dropD)
qed

lemma length_concat_le: "list_all (\<lambda>g. length g \<le> k) gs \<Longrightarrow> length (concat gs) \<le> k * length gs"
  by (induction gs) auto

lemma str_ok_length: "str_ok s \<Longrightarrow> length s \<le> 4 * char_count s"
  using length_concat_le [of 4 "utf8_chars s"] by (simp add: str_ok_def char_count_def)

lemma take_chars_length: "str_ok s \<Longrightarrow> length (take_chars n s) \<le> 4 * n"
proof -
  assume "str_ok s"
  then have "list_all (\<lambda>g. length g \<le> 4) (take n (utf8_chars s))"
    by (auto simp: str_ok_def list_all_iff dest: in_set_takeD)
  from length_concat_le [OF this] have "length (take_chars n s) \<le> 4 * length (take n (utf8_chars s))"
    by (simp add: take_chars_def)
  also have "\<dots> \<le> 4 * n" by simp
  finally show ?thesis .
qed

lemma take_chars_count: "char_count (take_chars n s) \<le> n"
  by (simp add: char_count_def utf8_chars_take_chars)

lemma json_ok_get: "obj_utf8 obj \<Longrightarrow> map_of obj k = Some v \<Longrightarrow> json_ok v"
  by (auto simp: obj_utf8_def dest!: map_of_SomeD)

lemma as_object_utf8: "json_ok v \<Longrightarrow> as_object v = Some obj \<Longrightarrow> obj_utf8 obj"
  by (cases v) (auto simp: obj_utf8_def)

lemma as_array_utf8: "json_ok v \<Longrightarrow> as_array v = Some xs \<Longrightarrow> x \<in> set xs \<Longrightarrow> json_ok x"
  by (cases v) auto

lemma as_str_utf8: "json_ok v \<Longrightarrow> as_str v = Some s \<Longrightarrow> str_ok s"
  by (cases v) auto

lemma o_str_utf8: "obj_utf8 obj \<Longrightarrow> pred_option str_ok (o_str obj k)"
  by (auto simp: o_str_def pred_option_def elem_set bind_eq_Some_conv dest: json_ok_get as_str_utf8)

lemma o_obj_utf8: "obj_utf8 obj \<Longrightarrow> o_obj obj k = Some inner \<Longrightarrow> obj_utf8 inner"
  by (auto simp: o_obj_def bind_eq_Some_conv dest: json_ok_get as_object_utf8)

lemma o_arr_utf8: "obj_utf8 obj \<Longrightarrow> o_arr obj k = Some xs \<Longrightarrow> x \<in> set xs \<Longrightarrow> json_ok x"
  by (auto simp: o_arr_def bind_eq_Some_conv dest: json_ok_get as_array_utf8)

lemma trimmed_utf8: "pred_option str_ok x \<Longrightarrow> pred_option str_ok (trimmed x)"
  by (cases x) (simp_all add: trimmed_def opt_filter_def str_ok_trim)

lemma trimmed_SomeD: "pred_option str_ok x \<Longrightarrow> trimmed x = Some s \<Longrightarrow> str_ok s"
  using trimmed_utf8 [of x] by simp

lemma bounded_length: "pred_option str_ok x \<Longrightarrow> bounded n x = Some s \<Longrightarrow> length s \<le> 4 * n"
  by (auto simp: bounded_def intro: take_chars_length trimmed_SomeD)

lemma bounded_count: "bounded n x = Some s \<Longrightarrow> char_count s \<le> n \<and> (0 < n \<longrightarrow> s \<noteq> [])"
proof -
  assume "bounded n x = Some s"
  then obtain t where t: "s = take_chars n t" "t \<noteq> []"
    by (auto simp: bounded_def trimmed_def)
  then have "0 < n \<Longrightarrow> utf8_chars s \<noteq> []"
    by (cases t) (simp_all add: utf8_chars_take_chars)
  then show ?thesis using t by (auto simp: take_chars_count)
qed

section \<open>What the truncation keeps\<close>

lemma boundary_down_spec:
  "boundary_down s e \<le> e" "is_char_boundary s (boundary_down s e)"
  "is_char_boundary s i \<Longrightarrow> i \<le> e \<Longrightarrow> i \<le> boundary_down s e"
proof -
  show "boundary_down s e \<le> e" by (induction e) auto
  show "is_char_boundary s (boundary_down s e)" by (induction e) (auto simp: is_char_boundary_def)
  show "is_char_boundary s i \<Longrightarrow> i \<le> e \<Longrightarrow> i \<le> boundary_down s e"
    by (induction e) (auto simp: le_Suc_eq)
qed

text \<open>The boundaries of a string are the ends of its scalars.\<close>

lemma boundary_is_group_end:
  "is_char_boundary s i \<Longrightarrow> \<exists>k. i = length (concat (take k (utf8_chars s)))"
proof (induction s arbitrary: i rule: utf8_chars.induct)
  case 1
  then show ?case by (simp add: is_char_boundary_def)
next
  case (2 c cs)
  let ?g = "c # takeWhile is_utf8_cont cs" and ?r = "dropWhile is_utf8_cont cs"
  have split: "c # cs = ?g @ ?r" by simp
  consider "i = 0" | "0 < i" "i < length ?g" | "length ?g \<le> i" by linarith
  then show ?case
  proof cases
    case 1
    then show ?thesis by (intro exI [of _ 0]) simp
  next
    case 2
    then have "(c # cs) ! i = takeWhile is_utf8_cont cs ! (i - 1)"
      by (metis split nth_append nth_Cons_pos)
    then have "is_utf8_cont ((c # cs) ! i)"
      using 2 by (metis (no_types, lifting) One_nat_def Suc_less_eq Suc_pred length_Cons nth_mem set_takeWhileD)
    moreover have "i < length (c # cs)"
      using 2 by (metis split length_append trans_less_add1)
    ultimately show ?thesis using \<open>is_char_boundary (c # cs) i\<close> 2 by (auto simp: is_char_boundary_def)
  next
    case 3
    have "length (c # cs) = length ?g + length ?r" by (metis split length_append)
    moreover have "(c # cs) ! i = ?r ! (i - length ?g)" using 3 by (metis split nth_append linorder_not_less)
    ultimately have "is_char_boundary ?r (i - length ?g)"
      using \<open>is_char_boundary (c # cs) i\<close> 3 by (auto simp: is_char_boundary_def)
    from "2.IH" [OF this] obtain k where "i - length ?g = length (concat (take k (utf8_chars ?r)))" by blast
    then show ?thesis using 3 by (intro exI [of _ "Suc k"]) simp
  qed
qed

lemma group_end_boundary: "is_char_boundary s (length (concat (take k (utf8_chars s))))"
proof -
  define i where "i = length (concat (take k (utf8_chars s)))"
  have s: "s = concat (take k (utf8_chars s)) @ concat (drop k (utf8_chars s))"
    by (metis append_take_drop_id concat_append concat_utf8_chars)
  show ?thesis
  proof (cases "k = 0 \<or> drop k (utf8_chars s) = []")
    case True
    then show ?thesis
    proof
      assume "drop k (utf8_chars s) = []"
      then show ?thesis using s by (simp add: is_char_boundary_def)
    qed (simp add: is_char_boundary_def)
  next
    case False
    then obtain g gs where d: "drop k (utf8_chars s) = g # gs" by (metis neq_Nil_conv)
    have "group_start g"
    proof -
      have "g \<in> set (tl (utf8_chars s))"
        using d False by (cases "utf8_chars s"; cases k) (auto, metis in_set_dropD list.set_intros(1))
      then show ?thesis using groups_ok_utf8_chars [of s] by (auto simp: groups_ok_def list_all_iff)
    qed
    then obtain b bs where g: "g = b # bs" "\<not> is_utf8_cont b" by (auto simp: group_start_def neq_Nil_conv)
    have "s = concat (take k (utf8_chars s)) @ b # (bs @ concat gs)" using s d g by simp
    then have "i < length s \<and> s ! i = b"
      unfolding i_def by (metis length_append length_Cons less_add_same_cancel1 nth_append_length zero_less_Suc)
    then show ?thesis using g(2) unfolding i_def is_char_boundary_def by auto
  qed
qed

lemma truncate_utf8_bytes_spec:
  "\<exists>k. truncate_utf8_bytes s n = take_chars k s \<and> length (take_chars k s) \<le> n \<and>
       (\<forall>j. length (take_chars j s) \<le> n \<longrightarrow> length (take_chars j s) \<le> length (take_chars k s))"
proof (cases "length s \<le> n")
  case True
  have all: "take_chars (length (utf8_chars s)) s = s" by (simp add: take_chars_def)
  have "length (take_chars j s) \<le> length s" for j
    using append_take_drop_id [of j "utf8_chars s"] concat_append [of "take j (utf8_chars s)" "drop j (utf8_chars s)"]
    by (metis concat_utf8_chars le_add1 length_append take_chars_def)
  then show ?thesis using True all
    by (intro exI [of _ "length (utf8_chars s)"]) (simp add: truncate_utf8_bytes_def)
next
  case False
  obtain k where k: "boundary_down s n = length (take_chars k s)"
    using boundary_is_group_end [OF boundary_down_spec(2)] by (auto simp: take_chars_def)
  have "take (length (take_chars k s)) s = take_chars k s"
    using append_take_drop_id [of k "utf8_chars s"] concat_append [of "take k (utf8_chars s)" "drop k (utf8_chars s)"]
    by (metis append_eq_conv_conj concat_utf8_chars take_chars_def)
  moreover have "length (take_chars j s) \<le> n \<Longrightarrow> length (take_chars j s) \<le> length (take_chars k s)" for j
    using boundary_down_spec(3) [OF group_end_boundary [of s j], of n] k by (simp add: take_chars_def)
  ultimately show ?thesis using False k boundary_down_spec(1) [of s n]
    by (intro exI [of _ k]) (simp add: truncate_utf8_bytes_def)
qed

lemma truncate_utf8_bytes_le: "length (truncate_utf8_bytes s n) \<le> n"
  using truncate_utf8_bytes_spec [of s n] by auto

lemma map_take_chars: "\<exists>j. truncate_utf8_bytes s n = concat (take j (utf8_chars s))"
  using truncate_utf8_bytes_spec [of s n] by (auto simp: take_chars_def)

section \<open>File names are one path component\<close>

lemma str_ok_tl: "str_ok (c # cs) \<Longrightarrow> str_ok cs"
proof (cases cs)
  case (Cons d ds)
  assume "str_ok (c # cs)"
  then show ?thesis using Cons by (cases "is_utf8_cont d") (simp_all add: str_ok_def)
qed (simp add: str_ok_def)

lemma str_ok_drop: "str_ok (xs @ ys) \<Longrightarrow> str_ok ys"
  by (induction xs) (auto dest: str_ok_tl)

lemma str_ok_prefix: "str_ok (xs @ ys) \<Longrightarrow> str_ok xs"
proof (induction xs rule: utf8_chars.induct)
  case (2 c cs)
  show ?case
  proof (cases "\<forall>x \<in> set cs. is_utf8_cont x")
    case True
    then have "utf8_chars (dropWhile is_utf8_cont cs) = []"
      by (metis dropWhile_eq_Nil_conv utf8_chars.simps(1))
    then show ?thesis using "2.prems" True length_takeWhile_le [of is_utf8_cont cs]
      by (simp add: str_ok_def takeWhile_append)
  next
    case False
    have cut: "takeWhile is_utf8_cont (cs @ ys) = takeWhile is_utf8_cont cs"
      "dropWhile is_utf8_cont (cs @ ys) = dropWhile is_utf8_cont cs @ ys"
      using False by (simp_all only: takeWhile_append dropWhile_append if_False)
    show ?thesis using "2.IH" "2.prems" by (simp add: str_ok_def cut)
  qed
qed (simp add: str_ok_def)

lemma str_ok_map:
  assumes "\<And>c. is_utf8_cont (f c) = is_utf8_cont c"
  shows "str_ok (map f s) = str_ok s"
proof -
  have "utf8_chars (map f s) = map (map f) (utf8_chars s)"
    using assms by (induction s rule: utf8_chars.induct) (simp_all add: takeWhile_map dropWhile_map comp_def)
  then show ?thesis by (simp add: str_ok_def list_all_iff)
qed

lemma split_on_first: "\<exists>ps p ys. split_on d s = p # ps \<and> s = p @ ys"
  by (induction s) (auto split: if_splits)

lemma split_on_infix: "part \<in> set (split_on d s) \<Longrightarrow> \<exists>xs ys. s = xs @ part @ ys"
proof (induction s arbitrary: part)
  case (Cons c cs)
  obtain p ps ys where p: "split_on d cs = p # ps" "cs = p @ ys" using split_on_first by blast
  show ?case
  proof (cases "part \<in> set (split_on d cs)")
    case True
    then obtain xs zs where "cs = xs @ part @ zs" using Cons.IH by blast
    then show ?thesis by (metis append_Cons)
  next
    case False
    then have "part = [] \<or> part = c # p" using Cons.prems p by (auto split: if_splits)
    then show ?thesis using p(2) by (metis append_Cons append_Nil)
  qed
qed simp

lemma split_on_sep: "part \<in> set (split_on d s) \<Longrightarrow> d \<notin> set part"
  by (induction s arbitrary: part) (auto split: if_splits list.splits)

lemma truncate_utf8_bytes_ge:
  assumes "str_ok s" and "n < length s"
  shows "n < length (truncate_utf8_bytes s n) + 4"
proof -
  obtain k where k: "truncate_utf8_bytes s n = take_chars k s" "length (take_chars k s) \<le> n"
    and best: "length (take_chars (Suc k) s) \<le> n \<Longrightarrow> length (take_chars (Suc k) s) \<le> length (take_chars k s)"
    using truncate_utf8_bytes_spec [of s n] by blast
  have more: "k < length (utf8_chars s)"
  proof (rule ccontr)
    assume "\<not> k < length (utf8_chars s)"
    then have "take_chars k s = s" by (simp add: take_chars_def)
    then show False using k(2) assms(2) by simp
  qed
  then have len: "length (take_chars (Suc k) s) = length (take_chars k s) + length (utf8_chars s ! k)"
    by (simp add: take_chars_def take_Suc_conv_app_nth)
  have "utf8_chars s ! k \<noteq> []" "length (utf8_chars s ! k) \<le> 4"
    using more utf8_chars_groups [of s] assms(1) by (auto simp: str_ok_def list_all_length is_group_def)
  then show ?thesis using best len k(1) by (cases "length (take_chars (Suc k) s) \<le> n") auto
qed

lemma split_path_part:
  assumes "part \<in> set (split_path s)" and "str_ok s"
  shows "str_ok part" and "\<forall>c \<in> set part. c \<noteq> CHR ''/'' \<and> byte c \<noteq> 92"
proof -
  let ?f = "\<lambda>c. if byte c = 92 then CHR ''/'' else c"
  have part: "part \<in> set (split_on CHR ''/'' (map ?f s))" using assms(1) by (simp add: split_path_def)
  from split_on_infix [OF this] obtain xs ys where m: "map ?f s = xs @ part @ ys" by blast
  have "is_utf8_cont (?f c) = is_utf8_cont c" for c by (simp add: is_utf8_cont_def byte_def)
  then have "str_ok (map ?f s)" using assms(2) by (simp add: str_ok_map)
  then show "str_ok part" using m by (metis str_ok_drop str_ok_prefix)
  have "set part \<subseteq> set (map ?f s)" using m by auto
  then have "\<forall>c \<in> set part. byte c \<noteq> 92" by (auto simp: byte_def)
  then show "\<forall>c \<in> set part. c \<noteq> CHR ''/'' \<and> byte c \<noteq> 92"
    using split_on_sep [OF part] by auto
qed

lemma un_bidi_chars:
  "utf8_chars (un_bidi s) = map (\<lambda>ch. if is_bidi_control ch then replacement_char else ch) (utf8_chars s)"
proof -
  have "is_group replacement_char" "group_start replacement_char"
    by (simp_all add: replacement_char_def is_group_def group_start_def is_utf8_cont_def byte_def)
  then show ?thesis
    by (simp add: un_bidi_def utf8_chars_concat groups_ok_map groups_ok_utf8_chars)
qed

lemma replacement_facts: "\<not> is_bidi_control replacement_char" "replacement_char \<noteq> ''.''"
  "length replacement_char = 3" "\<forall>c \<in> set replacement_char. c \<noteq> CHR ''/'' \<and> byte c \<noteq> 92"
  by (simp_all add: replacement_char_def is_bidi_control_def byte_def char_of_eq_iff)

lemma str_ok_un_bidi: "str_ok s \<Longrightarrow> str_ok (un_bidi s)"
  by (auto simp: str_ok_def un_bidi_chars list_all_iff replacement_facts)

lemma un_bidi_dots: "un_bidi s = ''.'' \<Longrightarrow> s = ''.''" "un_bidi s = ''..'' \<Longrightarrow> s = ''..''"
proof -
  let ?r = "\<lambda>ch. if is_bidi_control ch then replacement_char else ch"
  have id: "map ?r gs = ds \<Longrightarrow> replacement_char \<notin> set ds \<Longrightarrow> gs = ds" for gs ds
    by (induction gs arbitrary: ds) (auto split: if_splits)
  have "utf8_chars (un_bidi s) = ds \<Longrightarrow> replacement_char \<notin> set ds \<Longrightarrow> s = concat ds" for ds
    using id [of "utf8_chars s" ds] concat_utf8_chars [of s] by (simp add: un_bidi_chars)
  from this [of "[''.'']"] this [of "[''.'', ''.'']"]
  show "un_bidi s = ''.'' \<Longrightarrow> s = ''.''" and "un_bidi s = ''..'' \<Longrightarrow> s = ''..''"
    using replacement_facts(2) by (simp_all add: is_utf8_cont_def byte_def)
qed

text \<open>
  C32. Whatever name a peer puts on an attachment, the stored file name is empty or a single path component: at
  most 1024 bytes, without a slash or a backslash, neither \<open>.\<close> nor \<open>..\<close>, and without a bidirectional control.
\<close>

theorem inbound_filename_is_one_component:
  assumes "str_ok name" and "f = sanitize_inbound_filename name" and "f \<noteq> []"
  shows "length f \<le> MAX_ATTACHMENT_FILENAME_BYTES \<and> list_all (\<lambda>c. c \<noteq> CHR ''/'' \<and> byte c \<noteq> 92) f \<and>
         f \<noteq> ''.'' \<and> f \<noteq> ''..'' \<and> \<not> list_ex is_bidi_control (utf8_chars f)"
proof -
  let ?r = "\<lambda>ch. if is_bidi_control ch then replacement_char else ch"
  obtain part where part: "find (\<lambda>part. part \<noteq> []) (rev (split_path name)) = Some part"
    and f: "f = truncate_utf8_bytes (un_bidi part) MAX_ATTACHMENT_FILENAME_BYTES"
    and dots: "part \<noteq> ''.''" "part \<noteq> ''..''"
    using assms(2,3) by (auto simp: sanitize_inbound_filename_def Let_def opt_default_def split: option.splits if_splits)
  have "part \<in> set (split_path name)" using find_Some_in [OF part] by simp
  from split_path_part [OF this assms(1)] have ok: "str_ok part"
    and plain: "\<forall>c \<in> set part. c \<noteq> CHR ''/'' \<and> byte c \<noteq> 92" by auto
  obtain j where j: "f = concat (take j (map ?r (utf8_chars part)))"
    using map_take_chars [of "un_bidi part"] f by (auto simp: un_bidi_chars)
  have "groups_ok (map ?r (utf8_chars part))"
    using groups_ok_utf8_chars [of "un_bidi part"] by (simp add: un_bidi_chars)
  then have chars: "utf8_chars f = take j (map ?r (utf8_chars part))"
    unfolding j by (intro utf8_chars_concat groups_ok_take)
  have sound: "\<not> is_bidi_control g \<and> (\<forall>c \<in> set g. c \<noteq> CHR ''/'' \<and> byte c \<noteq> 92)"
    if "g \<in> set (utf8_chars f)" for g
  proof -
    have "g \<in> set (map ?r (utf8_chars part))" by (rule in_set_takeD [OF that [unfolded chars]])
    then obtain h where h: "h \<in> set (utf8_chars part)" "g = ?r h" unfolding set_map by (rule imageE) blast
    have "set h \<subseteq> set (concat (utf8_chars part))" unfolding set_concat using h(1) by blast
    then have "set h \<subseteq> set part" by (simp only: concat_utf8_chars)
    then have "\<forall>c \<in> set h. c \<noteq> CHR ''/'' \<and> byte c \<noteq> 92" using plain by blast
    then show ?thesis using replacement_facts h(2) by (cases "is_bidi_control h") simp_all
  qed
  then have "\<not> list_ex is_bidi_control (utf8_chars f)" unfolding list_ex_iff by metis
  moreover have "list_all (\<lambda>c. c \<noteq> CHR ''/'' \<and> byte c \<noteq> 92) f"
    using sound set_concat [of "utf8_chars f"] unfolding concat_utf8_chars list_all_iff by (metis UN_E)
  moreover have "f \<noteq> ''.'' \<and> f \<noteq> ''..''"
  proof (cases "length (un_bidi part) \<le> MAX_ATTACHMENT_FILENAME_BYTES")
    case True
    then show ?thesis using dots by (auto simp: f truncate_utf8_bytes_def dest: un_bidi_dots)
  next
    case False
    then have "MAX_ATTACHMENT_FILENAME_BYTES < length f + 4"
      using truncate_utf8_bytes_ge [OF str_ok_un_bidi [OF ok]] by (simp add: f)
    then show ?thesis by (auto simp: MAX_ATTACHMENT_FILENAME_BYTES_def)
  qed
  ultimately show ?thesis using truncate_utf8_bytes_le f by simp
qed

theorem inbound_filename_is_one_component_witness:
  "sanitize_inbound_filename ''../x'' = ''x'' \<and> length ''x'' \<le> MAX_ATTACHMENT_FILENAME_BYTES \<and>
   \<not> list_ex is_bidi_control (utf8_chars ''x'')"
proof -
  have eq: "sanitize_inbound_filename ''../x'' = ''x''"
    by (simp add: sanitize_inbound_filename_def split_path_def byte_def opt_default_def un_bidi_def is_utf8_cont_def
        is_bidi_control_def truncate_utf8_bytes_def MAX_ATTACHMENT_FILENAME_BYTES_def)
  have "str_ok ''../x''" by (simp add: str_ok_def is_utf8_cont_def byte_def)
  from inbound_filename_is_one_component [OF this refl] show ?thesis by (simp add: eq)
qed

end
