(* ===== verification/Receive_Faces.thy ===== *)
theory Receive_Faces
  imports Receive_Text Base64_Codec
begin

text \<open>
  The multi-device faces of one receive envelope (\<open>src/engine.rs\<close>): the records a \<open>syncMessage\<close> carries, each with
  its normaliser, which reads a JSON object and keeps a bounded projection of it. An optional face is an
  \<open>option\<close>, an entry list an ordered list cut at its cap.
\<close>

section \<open>Caps\<close>

definition MRR_RESPONSE_TYPE_MAX :: nat where "MRR_RESPONSE_TYPE_MAX = 6"
definition GROUPV2_ID_LENGTH :: nat where "GROUPV2_ID_LENGTH = 32"
definition MAX_SYNC_READ_ENTRIES :: nat where "MAX_SYNC_READ_ENTRIES = 256"
definition MAX_SYNC_CONTACT_RECORDS :: nat where "MAX_SYNC_CONTACT_RECORDS = 512"
definition MAX_SYNC_BLOCKED_ENTRIES :: nat where "MAX_SYNC_BLOCKED_ENTRIES = 512"
definition MAX_SYNC_CONTACT_NAME_CHARS :: nat where "MAX_SYNC_CONTACT_NAME_CHARS = 64"
definition MAX_SYNC_DELETE_GROUPS :: nat where "MAX_SYNC_DELETE_GROUPS = 64"
definition MAX_SYNC_DELETE_GROUP_MESSAGES :: nat where "MAX_SYNC_DELETE_GROUP_MESSAGES = 256"
definition MAX_SYNC_DELETE_CONVERSATIONS :: nat where "MAX_SYNC_DELETE_CONVERSATIONS = 32"
definition MAX_SYNC_DELETE_CONVERSATION_ANCHORS :: nat where "MAX_SYNC_DELETE_CONVERSATION_ANCHORS = 16"
definition MAX_SYNC_LOCAL_ONLY_DELETE_CONVERSATIONS :: nat where "MAX_SYNC_LOCAL_ONLY_DELETE_CONVERSATIONS = 32"
definition MAX_SYNC_IDENTITY_KEY_CHARS :: nat where "MAX_SYNC_IDENTITY_KEY_CHARS = 128"
definition MAX_SYNC_CALL_ID_CHARS :: nat where "MAX_SYNC_CALL_ID_CHARS = 20"
definition MAX_SYNC_CALL_LINK_KEY_CHARS :: nat where "MAX_SYNC_CALL_LINK_KEY_CHARS = 128"
definition MAX_SYNC_SENT_STATUS_ENTRIES :: nat where "MAX_SYNC_SENT_STATUS_ENTRIES = 256"
definition MAX_STORY_DISTRIBUTION_IDS :: nat where "MAX_STORY_DISTRIBUTION_IDS = 64"
definition MAX_INBOUND_ATTACHMENTS :: nat where "MAX_INBOUND_ATTACHMENTS = 32"

definition MAX_BACKFILL_ERROR_WORD_CHARS :: nat where "MAX_BACKFILL_ERROR_WORD_CHARS = 64"
definition MAX_LOCATOR_BASE64_CHARS :: nat where "MAX_LOCATOR_BASE64_CHARS = 512"
definition MAX_LOCATOR_HEX_CHARS :: nat where "MAX_LOCATOR_HEX_CHARS = 128"

lemmas face_caps =
  MRR_RESPONSE_TYPE_MAX_def GROUPV2_ID_LENGTH_def MAX_SYNC_READ_ENTRIES_def MAX_SYNC_CONTACT_RECORDS_def
  MAX_SYNC_BLOCKED_ENTRIES_def MAX_SYNC_CONTACT_NAME_CHARS_def MAX_SYNC_DELETE_GROUPS_def
  MAX_SYNC_DELETE_GROUP_MESSAGES_def MAX_SYNC_DELETE_CONVERSATIONS_def MAX_SYNC_DELETE_CONVERSATION_ANCHORS_def
  MAX_SYNC_LOCAL_ONLY_DELETE_CONVERSATIONS_def MAX_SYNC_IDENTITY_KEY_CHARS_def MAX_SYNC_CALL_ID_CHARS_def
  MAX_SYNC_CALL_LINK_KEY_CHARS_def MAX_SYNC_SENT_STATUS_ENTRIES_def MAX_STORY_DISTRIBUTION_IDS_def
  MAX_INBOUND_ATTACHMENTS_def MAX_BACKFILL_ERROR_WORD_CHARS_def MAX_LOCATOR_BASE64_CHARS_def
  MAX_LOCATOR_HEX_CHARS_def MAX_RECEIVE_ID_CHARS_def

section \<open>Records\<close>

record sync_read_entry =
  sre_sender_uuid :: string
  sre_sender_number :: "string option"
  sre_timestamp :: nat

record sync_delete_entry =
  sde_author :: string
  sde_timestamp :: nat

record sync_delete_group =
  sdg_conversation_id :: "string option"
  sdg_messages :: "sync_delete_entry list"

record sync_delete_conversation =
  sdc_conversation_id :: string
  sdc_is_full_delete :: bool
  sdc_most_recent :: "sync_delete_entry list"
  sdc_most_recent_non_expiring :: "sync_delete_entry list"

record sync_delete_attachment =
  sda_conversation_id :: string
  sda_target :: sync_delete_entry
  sda_client_uuid :: "string option"
  sda_fallback_digest :: "string option"
  sda_fallback_plaintext_hash :: "string option"

text \<open>A local-only conversation delete is its conversation id.\<close>

record sync_delete_for_me =
  dfm_groups :: "sync_delete_group list"
  dfm_conversations :: "sync_delete_conversation list"
  dfm_local_only_conversations :: "string list"
  dfm_attachments :: "sync_delete_attachment list"

record sync_verified_state =
  sv_destination_uuid :: string
  sv_destination_number :: "string option"
  sv_identity_key :: "string option"
  sv_state :: string

record sync_call_event =
  sce_call_id :: string
  sce_timestamp :: nat
  sce_kind :: "string option"
  sce_direction :: "string option"
  sce_outcome :: "string option"
  sce_conversation_id :: "string option"

record sync_configuration_flags =
  scf_read_receipts :: "bool option"
  scf_unidentified_delivery_indicators :: "bool option"
  scf_typing_indicators :: "bool option"
  scf_link_previews :: "bool option"

record sync_call_link_update =
  scl_kind :: string
  scl_root_key :: string
  scl_admin_key :: "string option"

record sync_call_log_event =
  slg_kind :: string
  slg_timestamp :: "nat option"
  slg_conversation_id :: "string option"
  slg_call_id :: "nat option"

record sync_pni_change_number =
  spn_registration_id :: "nat option"
  spn_new_e164 :: "string option"

record sync_contact_record =
  scr_aci :: string
  scr_number :: "string option"
  scr_name :: "string option"

record sync_blocked =
  sb_numbers :: "string list"
  sb_acis :: "string list"
  sb_group_ids :: "string list"

record attachment_locator =
  al_key :: "string option"
  al_cdn_key :: "string option"
  al_cdn_number :: "nat option"
  al_upload_timestamp :: "nat option"
  al_digest :: "string option"
  al_plaintext_hash :: "string option"

datatype backfill_status = Pending | Terminal | Unknown

datatype backfill_entry = Locator "attachment_locator option" | Status backfill_status

record sync_backfill_response =
  bf_author :: string
  bf_sent_timestamp :: nat
  bf_conversation_service_id :: "string option"
  bf_conversation_group_id :: "string option"
  bf_conversation_e164 :: "string option"
  bf_error :: "string option"
  bf_entries :: "backfill_entry list"
  bf_long_text :: "backfill_entry option"

record story_recipient =
  sr_destination_uuid :: "string option"
  sr_distribution_list_ids :: "string list"
  sr_is_allowed_to_reply :: "bool option"

record message_request_response =
  mrr_response_type :: nat
  mrr_thread_aci :: "string option"
  mrr_group_id :: "string option"
  mrr_timestamp :: "nat option"

section \<open>Normalisers\<close>

text \<open>A trimmed string kept whole or not at all.\<close>

definition bounded_whole :: "nat \<Rightarrow> string option \<Rightarrow> string option" where
  "bounded_whole n x = opt_filter (\<lambda>s. char_count s \<le> n) (trimmed x)"

definition bounded_id :: "string option \<Rightarrow> string option" where
  "bounded_id = bounded MAX_RECEIVE_ID_CHARS"

definition normalized_message_request_response :: "jobject \<Rightarrow> message_request_response option" where
  "normalized_message_request_response face =
     do {
       response_type \<leftarrow> opt_filter (\<lambda>v. 1 \<le> v \<and> v \<le> MRR_RESPONSE_TYPE_MAX)
                          (Option.bind (o_u64 face ''messageRequestResponseType'') try_u8);
       (aci, grp) \<leftarrow>
         (case (o_str face ''threadAci'', o_str face ''groupId'') of
            (Some aci, None) \<Rightarrow>
              if is_service_id_uuid (str_trim aci) then Some (Some (str_trim aci), None) else None
          | (None, Some grp) \<Rightarrow>
              do {
                decoded \<leftarrow> base64_decode_to_vec (str_trim grp);
                if length decoded \<noteq> GROUPV2_ID_LENGTH then None else Some (None, Some (str_trim grp))
              }
          | _ \<Rightarrow> None);
       Some \<lparr>mrr_response_type = response_type, mrr_thread_aci = aci, mrr_group_id = grp,
             mrr_timestamp = o_u64 face ''timestamp''\<rparr>
     }"

definition sync_read_entry_of :: "json \<Rightarrow> sync_read_entry option" where
  "sync_read_entry_of entry =
     do {
       obj \<leftarrow> as_object entry;
       sender_uuid \<leftarrow> bounded_id (o_str obj ''senderUuid'');
       timestamp \<leftarrow> positive (o_u64 obj ''timestamp'');
       Some \<lparr>sre_sender_uuid = sender_uuid, sre_sender_number = bounded_id (o_str obj ''senderNumber''),
             sre_timestamp = timestamp\<rparr>
     }"

definition normalized_sync_read_entries :: "json option \<Rightarrow> sync_read_entry list" where
  "normalized_sync_read_entries v =
     (case Option.bind v as_array of
        None \<Rightarrow> []
      | Some entries \<Rightarrow> List.map_filter sync_read_entry_of (take MAX_SYNC_READ_ENTRIES entries))"

definition bounded_b64 :: "jobject \<Rightarrow> string \<Rightarrow> string option" where
  "bounded_b64 raw name =
     opt_filter (\<lambda>text. text \<noteq> [] \<and> length text \<le> MAX_LOCATOR_BASE64_CHARS) (o_str raw name)"

definition default_locator :: attachment_locator where
  "default_locator = \<lparr>al_key = None, al_cdn_key = None, al_cdn_number = None, al_upload_timestamp = None,
                      al_digest = None, al_plaintext_hash = None\<rparr>"

definition normalized_locator_face :: "json \<Rightarrow> attachment_locator option" where
  "normalized_locator_face v =
     do {
       raw \<leftarrow> as_object v;
       let face = \<lparr>al_key = bounded_b64 raw ''key'', al_cdn_key = bounded_b64 raw ''cdnKey'',
                   al_cdn_number = opt_filter (\<lambda>n. n \<le> u32_max) (o_u64 raw ''cdnNumber''),
                   al_upload_timestamp = positive (o_u64 raw ''uploadTimestamp''),
                   al_digest = bounded_b64 raw ''digest'',
                   al_plaintext_hash =
                     map_option to_ascii_lowercase
                       (opt_filter (\<lambda>text. text \<noteq> [] \<and> length text \<le> MAX_LOCATOR_HEX_CHARS \<and>
                                            list_all is_ascii_hexdigit text)
                          (o_str raw ''plaintextHash''))\<rparr>;
       (if face \<noteq> default_locator then Some face else None)
     }"

definition normalized_backfill_entry :: "json \<Rightarrow> backfill_entry" where
  "normalized_backfill_entry entry =
     (case as_object entry of
        None \<Rightarrow> Status Unknown
      | Some obj \<Rightarrow>
          (case map_of obj ''attachment'' of
             Some attachment \<Rightarrow>
               (case as_object attachment of
                  Some a \<Rightarrow> Locator (Option.bind (map_of a ''locator'') normalized_locator_face)
                | None \<Rightarrow> Status Unknown)
           | None \<Rightarrow>
               (let status = o_str obj ''status''
                in if status = Some ''PENDING'' then Status Pending
                   else if status = Some ''TERMINAL_ERROR'' then Status Terminal
                   else Status Unknown)))"

definition normalized_sync_attachment_backfill_response :: "json option \<Rightarrow> sync_backfill_response option" where
  "normalized_sync_attachment_backfill_response v =
     do {
       face \<leftarrow> Option.bind v as_object;
       target \<leftarrow> o_obj face ''targetMessage'';
       author \<leftarrow> bounded_id (o_str target ''author'');
       sent_timestamp \<leftarrow> positive (o_u64 target ''sentTimestamp'');
       conversation \<leftarrow> o_obj face ''targetConversation'';
       let service_id = bounded_id (o_str conversation ''serviceId'');
       let group_id = bounded_id (o_str conversation ''groupId'');
       let e164 = bounded_id (o_str conversation ''e164'');
       (if service_id = None \<and> group_id = None \<and> e164 = None then None
        else (case o_str face ''error'' of
                Some error \<Rightarrow>
                  Some \<lparr>bf_author = author, bf_sent_timestamp = sent_timestamp,
                        bf_conversation_service_id = service_id, bf_conversation_group_id = group_id,
                        bf_conversation_e164 = e164,
                        bf_error = Some (take_chars MAX_BACKFILL_ERROR_WORD_CHARS error),
                        bf_entries = [], bf_long_text = None\<rparr>
              | None \<Rightarrow>
                  do {
                    entries \<leftarrow> o_arr face ''attachments'';
                    Some \<lparr>bf_author = author, bf_sent_timestamp = sent_timestamp,
                          bf_conversation_service_id = service_id, bf_conversation_group_id = group_id,
                          bf_conversation_e164 = e164, bf_error = None,
                          bf_entries = map normalized_backfill_entry (take MAX_INBOUND_ATTACHMENTS entries),
                          bf_long_text =
                            map_option normalized_backfill_entry
                              (opt_filter (\<lambda>v. v \<noteq> JNull) (map_of face ''longText''))\<rparr>
                  }))
     }"

subsection \<open>Delete for me\<close>

definition sync_delete_entry_of :: "json \<Rightarrow> sync_delete_entry option" where
  "sync_delete_entry_of entry =
     do {
       obj \<leftarrow> as_object entry;
       author \<leftarrow> bounded_id (o_str obj ''author'');
       timestamp \<leftarrow> positive (o_u64 obj ''timestamp'');
       Some \<lparr>sde_author = author, sde_timestamp = timestamp\<rparr>
     }"

definition normalized_sync_delete_entries :: "json option \<Rightarrow> nat \<Rightarrow> sync_delete_entry list" where
  "normalized_sync_delete_entries entries cap =
     (case Option.bind entries as_array of
        None \<Rightarrow> []
      | Some es \<Rightarrow> List.map_filter sync_delete_entry_of (take cap es))"

text \<open>\<open>value.and_then(|face| face.get(key)).and_then(Value::as_array)\<close>\<close>

definition face_array :: "json option \<Rightarrow> string \<Rightarrow> json list" where
  "face_array v key = opt_default [] (Option.bind (Option.bind v (\<lambda>face. json_get face key)) as_array)"

definition sync_delete_conversation_of :: "json \<Rightarrow> sync_delete_conversation option" where
  "sync_delete_conversation_of grp =
     do {
       obj \<leftarrow> as_object grp;
       conversation_id \<leftarrow> bounded_id (o_str obj ''conversationId'');
       let most_recent =
         normalized_sync_delete_entries (map_of obj ''mostRecentMessages'') MAX_SYNC_DELETE_CONVERSATION_ANCHORS;
       (if most_recent = [] then None
        else Some \<lparr>sdc_conversation_id = conversation_id,
                   sdc_is_full_delete = (o_bool obj ''isFullDelete'' = Some True),
                   sdc_most_recent = most_recent,
                   sdc_most_recent_non_expiring =
                     normalized_sync_delete_entries (map_of obj ''mostRecentNonExpiringMessages'')
                       MAX_SYNC_DELETE_CONVERSATION_ANCHORS\<rparr>)
     }"

definition normalized_sync_delete_conversations :: "json option \<Rightarrow> sync_delete_conversation list" where
  "normalized_sync_delete_conversations v =
     List.map_filter sync_delete_conversation_of
       (take MAX_SYNC_DELETE_CONVERSATIONS (face_array v ''conversationDeletes''))"

definition normalized_sync_local_only_conversations :: "json option \<Rightarrow> string list" where
  "normalized_sync_local_only_conversations v =
     List.map_filter
       (\<lambda>grp. do { obj \<leftarrow> as_object grp; bounded_id (o_str obj ''conversationId'') })
       (take MAX_SYNC_LOCAL_ONLY_DELETE_CONVERSATIONS (face_array v ''localOnlyConversationDeletes''))"

definition sync_delete_attachment_of :: "json \<Rightarrow> sync_delete_attachment option" where
  "sync_delete_attachment_of attachment =
     do {
       obj \<leftarrow> as_object attachment;
       conversation_id \<leftarrow> bounded_id (o_str obj ''conversationId'');
       target \<leftarrow> o_obj obj ''targetMessage'';
       author \<leftarrow> bounded_id (o_str target ''author'');
       timestamp \<leftarrow> positive (o_u64 target ''timestamp'');
       let client_uuid = bounded_whole MAX_RECEIVE_ID_CHARS (o_str obj ''clientUuid'');
       let fallback_digest = bounded_whole MAX_RECEIVE_ID_CHARS (o_str obj ''fallbackDigest'');
       let fallback_hash =
         map_option to_ascii_lowercase
           (opt_filter (list_all is_ascii_hexdigit)
              (bounded_whole MAX_RECEIVE_ID_CHARS (o_str obj ''fallbackPlaintextHash'')));
       (if client_uuid = None \<and> fallback_digest = None \<and> fallback_hash = None then None
        else Some \<lparr>sda_conversation_id = conversation_id,
                   sda_target = \<lparr>sde_author = author, sde_timestamp = timestamp\<rparr>,
                   sda_client_uuid = client_uuid, sda_fallback_digest = fallback_digest,
                   sda_fallback_plaintext_hash = fallback_hash\<rparr>)
     }"

definition normalized_sync_delete_attachments :: "json option \<Rightarrow> sync_delete_attachment list" where
  "normalized_sync_delete_attachments v =
     List.map_filter sync_delete_attachment_of
       (take MAX_SYNC_DELETE_GROUP_MESSAGES (face_array v ''attachmentDeletes''))"

definition sync_delete_group_of :: "json \<Rightarrow> sync_delete_group option" where
  "sync_delete_group_of grp =
     do {
       obj \<leftarrow> as_object grp;
       let messages = normalized_sync_delete_entries (map_of obj ''messages'') MAX_SYNC_DELETE_GROUP_MESSAGES;
       (if messages = [] then None
        else Some \<lparr>sdg_conversation_id = bounded_id (o_str obj ''conversationId''), sdg_messages = messages\<rparr>)
     }"

definition normalized_sync_delete_groups :: "json option \<Rightarrow> sync_delete_group list" where
  "normalized_sync_delete_groups v =
     List.map_filter sync_delete_group_of (take MAX_SYNC_DELETE_GROUPS (face_array v ''messageDeletes''))"

definition normalized_sync_delete_for_me :: "json option \<Rightarrow> sync_delete_for_me" where
  "normalized_sync_delete_for_me v =
     \<lparr>dfm_groups = normalized_sync_delete_groups v,
      dfm_conversations = normalized_sync_delete_conversations v,
      dfm_local_only_conversations = normalized_sync_local_only_conversations v,
      dfm_attachments = normalized_sync_delete_attachments v\<rparr>"

definition delete_for_me_is_empty :: "sync_delete_for_me \<Rightarrow> bool" where
  "delete_for_me_is_empty d \<longleftrightarrow>
     dfm_groups d = [] \<and> dfm_conversations d = [] \<and> dfm_local_only_conversations d = [] \<and>
     dfm_attachments d = []"

subsection \<open>Single-record faces\<close>

definition normalized_sync_verified :: "json option \<Rightarrow> sync_verified_state option" where
  "normalized_sync_verified v =
     do {
       obj \<leftarrow> Option.bind v as_object;
       state \<leftarrow> opt_filter (\<lambda>s. s \<in> set [''verified'', ''unverified'', ''default'']) (o_str obj ''state'');
       destination_uuid \<leftarrow> opt_filter is_service_id_uuid (map_option str_trim (o_str obj ''destinationUuid''));
       Some \<lparr>sv_destination_uuid = destination_uuid,
             sv_destination_number = optional_bounded_string (map_of obj ''destinationNumber''),
             sv_identity_key = bounded_whole MAX_SYNC_IDENTITY_KEY_CHARS (o_str obj ''identityKey''),
             sv_state = state\<rparr>
     }"

definition word_key :: "jobject \<Rightarrow> string \<Rightarrow> string list \<Rightarrow> string option" where
  "word_key obj key words = Option.bind (o_str obj key) (\<lambda>word. find (\<lambda>member. member = word) words)"

definition normalized_sync_call_event :: "json option \<Rightarrow> sync_call_event option" where
  "normalized_sync_call_event v =
     do {
       obj \<leftarrow> Option.bind v as_object;
       call_id \<leftarrow> opt_filter (\<lambda>i. i \<noteq> [] \<and> length i \<le> MAX_SYNC_CALL_ID_CHARS \<and> list_all is_ascii_digit i)
                    (map_option str_trim (o_str obj ''callId''));
       timestamp \<leftarrow> positive (o_u64 obj ''timestamp'');
       Some \<lparr>sce_call_id = call_id, sce_timestamp = timestamp,
             sce_kind = word_key obj ''type'' [''audio'', ''video'', ''group'', ''ad-hoc'', ''unknown''],
             sce_direction = word_key obj ''direction'' [''outgoing'', ''incoming'', ''unknown''],
             sce_outcome = word_key obj ''event'' [''accepted'', ''not-accepted'', ''delete'', ''observed'', ''unknown''],
             sce_conversation_id = optional_bounded_string (map_of obj ''conversationId'')\<rparr>
     }"

definition normalized_sync_configuration :: "json option \<Rightarrow> sync_configuration_flags option" where
  "normalized_sync_configuration v =
     do {
       obj \<leftarrow> Option.bind v as_object;
       let flags = \<lparr>scf_read_receipts = o_bool obj ''readReceipts'',
                    scf_unidentified_delivery_indicators = o_bool obj ''unidentifiedDeliveryIndicators'',
                    scf_typing_indicators = o_bool obj ''typingIndicators'',
                    scf_link_previews = o_bool obj ''linkPreviews''\<rparr>;
       (if scf_read_receipts flags = None \<and> scf_unidentified_delivery_indicators flags = None \<and>
           scf_typing_indicators flags = None \<and> scf_link_previews flags = None
        then None else Some flags)
     }"

definition normalized_sync_fetch_latest :: "json option \<Rightarrow> string option option" where
  "normalized_sync_fetch_latest v =
     do {
       obj \<leftarrow> Option.bind v as_object;
       Some (word_key obj ''type'' [''UNKNOWN'', ''LOCAL_PROFILE'', ''STORAGE_MANIFEST'', ''SUBSCRIPTION_STATUS''])
     }"

definition normalized_sync_call_link_update :: "json option \<Rightarrow> sync_call_link_update option" where
  "normalized_sync_call_link_update v =
     do {
       obj \<leftarrow> Option.bind v as_object;
       kind \<leftarrow> opt_filter (\<lambda>k. k = ''UPDATE'') (o_str obj ''type'');
       root_key \<leftarrow> bounded_whole MAX_SYNC_CALL_LINK_KEY_CHARS (o_str obj ''rootKey'');
       Some \<lparr>scl_kind = kind, scl_root_key = root_key,
             scl_admin_key = bounded_whole MAX_SYNC_CALL_LINK_KEY_CHARS (o_str obj ''adminKey'')\<rparr>
     }"

definition normalized_sync_call_log_event :: "json option \<Rightarrow> sync_call_log_event option" where
  "normalized_sync_call_log_event v =
     do {
       obj \<leftarrow> Option.bind v as_object;
       kind \<leftarrow> opt_filter
                 (\<lambda>k. k \<in> set [''CLEAR'', ''MARKED_AS_READ'', ''MARKED_AS_READ_IN_CONVERSATION'', ''CLEAR_IN_CONVERSATION''])
                 (o_str obj ''type'');
       Some \<lparr>slg_kind = kind, slg_timestamp = o_u64 obj ''timestamp'',
             slg_conversation_id = optional_bounded_string (map_of obj ''conversationId''),
             slg_call_id = o_u64 obj ''callId''\<rparr>
     }"

definition normalized_sync_device_name_change :: "json option \<Rightarrow> nat option" where
  "normalized_sync_device_name_change v =
     do { obj \<leftarrow> Option.bind v as_object; n \<leftarrow> o_u64 obj ''deviceId''; try_u32 n }"

definition normalized_sync_pni_change_number :: "json option \<Rightarrow> sync_pni_change_number option" where
  "normalized_sync_pni_change_number v =
     do {
       obj \<leftarrow> Option.bind v as_object;
       let change = \<lparr>spn_registration_id = Option.bind (o_u64 obj ''registrationId'') try_u32,
                     spn_new_e164 = optional_bounded_string (map_of obj ''newE164'')\<rparr>;
       (if spn_registration_id change = None \<and> spn_new_e164 change = None then None else Some change)
     }"

subsection \<open>Contacts, blocks and story recipients\<close>

definition sync_contact_record_of :: "json \<Rightarrow> sync_contact_record option" where
  "sync_contact_record_of entry =
     do {
       obj \<leftarrow> as_object entry;
       aci \<leftarrow> bounded_id (o_str obj ''aci'');
       Some \<lparr>scr_aci = aci, scr_number = bounded_id (o_str obj ''number''),
             scr_name = bounded MAX_SYNC_CONTACT_NAME_CHARS (o_str obj ''name'')\<rparr>
     }"

definition normalized_sync_contact_records :: "json option \<Rightarrow> sync_contact_record list" where
  "normalized_sync_contact_records v =
     List.map_filter sync_contact_record_of (take MAX_SYNC_CONTACT_RECORDS (face_array v ''records''))"

datatype block_class = ModernE164 | ModernAci | ModernGroup | LegacyNumber | LegacyAci | LegacyGroup

definition push_identity :: "block_class \<Rightarrow> sync_blocked \<Rightarrow> json \<Rightarrow> sync_blocked" where
  "push_identity class blocked raw =
     (case bounded_id (Option.bind
             (case class of
                ModernE164 \<Rightarrow> json_get raw ''e164''
              | ModernAci \<Rightarrow> json_get raw ''aci''
              | ModernGroup \<Rightarrow> json_get raw ''groupId''
              | _ \<Rightarrow> Some raw) as_str) of
        None \<Rightarrow> blocked
      | Some identity \<Rightarrow>
          (if class = ModernE164 \<or> class = LegacyNumber
           then blocked\<lparr>sb_numbers := sb_numbers blocked @ [identity]\<rparr>
           else if class = ModernAci \<or> class = LegacyAci
           then blocked\<lparr>sb_acis := sb_acis blocked @ [identity]\<rparr>
           else blocked\<lparr>sb_group_ids := sb_group_ids blocked @ [identity]\<rparr>))"

definition push_class :: "jobject \<Rightarrow> block_class \<times> string \<Rightarrow> sync_blocked \<Rightarrow> sync_blocked" where
  "push_class face ck blocked =
     foldl (push_identity (fst ck)) blocked (take MAX_SYNC_BLOCKED_ENTRIES (opt_default [] (o_arr face (snd ck))))"

definition block_keys :: "(block_class \<times> string) list" where
  "block_keys =
     [(ModernE164, ''blockedE164s''), (ModernAci, ''blockedAcis''), (ModernGroup, ''blockedGroups''),
      (LegacyNumber, ''numbers''), (LegacyAci, ''acis''), (LegacyAci, ''acisBinary''), (LegacyGroup, ''groupIds'')]"

text \<open>\<open>sort\<close>, \<open>dedup\<close> and \<open>truncate\<close>.\<close>

definition settle_list :: "string list \<Rightarrow> string list" where
  "settle_list xs = take MAX_SYNC_BLOCKED_ENTRIES (remdups_adj (sort xs))"

definition normalized_sync_blocked :: "json option \<Rightarrow> sync_blocked option" where
  "normalized_sync_blocked v =
     do {
       face \<leftarrow> Option.bind v as_object;
       let raw = fold (push_class face) block_keys \<lparr>sb_numbers = [], sb_acis = [], sb_group_ids = []\<rparr>;
       let blocked = \<lparr>sb_numbers = settle_list (sb_numbers raw), sb_acis = settle_list (sb_acis raw),
                      sb_group_ids = settle_list (sb_group_ids raw)\<rparr>;
       (if sb_numbers blocked = [] \<and> sb_acis blocked = [] \<and> sb_group_ids blocked = [] then None else Some blocked)
     }"

definition normalized_story_recipient :: "jobject \<Rightarrow> story_recipient" where
  "normalized_story_recipient obj =
     \<lparr>sr_destination_uuid = bounded_id (o_str obj ''destinationUuid''),
      sr_distribution_list_ids =
        List.map_filter (\<lambda>v. bounded_id (as_str v))
          (take MAX_STORY_DISTRIBUTION_IDS (opt_default [] (o_arr obj ''distributionListIds''))),
      sr_is_allowed_to_reply = o_bool obj ''isAllowedToReply''\<rparr>"

definition story_recipients :: "json list \<Rightarrow> story_recipient list" where
  "story_recipients entries =
     List.map_filter (\<lambda>e. map_option normalized_story_recipient (as_object e))
       (take MAX_SYNC_SENT_STATUS_ENTRIES entries)"

definition normalized_sync_story_recipient_update :: "json option \<Rightarrow> (nat \<times> story_recipient list) option" where
  "normalized_sync_story_recipient_update v =
     do {
       face \<leftarrow> Option.bind v as_object;
       timestamp \<leftarrow> positive (o_u64 face ''timestamp'');
       entries \<leftarrow> o_arr face ''storyMessageRecipients'';
       (if story_recipients entries = [] then None else Some (timestamp, story_recipients entries))
     }"

end
