(* ===== verification/Receive_Content.thy ===== *)
theory Receive_Content
  imports Receive_Faces
begin

text \<open>
  The content faces of one receive envelope (\<open>src/engine.rs\<close>, and the contact card reader of
  \<open>src/history_import.rs\<close>): body text, quote, attachments, sticker, contact card, rich payload, poll, and the
  control payloads that ride a data message. \<open>ser\<close> stands for the length of \<open>serde_json::to_string\<close>. A rich payload has the
  fields the live path sets; the others keep their defaults there. A duration is kept as its JSON number.
\<close>

section \<open>Caps\<close>

definition MAX_INBOUND_TEXT_BYTES :: nat where "MAX_INBOUND_TEXT_BYTES = 128 * 1024"
definition MAX_INBOUND_TEXT_PREVIEW_BYTES :: nat where "MAX_INBOUND_TEXT_PREVIEW_BYTES = 4 * 1024"
definition MAX_QUOTE_TEXT_CHARS :: nat where "MAX_QUOTE_TEXT_CHARS = 128"
definition MAX_ATTACHMENT_ID_CHARS :: nat where "MAX_ATTACHMENT_ID_CHARS = 128"
definition MAX_ATTACHMENT_CONTENT_TYPE_CHARS :: nat where "MAX_ATTACHMENT_CONTENT_TYPE_CHARS = 64"
definition MAX_ATTACHMENT_WAVEFORM_CHARS :: nat where "MAX_ATTACHMENT_WAVEFORM_CHARS = 512"
definition MAX_ATTACHMENT_BLUR_HASH_CHARS :: nat where "MAX_ATTACHMENT_BLUR_HASH_CHARS = 128"
definition MAX_EMOJI_CHARS :: nat where "MAX_EMOJI_CHARS = 16"
definition MAX_QUOTE_ATTACHMENTS :: nat where "MAX_QUOTE_ATTACHMENTS = 8"
definition MAX_GROUP_CHANGED_BYTES :: nat where "MAX_GROUP_CHANGED_BYTES = 64 * 1024"
definition GROUP_CHANGED_MAX_CHANGES :: nat where "GROUP_CHANGED_MAX_CHANGES = 32"
definition MAX_PREVIEWS :: nat where "MAX_PREVIEWS = 4"
definition MAX_MENTIONS :: nat where "MAX_MENTIONS = 64"
definition MAX_TEXT_STYLES :: nat where "MAX_TEXT_STYLES = 64"
definition MAX_PREVIEW_URL_CHARS :: nat where "MAX_PREVIEW_URL_CHARS = 2048"
definition MAX_PREVIEW_FIELD_BYTES :: nat where "MAX_PREVIEW_FIELD_BYTES = 512"
definition MAX_MENTION_NAME_BYTES :: nat where "MAX_MENTION_NAME_BYTES = 128"
definition MAX_STICKER_PACK_ID_CHARS :: nat where "MAX_STICKER_PACK_ID_CHARS = 64"
definition MAX_STICKER_PACK_KEY_CHARS :: nat where "MAX_STICKER_PACK_KEY_CHARS = 128"
definition MAX_STICKER_EMOJI_CHARS :: nat where "MAX_STICKER_EMOJI_CHARS = 32"
definition MAX_CONTACT_NAME_CHARS :: nat where "MAX_CONTACT_NAME_CHARS = 128"
definition MAX_CONTACT_VALUE_CHARS :: nat where "MAX_CONTACT_VALUE_CHARS = 256"
definition MAX_CONTACT_LABEL_CHARS :: nat where "MAX_CONTACT_LABEL_CHARS = 64"
definition MAX_CONTACT_ORGANIZATION_CHARS :: nat where "MAX_CONTACT_ORGANIZATION_CHARS = 128"
definition MAX_CONTACT_ENTRIES :: nat where "MAX_CONTACT_ENTRIES = 8"
definition GROUP_UPDATE_TITLE_MIRROR_CHARS :: nat where "GROUP_UPDATE_TITLE_MIRROR_CHARS = 64"
definition GROUP_UPDATED_EDITOR_MAX_BYTES :: nat where "GROUP_UPDATED_EDITOR_MAX_BYTES = 64"
definition MAX_CALL_ID :: nat where "MAX_CALL_ID = u32_max"
definition MAX_CALL_OPAQUE_CHARS :: nat where "MAX_CALL_OPAQUE_CHARS = 3 * 1024 * 1024"
definition MAX_CALL_ICE_FRAMES :: nat where "MAX_CALL_ICE_FRAMES = 64"
definition MAX_LIVE_POLL_QUESTION_CHARS :: nat where "MAX_LIVE_POLL_QUESTION_CHARS = 256"
definition MAX_LIVE_POLL_OPTION_CHARS :: nat where "MAX_LIVE_POLL_OPTION_CHARS = 256"
definition MAX_LIVE_POLL_OPTIONS :: nat where "MAX_LIVE_POLL_OPTIONS = 32"
definition MAX_LIVE_POLL_VOTE_INDEXES :: nat where "MAX_LIVE_POLL_VOTE_INDEXES = 32"
definition MAX_STORY_MATERIAL_BYTES :: nat where "MAX_STORY_MATERIAL_BYTES = 3 * 1024 * 1024"

lemmas content_caps =
  MAX_INBOUND_TEXT_BYTES_def MAX_INBOUND_TEXT_PREVIEW_BYTES_def MAX_QUOTE_TEXT_CHARS_def
  MAX_ATTACHMENT_ID_CHARS_def MAX_ATTACHMENT_CONTENT_TYPE_CHARS_def MAX_ATTACHMENT_WAVEFORM_CHARS_def
  MAX_ATTACHMENT_BLUR_HASH_CHARS_def MAX_EMOJI_CHARS_def MAX_QUOTE_ATTACHMENTS_def MAX_PREVIEWS_def
  MAX_MENTIONS_def MAX_TEXT_STYLES_def MAX_PREVIEW_URL_CHARS_def MAX_PREVIEW_FIELD_BYTES_def
  MAX_MENTION_NAME_BYTES_def MAX_CONTACT_NAME_CHARS_def MAX_CONTACT_VALUE_CHARS_def MAX_CONTACT_LABEL_CHARS_def
  MAX_CONTACT_ORGANIZATION_CHARS_def MAX_CONTACT_ENTRIES_def MAX_ATTACHMENT_FILENAME_BYTES_def

section \<open>Records\<close>

record normalized_text =
  nt_value :: string
  nt_bytes :: nat
  nt_truncated :: bool

record normalized_attachment =
  na_id :: string
  na_content_type :: "string option"
  na_filename :: "string option"
  na_size :: "nat option"
  na_width :: "nat option"
  na_height :: "nat option"
  na_is_voice_note :: bool
  na_caption :: "string option"
  na_blur_hash :: "string option"
  na_incremental_mac :: "string option"
  na_chunk_size :: "nat option"
  na_is_borderless :: bool
  na_is_gif :: bool
  na_waveform :: "string option"
  na_duration :: "jnum option"
  na_locator :: "attachment_locator option"

record normalized_quote_attachment =
  nqa_content_type :: "string option"
  nqa_filename :: "string option"
  nqa_thumbnail :: "normalized_attachment option"

record normalized_quote =
  nq_id :: nat
  nq_author :: string
  nq_text :: string
  nq_attachments :: "normalized_quote_attachment list"

record normalized_sticker =
  ns_pack_id :: string
  ns_pack_key :: string
  ns_sticker_id :: nat
  ns_emoji :: "string option"

record normalized_contact_name =
  ncn_given_name :: "string option"
  ncn_family_name :: "string option"
  ncn_prefix :: "string option"
  ncn_suffix :: "string option"
  ncn_middle_name :: "string option"
  ncn_nickname :: "string option"

record normalized_contact_field =
  ncf_value :: string
  ncf_kind :: string
  ncf_label :: "string option"

record normalized_contact =
  nc_name :: "normalized_contact_name option"
  nc_number :: "normalized_contact_field list"
  nc_email :: "normalized_contact_field list"
  nc_organization :: "string option"

record normalized_preview =
  npv_url :: string
  npv_title :: "string option"
  npv_description :: "string option"
  npv_date :: "nat option"
  npv_image :: "normalized_attachment option"

record normalized_mention =
  nmn_author :: string
  nmn_author_aci :: "string option"
  nmn_name :: "string option"
  nmn_start :: nat
  nmn_length :: nat

record normalized_text_style =
  nts_style :: string
  nts_start :: nat
  nts_length :: nat

record normalized_story_reply =
  nsr_author_aci :: string
  nsr_sent_timestamp :: nat

record normalized_poll =
  npo_question :: string
  npo_options :: "string list"
  npo_allow_multiple :: bool

record normalized_gift_badge =
  ngb_state :: string
  ngb_expiration_ms :: "nat option"
  ngb_level :: "nat option"

record normalized_group_change =
  ngc_revision :: "nat option"
  ngc_editor :: "string option"
  ngc_changes :: "json list"

record normalized_unidentified_status =
  nus_destination_uuid :: "string option"
  nus_unidentified :: "bool option"
  nus_destination_pni_identity_key :: "string option"

record normalized_rich =
  rich_previews :: "normalized_preview list"
  rich_mentions :: "normalized_mention list"
  rich_text_styles :: "normalized_text_style list"
  rich_view_once :: bool
  rich_view_once_invalid :: bool
  rich_is_expiration_update :: bool
  rich_is_group_update :: bool
  rich_group_name :: "string option"
  rich_group_change :: "normalized_group_change option"
  rich_story_reply :: "normalized_story_reply option"
  rich_contact :: "normalized_contact option"
  rich_poll :: "normalized_poll option"
  rich_gift_badge :: "normalized_gift_badge option"
  rich_expire_timer_version :: "nat option"
  rich_is_recipient_update :: bool
  rich_unidentified_status :: "normalized_unidentified_status list"
  rich_story_message_recipients :: "story_recipient list"

definition default_rich :: normalized_rich where
  "default_rich =
     \<lparr>rich_previews = [], rich_mentions = [], rich_text_styles = [], rich_view_once = False,
      rich_view_once_invalid = False, rich_is_expiration_update = False, rich_is_group_update = False,
      rich_group_name = None, rich_group_change = None, rich_story_reply = None, rich_contact = None,
      rich_poll = None, rich_gift_badge = None, rich_expire_timer_version = None,
      rich_is_recipient_update = False, rich_unidentified_status = [], rich_story_message_recipients = []\<rparr>"

definition rich_is_empty :: "normalized_rich \<Rightarrow> bool" where
  "rich_is_empty r \<longleftrightarrow>
     rich_previews r = [] \<and> rich_mentions r = [] \<and> rich_text_styles r = [] \<and> \<not> rich_view_once r \<and>
     \<not> rich_view_once_invalid r \<and> \<not> rich_is_expiration_update r \<and> \<not> rich_is_group_update r \<and>
     rich_group_name r = None \<and> rich_group_change r = None \<and> rich_story_reply r = None \<and>
     rich_contact r = None \<and> rich_poll r = None \<and> rich_gift_badge r = None \<and>
     rich_expire_timer_version r = None \<and> \<not> rich_is_recipient_update r \<and>
     rich_unidentified_status r = [] \<and> rich_story_message_recipients r = []"

section \<open>Text\<close>

definition normalized_text_of :: "string \<Rightarrow> normalized_text option" where
  "normalized_text_of text =
     (if text = [] then None
      else let truncated = length text > MAX_INBOUND_TEXT_BYTES
           in Some \<lparr>nt_value = (if truncated then truncate_utf8_bytes text MAX_INBOUND_TEXT_PREVIEW_BYTES else text),
                    nt_bytes = min (length text) u32_max, nt_truncated = truncated\<rparr>)"

definition data_message_text :: "jobject \<Rightarrow> normalized_text option" where
  "data_message_text message = Option.bind (o_str message ''message'') normalized_text_of"

definition envelope_peer_source :: "jobject \<Rightarrow> string option" where
  "envelope_peer_source envelope =
     opt_or (o_str envelope ''source'') (opt_or (o_str envelope ''sourceNumber'') (o_str envelope ''sourceUuid''))"

definition data_message_group_id :: "jobject \<Rightarrow> string option" where
  "data_message_group_id message =
     Option.bind
       (opt_or (Option.bind (map_of message ''groupInfo'') (\<lambda>info. json_get info ''groupId''))
               (map_of message ''groupId''))
       as_str"

section \<open>Attachments, quotes and stickers\<close>

text \<open>\<open>as_f64\<close> followed by the test \<open>> 0.0\<close>: a float is its bit pattern, with the sign in bit 63.\<close>

fun jnum_positive :: "jnum \<Rightarrow> bool" where
  "jnum_positive (PosInt n) \<longleftrightarrow> 0 < n"
| "jnum_positive (NegInt i) \<longleftrightarrow> False"
| "jnum_positive (JFloat bits) \<longleftrightarrow> 0 < bits \<and> bits \<le> 9218868437227405312"

fun as_number :: "json \<Rightarrow> jnum option" where
  "as_number (JNum n) = Some n"
| "as_number _ = None"

definition bounded_range_u32 :: "jobject \<Rightarrow> string \<Rightarrow> nat option" where
  "bounded_range_u32 obj key = opt_filter (\<lambda>n. n \<le> u32_max) (o_u64 obj key)"

definition nonempty_opt :: "string option \<Rightarrow> string option" where
  "nonempty_opt = opt_filter (\<lambda>s. s \<noteq> [])"

definition normalized_attachment_inner :: "jobject \<Rightarrow> bool \<Rightarrow> normalized_attachment option" where
  "normalized_attachment_inner obj require_id =
     (let ident = opt_default [] (map_option (\<lambda>s. take_chars MAX_ATTACHMENT_ID_CHARS (str_trim s)) (o_str obj ''id''));
          mac = opt_filter (\<lambda>t. t \<noteq> [] \<and> length t \<le> MAX_LOCATOR_BASE64_CHARS) (o_str obj ''incrementalMac'');
          chunk = opt_filter (\<lambda>n. 0 < n \<and> n \<le> u32_max) (o_u64 obj ''chunkSize'');
          (mac', chunk') = (case (mac, chunk) of (Some m, Some c) \<Rightarrow> (Some m, Some c) | _ \<Rightarrow> (None, None))
      in if require_id \<and> ident = [] then None
         else Some
           \<lparr>na_id = ident,
            na_content_type = bounded MAX_ATTACHMENT_CONTENT_TYPE_CHARS (o_str obj ''contentType''),
            na_filename = nonempty_opt (map_option sanitize_inbound_filename (o_str obj ''filename'')),
            na_size = o_u64 obj ''size'',
            na_width = map_option (min u32_max) (o_u64 obj ''width''),
            na_height = map_option (min u32_max) (o_u64 obj ''height''),
            na_is_voice_note = opt_default False (o_bool obj ''isVoiceNote''),
            na_caption = nonempty_opt (map_option (\<lambda>s. truncate_utf8_bytes s MAX_INBOUND_TEXT_BYTES) (o_str obj ''caption'')),
            na_blur_hash = bounded MAX_ATTACHMENT_BLUR_HASH_CHARS (o_str obj ''blurHash''),
            na_incremental_mac = mac', na_chunk_size = chunk',
            na_is_borderless = opt_default False (o_bool obj ''isBorderless''),
            na_is_gif = opt_default False (o_bool obj ''isGif''),
            na_waveform = opt_filter (\<lambda>t. t \<noteq> [] \<and> length t \<le> MAX_ATTACHMENT_WAVEFORM_CHARS) (o_str obj ''waveform''),
            na_duration = opt_filter jnum_positive (Option.bind (map_of obj ''duration'') as_number),
            na_locator = Option.bind (map_of obj ''locator'') normalized_locator_face\<rparr>)"

definition normalized_attachment_of :: "jobject \<Rightarrow> normalized_attachment option" where
  "normalized_attachment_of obj = normalized_attachment_inner obj True"

definition normalized_attachments :: "json \<Rightarrow> normalized_attachment list" where
  "normalized_attachments v =
     List.map_filter (\<lambda>e. Option.bind (as_object e) (\<lambda>obj. normalized_attachment_inner obj False))
       (take MAX_INBOUND_ATTACHMENTS (opt_default [] (as_array v)))"

definition normalized_quote_attachment_of :: "jobject \<Rightarrow> normalized_quote_attachment option" where
  "normalized_quote_attachment_of obj =
     (let face = \<lparr>nqa_content_type = bounded MAX_ATTACHMENT_CONTENT_TYPE_CHARS (o_str obj ''contentType''),
                  nqa_filename = nonempty_opt (map_option sanitize_inbound_filename (o_str obj ''filename'')),
                  nqa_thumbnail = Option.bind (o_obj obj ''thumbnail'') normalized_attachment_of\<rparr>
      in if nqa_content_type face \<noteq> None \<or> nqa_filename face \<noteq> None \<or> nqa_thumbnail face \<noteq> None
         then Some face else None)"

text \<open>\<open>keys.iter().find_map(...)\<close>: the first key that holds a string.\<close>

definition first_str :: "jobject \<Rightarrow> string list \<Rightarrow> string option" where
  "first_str obj keys = List.find (\<lambda>_. True) (List.map_filter (o_str obj) keys)"

definition normalized_quote_of :: "json \<Rightarrow> normalized_quote option" where
  "normalized_quote_of v =
     do {
       obj \<leftarrow> as_object v;
       ident \<leftarrow> o_u64 obj ''id'';
       author \<leftarrow> bounded_id (first_str obj [''authorNumber'', ''authorUuid'', ''author'']);
       Some \<lparr>nq_id = ident, nq_author = author,
             nq_text = opt_default [] (map_option (take_chars MAX_QUOTE_TEXT_CHARS) (o_str obj ''text'')),
             nq_attachments =
               List.map_filter (\<lambda>e. Option.bind (as_object e) normalized_quote_attachment_of)
                 (take MAX_QUOTE_ATTACHMENTS (opt_default [] (o_arr obj ''attachments'')))\<rparr>
     }"

definition normalized_sticker_of :: "jobject \<Rightarrow> (normalized_sticker \<times> normalized_attachment) option" where
  "normalized_sticker_of sticker =
     do {
       pack_id \<leftarrow> bounded MAX_STICKER_PACK_ID_CHARS (o_str sticker ''packId'');
       pack_key \<leftarrow> bounded MAX_STICKER_PACK_KEY_CHARS (o_str sticker ''packKey'');
       sticker_id \<leftarrow> bounded_range_u32 sticker ''stickerId'';
       image \<leftarrow> Option.bind (o_obj sticker ''data'') normalized_attachment_of;
       Some (\<lparr>ns_pack_id = pack_id, ns_pack_key = pack_key, ns_sticker_id = sticker_id,
              ns_emoji = bounded MAX_STICKER_EMOJI_CHARS (o_str sticker ''emoji'')\<rparr>, image)
     }"

section \<open>Contact cards\<close>

definition contact_name_part :: "jobject \<Rightarrow> string \<Rightarrow> string option" where
  "contact_name_part name key = bounded MAX_CONTACT_NAME_CHARS (o_str name key)"

definition contact_name_of :: "jobject \<Rightarrow> normalized_contact_name" where
  "contact_name_of name =
     \<lparr>ncn_given_name = contact_name_part name ''givenName'',
      ncn_family_name = contact_name_part name ''familyName'',
      ncn_prefix = contact_name_part name ''prefix'', ncn_suffix = contact_name_part name ''suffix'',
      ncn_middle_name = contact_name_part name ''middleName'',
      ncn_nickname = contact_name_part name ''nickname''\<rparr>"

definition contact_name_used :: "normalized_contact_name \<Rightarrow> bool" where
  "contact_name_used n \<longleftrightarrow>
     ncn_given_name n \<noteq> None \<or> ncn_family_name n \<noteq> None \<or> ncn_prefix n \<noteq> None \<or> ncn_suffix n \<noteq> None \<or>
     ncn_middle_name n \<noteq> None \<or> ncn_nickname n \<noteq> None"

definition contact_kind :: "jobject \<Rightarrow> string" where
  "contact_kind obj =
     opt_default ''HOME''
       (opt_filter (\<lambda>s. s \<in> set [''HOME'', ''MOBILE'', ''WORK'', ''CUSTOM''])
          (map_option to_ascii_uppercase (trimmed (o_str obj ''type''))))"

definition contact_field_of :: "json \<Rightarrow> normalized_contact_field option" where
  "contact_field_of e =
     do {
       obj \<leftarrow> as_object e;
       v \<leftarrow> bounded MAX_CONTACT_VALUE_CHARS (o_str obj ''value'');
       Some \<lparr>ncf_value = v, ncf_kind = contact_kind obj,
             ncf_label = bounded MAX_CONTACT_LABEL_CHARS (o_str obj ''label'')\<rparr>
     }"

definition contact_fields :: "json option \<Rightarrow> normalized_contact_field list" where
  "contact_fields raw =
     take MAX_CONTACT_ENTRIES (List.map_filter contact_field_of (opt_default [] (Option.bind raw as_array)))"

definition import_contact :: "json option \<Rightarrow> (normalized_contact \<times> jobject option) option" where
  "import_contact raw =
     do {
       obj \<leftarrow> Option.bind raw as_object;
       let name = opt_filter contact_name_used (map_option contact_name_of (o_obj obj ''name''));
       let card = \<lparr>nc_name = name, nc_number = contact_fields (map_of obj ''number''),
                   nc_email = contact_fields (map_of obj ''email''),
                   nc_organization = bounded MAX_CONTACT_ORGANIZATION_CHARS (o_str obj ''organization'')\<rparr>;
       let avatar = o_obj obj ''avatar'';
       (if nc_name card = None \<and> nc_number card = [] \<and> nc_email card = [] \<and> nc_organization card = None \<and>
           avatar = None
        then None else Some (card, avatar))
     }"

definition unwrap_avatar :: "jobject \<Rightarrow> jobject" where
  "unwrap_avatar obj =
     (case map_of obj ''avatar'' of
        None \<Rightarrow> obj
      | Some wrap \<Rightarrow>
          (let rest = filter (\<lambda>e. fst e \<noteq> ''avatar'') obj
           in case opt_filter is_object (json_get wrap ''avatar'') of
                Some pointer \<Rightarrow> obj_insert ''avatar'' pointer rest
              | None \<Rightarrow> rest))"

definition normalized_live_contact :: "json option \<Rightarrow> (normalized_contact \<times> normalized_attachment option) option" where
  "normalized_live_contact raw =
     do {
       obj \<leftarrow> Option.bind raw as_object;
       (card, avatar) \<leftarrow> import_contact (Some (JObj (unwrap_avatar obj)));
       Some (card, Option.bind avatar normalized_attachment_of)
     }"

section \<open>The rich payload\<close>

definition normalized_preview_of :: "json \<Rightarrow> normalized_preview option" where
  "normalized_preview_of entry =
     do {
       obj \<leftarrow> as_object entry;
       url \<leftarrow> bounded MAX_PREVIEW_URL_CHARS (o_str obj ''url'');
       let cut = (\<lambda>key. nonempty_opt (map_option (\<lambda>s. truncate_utf8_bytes s MAX_PREVIEW_FIELD_BYTES) (o_str obj key)));
       Some \<lparr>npv_url = url, npv_title = cut ''title'', npv_description = cut ''description'',
             npv_date = positive (o_u64 obj ''date''),
             npv_image = Option.bind (o_obj obj ''image'') normalized_attachment_of\<rparr>
     }"

definition normalized_mention_of :: "json \<Rightarrow> normalized_mention option" where
  "normalized_mention_of entry =
     do {
       obj \<leftarrow> as_object entry;
       let number = bounded_id (o_str obj ''number'');
       let uuid = bounded_id (o_str obj ''uuid'');
       author \<leftarrow> opt_or number uuid;
       start \<leftarrow> bounded_range_u32 obj ''start'';
       len \<leftarrow> bounded_range_u32 obj ''length'';
       Some \<lparr>nmn_author = author, nmn_author_aci = opt_or uuid (opt_filter is_uuid_shaped number),
             nmn_name = nonempty_opt (map_option (\<lambda>s. truncate_utf8_bytes s MAX_MENTION_NAME_BYTES) (o_str obj ''name'')),
             nmn_start = start, nmn_length = len\<rparr>
     }"

definition normalized_text_style_of :: "json \<Rightarrow> normalized_text_style option" where
  "normalized_text_style_of entry =
     do {
       obj \<leftarrow> as_object entry;
       style \<leftarrow> opt_filter (\<lambda>s. s \<in> set [''BOLD'', ''ITALIC'', ''STRIKETHROUGH'', ''MONOSPACE'', ''SPOILER''])
                  (o_str obj ''style'');
       start \<leftarrow> bounded_range_u32 obj ''start'';
       len \<leftarrow> bounded_range_u32 obj ''length'';
       Some \<lparr>nts_style = style, nts_start = start, nts_length = len\<rparr>
     }"

definition normalized_story_reply_of :: "jobject \<Rightarrow> normalized_story_reply option" where
  "normalized_story_reply_of message =
     do {
       reply \<leftarrow> o_obj message ''storyReply'';
       author \<leftarrow> bounded_id (o_str reply ''authorAci'');
       sent \<leftarrow> o_u64 reply ''sentTimestamp'';
       Some \<lparr>nsr_author_aci = author, nsr_sent_timestamp = sent\<rparr>
     }"

definition normalized_live_poll :: "jobject \<Rightarrow> normalized_poll" where
  "normalized_live_poll poll =
     \<lparr>npo_question = take_chars MAX_LIVE_POLL_QUESTION_CHARS (opt_default [] (o_str poll ''question'')),
      npo_options = map (\<lambda>v. opt_default [] (map_option (take_chars MAX_LIVE_POLL_OPTION_CHARS) (as_str v)))
                      (take MAX_LIVE_POLL_OPTIONS (opt_default [] (o_arr poll ''options''))),
      npo_allow_multiple = opt_default False (o_bool poll ''allowMultiple'')\<rparr>"

definition normalized_live_gift_badge :: "jobject \<Rightarrow> normalized_gift_badge option" where
  "normalized_live_gift_badge badge =
     do {
       state \<leftarrow> o_str badge ''state'';
       Some \<lparr>ngb_state = to_ascii_lowercase state, ngb_expiration_ms = positive (o_u64 badge ''expiration''),
             ngb_level = o_u64 badge ''level''\<rparr>
     }"

text \<open>An editor identity: trimmed, non-empty and at most 64 bytes, or absent.\<close>

definition bounded_editor :: "string option \<Rightarrow> string option" where
  "bounded_editor x = opt_filter (\<lambda>s. length s \<le> GROUP_UPDATED_EDITOR_MAX_BYTES) (trimmed x)"

definition normalized_group_change_of :: "(json \<Rightarrow> nat) \<Rightarrow> jobject \<Rightarrow> normalized_group_change option" where
  "normalized_group_change_of ser info =
     do {
       raw \<leftarrow> o_arr info ''changes'';
       let cut = take GROUP_CHANGED_MAX_CHANGES raw;
       (if raw = [] \<or> ser (JArr cut) > MAX_GROUP_CHANGED_BYTES then None
        else Some \<lparr>ngc_revision = Option.bind (o_u64 info ''revision'') try_u32,
                   ngc_editor = bounded_editor (o_str info ''editor''), ngc_changes = cut\<rparr>)
     }"

definition unidentified_status_of :: "json \<Rightarrow> normalized_unidentified_status option" where
  "unidentified_status_of entry =
     do {
       obj \<leftarrow> as_object entry;
       Some \<lparr>nus_destination_uuid = bounded_id (o_str obj ''destinationUuid''),
             nus_unidentified = o_bool obj ''unidentified'',
             nus_destination_pni_identity_key =
               opt_filter (\<lambda>s. length s \<le> MAX_SYNC_IDENTITY_KEY_CHARS) (trimmed (o_str obj ''destinationPniIdentityKey''))\<rparr>
     }"

definition normalized_rich_of :: "(json \<Rightarrow> nat) \<Rightarrow> jobject \<Rightarrow> normalized_rich option" where
  "normalized_rich_of ser message =
     (let info = o_obj message ''groupInfo'';
          is_update = (case info of Some i \<Rightarrow> o_str i ''type'' = Some ''UPDATE'' | None \<Rightarrow> False);
          rich =
            \<lparr>rich_previews = List.map_filter normalized_preview_of (take MAX_PREVIEWS (opt_default [] (o_arr message ''previews''))),
             rich_mentions = List.map_filter normalized_mention_of (take MAX_MENTIONS (opt_default [] (o_arr message ''mentions''))),
             rich_text_styles = List.map_filter normalized_text_style_of (take MAX_TEXT_STYLES (opt_default [] (o_arr message ''textStyles''))),
             rich_view_once = opt_default False (o_bool message ''viewOnce''),
             rich_view_once_invalid = opt_default False (o_bool message ''viewOnceInvalid''),
             rich_is_expiration_update = opt_default False (o_bool message ''isExpirationUpdate''),
             rich_is_group_update = is_update,
             rich_group_name = Option.bind info (\<lambda>i. bounded GROUP_UPDATE_TITLE_MIRROR_CHARS (o_str i ''groupName'')),
             rich_group_change = (if is_update then Option.bind info (normalized_group_change_of ser) else None),
             rich_story_reply = normalized_story_reply_of message,
             rich_contact = None,
             rich_poll = map_option normalized_live_poll (o_obj message ''poll''),
             rich_gift_badge = Option.bind (o_obj message ''giftBadge'') normalized_live_gift_badge,
             rich_expire_timer_version = Option.bind (positive (o_u64 message ''expireTimerVersion'')) try_u32,
             rich_is_recipient_update = (o_bool message ''isRecipientUpdate'' = Some True),
             rich_unidentified_status =
               List.map_filter unidentified_status_of
                 (take MAX_SYNC_SENT_STATUS_ENTRIES (opt_default [] (o_arr message ''unidentifiedStatus''))),
             rich_story_message_recipients = story_recipients (opt_default [] (o_arr message ''storyMessageRecipients''))\<rparr>
      in if rich_is_empty rich then None else Some rich)"

section \<open>Control payloads\<close>

datatype receipt_kind = Delivered | ReadReceipt | Viewed

text \<open>\<open>ControlReceive\<close>; a variant that carries one struct of the source carries that record.\<close>

datatype control_receive =
    Reaction string string nat bool
  | RemoteDelete nat
  | Typing string
  | Edit nat
  | Receipt receipt_kind "nat list" "nat option" "string option"
  | PinMessage string nat "nat option"
  | UnpinMessage string nat
  | AdminDelete string nat
  | PollVote string nat "nat list"
  | PollTerminate nat
  | ViewOnceOpen string nat
  | GroupTimerUpdate nat "string option"
  | CallSignal nat string json
  | GroupCallUpdate string
  | MessageRequestResponse message_request_response
  | Story json
  | StoryReaction string bool string nat "string option"
  | StoryDeleted nat "string option"
  | SyncStoryRecipientUpdate nat "story_recipient list"
  | SyncStoryMessage json
  | SyncReadState "sync_read_entry list" "sync_read_entry list"
  | SyncDeleteForMe sync_delete_for_me
  | SyncAttachmentBackfillResponse sync_backfill_response
  | SyncVerified sync_verified_state
  | SyncCallEvent sync_call_event
  | SyncConfiguration sync_configuration_flags
  | SyncFetchLatest "string option"
  | SyncCallLinkUpdate sync_call_link_update
  | SyncCallLogEvent sync_call_log_event
  | SyncDeviceNameChange nat
  | SyncUsernameChange
  | SyncPniChangeNumber sync_pni_change_number
  | SyncContacts "sync_contact_record list"
  | SyncBlocked sync_blocked
  | GroupChanged nat json "string option" "nat option"
  | GroupTerminated string "string option" "nat option"
  | ContactProfileUpdated string

definition normalized_reaction :: "json \<Rightarrow> control_receive option" where
  "normalized_reaction v =
     do {
       obj \<leftarrow> as_object v;
       emoji \<leftarrow> bounded MAX_EMOJI_CHARS (o_str obj ''emoji'');
       author \<leftarrow> bounded_id (first_str obj [''targetAuthorNumber'', ''targetAuthorUuid'', ''targetAuthor'']);
       timestamp \<leftarrow> o_u64 obj ''targetSentTimestamp'';
       Some (Reaction emoji author timestamp (opt_default False (o_bool obj ''isRemove'')))
     }"

definition normalized_pin_target :: "json \<Rightarrow> (string \<times> nat) option" where
  "normalized_pin_target v =
     do {
       obj \<leftarrow> as_object v;
       author \<leftarrow> bounded_id (first_str obj [''targetAuthorNumber'', ''targetAuthorUuid'', ''targetAuthor'']);
       timestamp \<leftarrow> o_u64 obj ''targetSentTimestamp'';
       Some (author, timestamp)
     }"

definition normalized_pin_message :: "json \<Rightarrow> control_receive option" where
  "normalized_pin_message v =
     do {
       obj \<leftarrow> as_object v;
       (author, timestamp) \<leftarrow> normalized_pin_target v;
       Some (PinMessage author timestamp (bounded_range_u32 obj ''pinDurationSeconds''))
     }"

definition normalized_unpin_message :: "json \<Rightarrow> control_receive option" where
  "normalized_unpin_message v = map_option (\<lambda>(a, t). UnpinMessage a t) (normalized_pin_target v)"

definition normalized_admin_delete :: "json \<Rightarrow> control_receive option" where
  "normalized_admin_delete v = map_option (\<lambda>(a, t). AdminDelete a t) (normalized_pin_target v)"

text \<open>The vote indexes: every entry must be a \<open>u32\<close>; a repeated index counts once.\<close>

fun vote_indexes :: "nat list \<Rightarrow> json list \<Rightarrow> nat list option" where
  "vote_indexes acc [] = Some acc"
| "vote_indexes acc (v # vs) =
     (case Option.bind (json_as_u64 v) try_u32 of
        None \<Rightarrow> None
      | Some n \<Rightarrow> vote_indexes (if n \<in> set acc then acc else acc @ [n]) vs)"

definition normalized_poll_vote :: "jobject \<Rightarrow> control_receive option" where
  "normalized_poll_vote vote =
     do {
       author \<leftarrow> bounded_id (o_str vote ''targetAuthor'');
       timestamp \<leftarrow> o_u64 vote ''targetSentTimestamp'';
       entries \<leftarrow> (if timestamp = 0 then None else o_arr vote ''optionIndexes'');
       indexes \<leftarrow> (if length entries > MAX_LIVE_POLL_VOTE_INDEXES then None else vote_indexes [] entries);
       Some (PollVote author timestamp indexes)
     }"

definition bounded_story_material :: "(json \<Rightarrow> nat) \<Rightarrow> jobject \<Rightarrow> json option" where
  "bounded_story_material ser story =
     (if ser (JObj story) \<le> MAX_STORY_MATERIAL_BYTES then Some (JObj story) else None)"

definition call_frame_id :: "jobject \<Rightarrow> string \<Rightarrow> nat option" where
  "call_frame_id call key =
     opt_filter (\<lambda>i. 0 < i \<and> i \<le> MAX_CALL_ID) (Option.bind (o_obj call key) (\<lambda>frame. o_u64 frame ''id''))"

definition signal_frame :: "jobject \<Rightarrow> string \<Rightarrow> control_receive option" where
  "signal_frame call key =
     map_option (\<lambda>i. CallSignal i key (JObj [(key, opt_default JNull (map_of call key))])) (call_frame_id call key)"

definition normalized_call_message :: "jobject \<Rightarrow> control_receive option" where
  "normalized_call_message call =
     (case o_str call ''opaque'' of
        Some body \<Rightarrow>
          (if body = [] \<or> char_count body > MAX_CALL_OPAQUE_CHARS then None
           else Some (CallSignal 0 ''opaque''
                  (JObj [(''destinationDeviceId'', opt_default JNull (map_of call ''destinationDeviceId'')),
                         (''opaque'', JStr body),
                         (''urgency'', JStr (opt_default ''droppable'' (o_str call ''urgency'')))])))
      | None \<Rightarrow>
          opt_or (signal_frame call ''offer'') (opt_or (signal_frame call ''answer'')
            (opt_or (signal_frame call ''busy'') (opt_or (signal_frame call ''hangup'')
              (do {
                 ice \<leftarrow> o_arr call ''iceUpdate'';
                 frame \<leftarrow> (case ice of [] \<Rightarrow> None | f # _ \<Rightarrow> as_object f);
                 i \<leftarrow> opt_filter (\<lambda>i. 0 < i \<and> i \<le> MAX_CALL_ID) (o_u64 frame ''id'');
                 Some (CallSignal i ''ice'' (JObj [(''iceUpdate'', JArr (take MAX_CALL_ICE_FRAMES ice))]))
               })))))"

end
