(* ===== verification/Receive_Route.thy ===== *)
theory Receive_Route
  imports Receive_Content
begin

text \<open>
  The receive ladder of \<open>src/engine.rs\<close>: \<open>control_routing\<close> (a receive without a message row), \<open>normalize_receive_fields\<close>
  (the whole envelope) and \<open>normalize_receive\<close> (the identifier guard), with \<open>estimated_bytes\<close>, the weight a receive has
  in the receive queue. A rung of a ladder is \<open>None\<close> when the code falls through to the next one and \<open>Some r\<close> when it
  returns \<open>r\<close>. \<open>sz\<close> stands for \<open>std::mem::size_of\<close>, the compiler's layout.
\<close>

section \<open>Control routing\<close>

definition MAX_RECEIPT_TIMESTAMPS :: nat where "MAX_RECEIPT_TIMESTAMPS = 256"
definition MAX_GROUP_CALL_ERA_CHARS :: nat where "MAX_GROUP_CALL_ERA_CHARS = 256"
definition MAX_REPORTING_TOKEN_CHARS :: nat where "MAX_REPORTING_TOKEN_CHARS = 128"

record control_routing =
  cr_direction :: string
  cr_source :: "string option"
  cr_group_id :: "string option"
  cr_control :: control_receive

definition routed :: "string option \<Rightarrow> string option \<Rightarrow> control_receive \<Rightarrow> control_routing" where
  "routed source grp control =
     \<lparr>cr_direction = ''incoming'', cr_source = source, cr_group_id = grp, cr_control = control\<rparr>"

fun ladder :: "'a option option list \<Rightarrow> 'a option" where
  "ladder [] = None"
| "ladder (None # rungs) = ladder rungs"
| "ladder (Some r # rungs) = r"

text \<open>A rung that returns its value when there is one.\<close>

definition rung :: "'a option \<Rightarrow> 'a option option" where
  "rung x = map_option Some x"

definition data_message_rungs :: "jobject \<Rightarrow> jobject \<Rightarrow> control_routing option option list" where
  "data_message_rungs envelope data_message =
     (let grp = data_message_group_id data_message;
          source = envelope_peer_source envelope;
          peer = routed source grp
      in [rung (case Option.bind (map_of data_message ''reaction'') normalized_reaction of
                  Some (Reaction emoji author timestamp remove) \<Rightarrow>
                    (case normalized_story_reply_of data_message of
                       Some story \<Rightarrow>
                         Some (peer (StoryReaction emoji remove (nsr_author_aci story) (nsr_sent_timestamp story) grp))
                     | None \<Rightarrow> Some (peer (Reaction emoji author timestamp remove)))
                | _ \<Rightarrow> None),
          rung (map_option
                 (\<lambda>target. if o_bool envelope ''isStory'' = Some True then peer (StoryDeleted target grp)
                           else peer (RemoteDelete target))
                 (Option.bind (o_obj data_message ''remoteDelete'') (\<lambda>obj. o_u64 obj ''timestamp''))),
          rung (do {
                  update \<leftarrow> o_obj data_message ''groupCallUpdate'';
                  era \<leftarrow> opt_filter (\<lambda>e. e \<noteq> [] \<and> char_count e \<le> MAX_GROUP_CALL_ERA_CHARS) (o_str update ''eraId'');
                  if grp \<noteq> None then Some (peer (GroupCallUpdate era)) else None
                }),
          rung (map_option peer (Option.bind (map_of data_message ''pinMessage'') normalized_pin_message)),
          rung (map_option peer (Option.bind (map_of data_message ''unpinMessage'') normalized_unpin_message)),
          rung (map_option peer (Option.bind (map_of data_message ''adminDelete'') normalized_admin_delete)),
          rung (map_option peer (Option.bind (o_obj data_message ''pollVote'') normalized_poll_vote)),
          rung (map_option (\<lambda>target. peer (PollTerminate target))
                 (positive (Option.bind (o_obj data_message ''pollTerminate'')
                              (\<lambda>obj. o_u64 obj ''targetSentTimestamp''))))])"

definition group_updated_route :: "jobject \<Rightarrow> control_routing option" where
  "group_updated_route update =
     do {
       seconds \<leftarrow> o_u64 update ''expireTimerSeconds'';
       seconds \<leftarrow> try_u32 seconds;
       Some (routed None (o_str update ''groupId'')
               (GroupTimerUpdate seconds (bounded_editor (o_str update ''editor''))))
     }"

definition group_changed_route :: "(json \<Rightarrow> nat) \<Rightarrow> jobject \<Rightarrow> control_routing option" where
  "group_changed_route ser change =
     do {
       revision \<leftarrow> o_u64 change ''revision'';
       changes \<leftarrow> o_arr change ''changes'';
       let cut = JArr (take GROUP_CHANGED_MAX_CHANGES changes);
       (if changes = [] \<or> ser cut > MAX_GROUP_CHANGED_BYTES then None
        else Some (routed None (o_str change ''groupId'')
                     (GroupChanged revision cut (bounded_editor (o_str change ''editor''))
                        (Option.bind (o_u64 change ''expireTimerSeconds'') try_u32))))
     }"

definition group_terminated_route :: "jobject \<Rightarrow> control_routing option" where
  "group_terminated_route terminated =
     do {
       grp \<leftarrow> trimmed (o_str terminated ''groupId'');
       Some (routed None (Some grp)
               (GroupTerminated grp (bounded_editor (o_str terminated ''terminator'')) (o_u64 terminated ''timestamp'')))
     }"

definition contact_profile_route :: "jobject \<Rightarrow> control_routing option" where
  "contact_profile_route updated =
     do {
       aci \<leftarrow> opt_filter (\<lambda>s. length s \<le> MAX_RECEIVE_ID_CHARS) (trimmed (o_str updated ''aci''));
       Some (routed None None (ContactProfileUpdated aci))
     }"

definition group_rungs :: "(json \<Rightarrow> nat) \<Rightarrow> jobject \<Rightarrow> control_routing option option list" where
  "group_rungs ser envelope =
     [map_option group_updated_route (o_obj envelope ''groupUpdated''),
      map_option (group_changed_route ser) (o_obj envelope ''groupChanged''),
      map_option group_terminated_route (o_obj envelope ''groupTerminated''),
      map_option contact_profile_route (o_obj envelope ''contactProfileUpdated'')]"

definition sync_rungs :: "jobject \<Rightarrow> control_routing option option list" where
  "sync_rungs sync =
     (let read = normalized_sync_read_entries (map_of sync ''read'');
          viewed = normalized_sync_read_entries (map_of sync ''viewed'');
          deletes = normalized_sync_delete_for_me (map_of sync ''deleteForMe'');
          contacts = normalized_sync_contact_records (map_of sync ''contacts'');
          own = routed None None
      in [rung (map_option (\<lambda>m. routed None (mrr_group_id m) (MessageRequestResponse m))
                 (Option.bind (o_obj sync ''messageRequestResponse'') normalized_message_request_response)),
          (if read \<noteq> [] \<or> viewed \<noteq> [] then Some (Some (own (SyncReadState read viewed))) else None),
          (if \<not> delete_for_me_is_empty deletes then Some (Some (own (SyncDeleteForMe deletes))) else None),
          rung (map_option (\<lambda>v. own (SyncVerified v)) (normalized_sync_verified (map_of sync ''verified''))),
          rung (map_option (\<lambda>e. own (SyncCallEvent e)) (normalized_sync_call_event (map_of sync ''callEvent''))),
          rung (map_option (\<lambda>c. own (SyncConfiguration c)) (normalized_sync_configuration (map_of sync ''configuration''))),
          rung (map_option (\<lambda>k. own (SyncFetchLatest k)) (normalized_sync_fetch_latest (map_of sync ''fetchLatest''))),
          rung (map_option (\<lambda>u. own (SyncCallLinkUpdate u))
                 (normalized_sync_call_link_update (map_of sync ''callLinkUpdate''))),
          rung (map_option (\<lambda>e. own (SyncCallLogEvent e)) (normalized_sync_call_log_event (map_of sync ''callLogEvent''))),
          rung (map_option (\<lambda>d. own (SyncDeviceNameChange d))
                 (normalized_sync_device_name_change (map_of sync ''deviceNameChange''))),
          rung (map_option (\<lambda>_. own SyncUsernameChange) (o_obj sync ''usernameChange'')),
          rung (map_option (\<lambda>r. own (SyncAttachmentBackfillResponse r))
                 (normalized_sync_attachment_backfill_response (map_of sync ''attachmentBackfillResponse''))),
          rung (map_option (\<lambda>c. own (SyncPniChangeNumber c))
                 (normalized_sync_pni_change_number (map_of sync ''pniChangeNumber''))),
          (if contacts \<noteq> [] then Some (Some (own (SyncContacts contacts))) else None),
          rung (map_option (\<lambda>b. own (SyncBlocked b)) (normalized_sync_blocked (map_of sync ''blocked''))),
          rung (map_option (\<lambda>(t, rs). own (SyncStoryRecipientUpdate t rs))
                 (normalized_sync_story_recipient_update (map_of sync ''storyRecipientUpdate'')))])"

definition receipt_route :: "jobject \<Rightarrow> jobject \<Rightarrow> control_routing option" where
  "receipt_route envelope receipt =
     (let kind = (if o_bool receipt ''isViewed'' = Some True then Viewed
                  else if o_bool receipt ''isRead'' = Some True then ReadReceipt
                  else Delivered);
          timestamps = remdups_adj (take MAX_RECEIPT_TIMESTAMPS
                         (List.map_filter json_as_u64 (opt_default [] (o_arr receipt ''timestamp''))));
          source = envelope_peer_source envelope
      in if timestamps = [] then None
         else Some (routed source None (Receipt kind timestamps (o_u64 envelope ''timestamp'') source)))"

definition signal_rungs :: "jobject \<Rightarrow> control_routing option option list" where
  "signal_rungs envelope =
     [rung (map_option (routed (envelope_peer_source envelope) None)
              (Option.bind (o_obj envelope ''callMessage'') normalized_call_message)),
      rung (map_option
              (\<lambda>typing. routed (envelope_peer_source envelope) (o_str typing ''groupId'')
                          (Typing (opt_default ''START'' (o_str typing ''action''))))
              (o_obj envelope ''typingMessage'')),
      map_option (receipt_route envelope) (o_obj envelope ''receiptMessage'')]"

definition control_routing_of :: "(json \<Rightarrow> nat) \<Rightarrow> jobject \<Rightarrow> control_routing option" where
  "control_routing_of ser envelope =
     ladder ((case o_obj envelope ''dataMessage'' of Some d \<Rightarrow> data_message_rungs envelope d | None \<Rightarrow> []) @
             group_rungs ser envelope @
             (case o_obj envelope ''syncMessage'' of Some s \<Rightarrow> sync_rungs s | None \<Rightarrow> []) @
             signal_rungs envelope)"

section \<open>The normalised receive\<close>

record normalized_receive =
  nr_required_protocol_version :: "nat option"
  nr_timestamp :: "nat option"
  nr_content_kind :: string
  nr_direction :: string
  nr_account_present :: bool
  nr_account :: "string option"
  nr_source :: "string option"
  nr_source_uuid :: "string option"
  nr_peer_name :: "string option"
  nr_group_id :: "string option"
  nr_text :: "string option"
  nr_text_bytes :: "nat option"
  nr_text_truncated :: bool
  nr_quote :: "normalized_quote option"
  nr_attachments :: "normalized_attachment list"
  nr_rich :: "normalized_rich option"
  nr_sticker :: "normalized_sticker option"
  nr_control :: "control_receive option"
  nr_expire_seconds :: "nat option"
  nr_expire_start_at :: "nat option"
  nr_server_guid :: "string option"
  nr_server_timestamp :: "nat option"
  nr_reporting_token :: "string option"

definition envelope_expire_keys :: "jobject \<Rightarrow> nat option \<times> nat option" where
  "envelope_expire_keys message =
     (o_u64 message ''expiresInSeconds'', positive (o_u64 message ''expirationStartTimestamp''))"

definition with_expire :: "nat option \<times> nat option \<Rightarrow> normalized_receive \<Rightarrow> normalized_receive" where
  "with_expire keys r = r\<lparr>nr_expire_seconds := fst keys, nr_expire_start_at := snd keys\<rparr>"

text \<open>The notice texts of the source, by their UTF-8 bytes.\<close>

definition timer_notice :: string where
  "timer_notice = map char_of
     [229, 183, 178, 230, 155, 180, 230, 150, 176, 230, 182, 136, 230, 129, 175, 229, 174, 154, 230, 151, 182,
      230, 182, 136, 229, 164, 177, 239, 188, 154 :: nat]"

definition timer_notice_seconds :: string where
  "timer_notice_seconds = map char_of [32, 231, 167, 146 :: nat]"

definition timer_notice_off :: string where
  "timer_notice_off = map char_of [229, 183, 178, 229, 133, 179, 233, 151, 173 :: nat]"

definition group_notice :: string where
  "group_notice = map char_of
     [231, 190, 164, 232, 129, 138, 228, 191, 161, 230, 129, 175, 229, 183, 178, 230, 155, 180, 230, 150, 176 :: nat]"

definition timer_change_text :: "nat option \<Rightarrow> normalized_text option" where
  "timer_change_text seconds =
     normalized_text_of
       (case seconds of
          Some v \<Rightarrow> if 0 < v then timer_notice @ show_nat v @ timer_notice_seconds
                    else timer_notice @ timer_notice_off
        | None \<Rightarrow> timer_notice @ timer_notice_off)"

definition timer_change_rich :: normalized_rich where
  "timer_change_rich = default_rich\<lparr>rich_is_expiration_update := True\<rparr>"

definition group_update_text :: "normalized_text option" where
  "group_update_text = normalized_text_of group_notice"

definition group_update_rich :: "string option \<Rightarrow> normalized_group_change option \<Rightarrow> normalized_rich" where
  "group_update_rich name change =
     default_rich\<lparr>rich_is_group_update := True, rich_group_name := name, rich_group_change := change\<rparr>"

definition sync_sent_control :: "jobject \<Rightarrow> control_receive option" where
  "sync_sent_control sent =
     ladder
       [rung (map_option Edit (Option.bind (o_obj sent ''editMessage'') (\<lambda>e. o_u64 e ''targetSentTimestamp''))),
        rung (map_option RemoteDelete (Option.bind (o_obj sent ''remoteDelete'') (\<lambda>e. o_u64 e ''timestamp''))),
        rung (Option.bind (map_of sent ''pinMessage'') normalized_pin_message),
        rung (Option.bind (map_of sent ''unpinMessage'') normalized_unpin_message),
        rung (Option.bind (map_of sent ''adminDelete'') normalized_admin_delete),
        rung (map_option PollTerminate
               (positive (Option.bind (o_obj sent ''pollTerminate'') (\<lambda>e. o_u64 e ''targetSentTimestamp'')))),
        rung (Option.bind (o_obj sent ''pollVote'') normalized_poll_vote),
        rung (Option.bind (map_of sent ''reaction'') normalized_reaction)]"

text \<open>
  The envelope keys every receive carries, and \<open>make\<close>, the closure of \<open>normalize_receive_fields\<close> that puts one receive
  together.
\<close>

definition receive_base :: "json \<Rightarrow> jobject \<Rightarrow> normalized_receive" where
  "receive_base payload envelope =
     \<lparr>nr_required_protocol_version =
        opt_filter (\<lambda>n. 0 < n \<and> n \<le> u32_max) (o_u64 envelope ''requiredProtocolVersion''),
      nr_timestamp = None, nr_content_kind = [], nr_direction = [],
      nr_account_present = (json_get payload ''account'' \<noteq> None),
      nr_account = Option.bind (json_get payload ''account'') as_str,
      nr_source = None,
      nr_source_uuid = trimmed (o_str envelope ''sourceUuid''),
      nr_peer_name = bounded 64 (o_str envelope ''sourceName''),
      nr_group_id = None, nr_text = None, nr_text_bytes = None, nr_text_truncated = False,
      nr_quote = None, nr_attachments = [], nr_rich = None, nr_sticker = None, nr_control = None,
      nr_expire_seconds = None, nr_expire_start_at = None,
      nr_server_guid = bounded_id (o_str envelope ''serverGuid''),
      nr_server_timestamp = positive (o_u64 envelope ''serverTimestamp''),
      nr_reporting_token = bounded_whole MAX_REPORTING_TOKEN_CHARS (o_str envelope ''reportingToken'')\<rparr>"

definition make_receive ::
    "normalized_receive \<Rightarrow> nat option \<Rightarrow> string \<Rightarrow> string \<Rightarrow> string option \<Rightarrow> string option \<Rightarrow> normalized_text option \<Rightarrow>
     normalized_quote option \<Rightarrow> normalized_attachment list \<Rightarrow> normalized_rich option \<Rightarrow> control_receive option \<Rightarrow>
     normalized_receive" where
  "make_receive base timestamp kind direction source grp text quote attachments rich control =
     base\<lparr>nr_timestamp := timestamp, nr_content_kind := kind, nr_direction := direction, nr_source := source,
          nr_group_id := grp, nr_text := map_option nt_value text, nr_text_bytes := map_option nt_bytes text,
          nr_text_truncated := (case text of Some t \<Rightarrow> nt_truncated t | None \<Rightarrow> False),
          nr_quote := quote, nr_attachments := attachments, nr_rich := rich, nr_control := control\<rparr>"

definition skip_receive ::
    "normalized_receive \<Rightarrow> nat option \<Rightarrow> string \<Rightarrow> string option \<Rightarrow> string option \<Rightarrow> normalized_rich option \<Rightarrow> normalized_receive"
  where
  "skip_receive base timestamp kind source grp rich =
     make_receive base timestamp kind ''skip'' source grp None None [] rich None"

definition rich_holds :: "(normalized_rich \<Rightarrow> bool) \<Rightarrow> normalized_rich option \<Rightarrow> bool" where
  "rich_holds p rich = (case rich of Some r \<Rightarrow> p r | None \<Rightarrow> False)"

definition with_card ::
    "(normalized_contact \<times> normalized_attachment option) option \<Rightarrow> normalized_rich option \<Rightarrow> normalized_rich option" where
  "with_card contact rich =
     (case contact of
        Some (vcard, _) \<Rightarrow> Some ((opt_default default_rich rich)\<lparr>rich_contact := Some vcard\<rparr>)
      | None \<Rightarrow> rich)"

text \<open>The attachments after the sticker image and the card's avatar were pushed.\<close>

definition pushed_attachments ::
    "normalized_attachment list \<Rightarrow> (normalized_sticker \<times> normalized_attachment) option \<Rightarrow>
     (normalized_contact \<times> normalized_attachment option) option \<Rightarrow> normalized_attachment list" where
  "pushed_attachments attachments sticker contact =
     attachments @ (case sticker of Some (_, img) \<Rightarrow> [img] | None \<Rightarrow> []) @
     (case contact of Some (_, Some avatar) \<Rightarrow> [avatar] | _ \<Rightarrow> [])"

definition sent_destination :: "jobject \<Rightarrow> string option" where
  "sent_destination sent =
     opt_or (o_str sent ''destinationNumber'') (opt_or (o_str sent ''destinationUuid'') (o_str sent ''destination''))"

definition sync_sent_receive :: "(json \<Rightarrow> nat) \<Rightarrow> normalized_receive \<Rightarrow> nat option \<Rightarrow> jobject \<Rightarrow> normalized_receive" where
  "sync_sent_receive ser base timestamp sent =
     (let text = (if o_obj sent ''sticker'' \<noteq> None then None else data_message_text sent);
          grp = data_message_group_id sent;
          quote = Option.bind (map_of sent ''quote'') normalized_quote_of;
          attachments = opt_default [] (map_option normalized_attachments (map_of sent ''attachments''));
          rich = normalized_rich_of ser sent;
          keys = envelope_expire_keys sent;
          destination = sent_destination sent;
          sent_ts = opt_or (o_u64 sent ''timestamp'') timestamp;
          bare = (text = None \<and> quote = None \<and> attachments = []);
          control = sync_sent_control sent;
          make = (\<lambda>direction t q atts r. make_receive base sent_ts ''syncMessage'' direction destination grp t q atts r None)
      in if bare \<and> rich = None \<and> control \<noteq> None then
           make_receive base sent_ts ''control'' ''outgoing'' destination grp None None [] None control
         else case o_obj sent ''storyMessage'' of
           Some story \<Rightarrow>
             (case (sent_ts, bounded_story_material ser story) of
                (Some ts, Some message) \<Rightarrow>
                  make_receive base (Some ts) ''storyMessage'' ''outgoing'' destination grp None None [] None
                    (Some (SyncStoryMessage message))
              | _ \<Rightarrow> skip_receive base sent_ts ''storyMessage'' destination grp None)
         | None \<Rightarrow>
             if bare \<and> rich_holds rich_is_expiration_update rich then
               with_expire keys (make ''system'' (timer_change_text (fst keys)) None [] (Some timer_change_rich))
             else if bare \<and> rich_holds rich_is_group_update rich then
               make ''system'' group_update_text None []
                 (Some (group_update_rich (Option.bind rich rich_group_name) (Option.bind rich rich_group_change)))
             else if bare \<and> rich_holds (\<lambda>r. rich_poll r \<noteq> None) rich then
               with_expire keys (make ''outgoing'' None None [] rich)
             else
               (let sticker = Option.bind (o_obj sent ''sticker'') normalized_sticker_of;
                    contact = normalized_live_contact (map_of sent ''contact'');
                    atts = pushed_attachments attachments sticker contact;
                    rich = with_card contact rich;
                    with_sticker = (\<lambda>r. case sticker of Some (meta, _) \<Rightarrow> r\<lparr>nr_sticker := Some meta\<rparr> | None \<Rightarrow> r)
                in if text \<noteq> None then with_expire keys (with_sticker (make ''outgoing'' text quote atts rich))
                   else if atts \<noteq> [] then with_expire keys (with_sticker (make ''outgoing'' None quote atts rich))
                   else if quote \<noteq> None then with_expire keys (make ''outgoing'' None quote atts rich)
                   else if rich_holds (\<lambda>r. rich_contact r \<noteq> None) rich then
                     with_expire keys (make ''outgoing'' None None atts rich)
                   else skip_receive base sent_ts ''syncMessage'' destination grp rich))"

definition sync_receive :: "(json \<Rightarrow> nat) \<Rightarrow> normalized_receive \<Rightarrow> jobject \<Rightarrow> jobject \<Rightarrow> normalized_receive" where
  "sync_receive ser base envelope sync =
     (let timestamp = o_u64 envelope ''timestamp''
      in case o_obj sync ''viewOnceOpen'' of
           Some opened \<Rightarrow>
             (case bounded_id (o_str opened ''senderAci'') of
                None \<Rightarrow> skip_receive base timestamp ''syncMessage'' None None None
              | Some aci \<Rightarrow>
                  make_receive base timestamp ''control'' ''incoming'' None None None None [] None
                    (Some (ViewOnceOpen aci (opt_default 0 (o_u64 opened ''timestamp'')))))
         | None \<Rightarrow>
             (case o_obj sync ''sentMessage'' of
                Some sent \<Rightarrow> sync_sent_receive ser base timestamp sent
              | None \<Rightarrow> skip_receive base timestamp ''syncMessage'' (envelope_peer_source envelope) None None))"

definition data_receive :: "(json \<Rightarrow> nat) \<Rightarrow> normalized_receive \<Rightarrow> jobject \<Rightarrow> jobject \<Rightarrow> normalized_receive" where
  "data_receive ser base envelope data_message =
     (let timestamp = o_u64 envelope ''timestamp'';
          source = envelope_peer_source envelope;
          grp = data_message_group_id data_message;
          quote = Option.bind (map_of data_message ''quote'') normalized_quote_of;
          sticker = Option.bind (o_obj data_message ''sticker'') normalized_sticker_of;
          text = (if sticker = None then data_message_text data_message else None);
          contact = normalized_live_contact (map_of data_message ''contact'');
          atts = pushed_attachments
                   (opt_default [] (map_option normalized_attachments (map_of data_message ''attachments'')))
                   sticker contact;
          rich = with_card contact (normalized_rich_of ser data_message);
          keys = envelope_expire_keys data_message;
          make = (\<lambda>direction t q ats r. make_receive base timestamp ''dataMessage'' direction source grp t q ats r None);
          with_sticker = (\<lambda>r. r\<lparr>nr_sticker := map_option fst sticker\<rparr>)
      in if text \<noteq> None then with_expire keys (with_sticker (make ''incoming'' text quote atts rich))
         else if atts \<noteq> [] then with_expire keys (with_sticker (make ''incoming'' None quote atts rich))
         else if rich_holds rich_is_expiration_update rich then
           with_expire keys (make ''system'' (timer_change_text (fst keys)) None [] (Some timer_change_rich))
         else if rich_holds rich_is_group_update rich then
           make ''system'' group_update_text None []
             (Some (group_update_rich (Option.bind rich rich_group_name) (Option.bind rich rich_group_change)))
         else if rich_holds (\<lambda>r. rich_poll r \<noteq> None) rich \<or> rich_holds (\<lambda>r. rich_contact r \<noteq> None) rich \<or>
                 rich_holds (\<lambda>r. rich_gift_badge r \<noteq> None) rich then
           with_expire keys (make ''incoming'' None quote atts rich)
         else skip_receive base timestamp ''dataMessage'' source grp None)"

definition edit_receive :: "normalized_receive \<Rightarrow> jobject \<Rightarrow> jobject \<Rightarrow> normalized_receive" where
  "edit_receive base envelope edit =
     (let timestamp = o_u64 envelope ''timestamp'';
          source = envelope_peer_source envelope;
          body = o_obj edit ''dataMessage''
      in case (o_u64 edit ''targetSentTimestamp'', Option.bind body data_message_text) of
           (Some target, Some text) \<Rightarrow>
             make_receive base timestamp ''editMessage'' ''incoming'' source
               (data_message_group_id (opt_default [] body)) (Some text) None [] None (Some (Edit target))
         | _ \<Rightarrow> skip_receive base timestamp ''editMessage'' source None None)"

definition normalize_receive_fields :: "(json \<Rightarrow> nat) \<Rightarrow> json \<Rightarrow> normalized_receive option" where
  "normalize_receive_fields ser params =
     (let payload = opt_default params (json_get params ''result'')
      in case Option.bind (json_get payload ''envelope'') as_object of
           None \<Rightarrow> None
         | Some envelope \<Rightarrow>
             (let base = receive_base payload envelope;
                  timestamp = o_u64 envelope ''timestamp'';
                  source = envelope_peer_source envelope
              in Some
                (case control_routing_of ser envelope of
                   Some routing \<Rightarrow>
                     make_receive base timestamp ''control'' (cr_direction routing) (cr_source routing)
                       (cr_group_id routing) None None [] None (Some (cr_control routing))
                 | None \<Rightarrow>
                     (case o_obj envelope ''storyMessage'' of
                        Some story \<Rightarrow>
                          (case bounded_story_material ser story of
                             Some message \<Rightarrow>
                               make_receive base timestamp ''storyMessage'' ''incoming'' source None None None [] None
                                 (Some (Story message))
                           | None \<Rightarrow> skip_receive base timestamp ''storyMessage'' source None None)
                      | None \<Rightarrow>
                          (case o_obj envelope ''syncMessage'' of
                             Some sync \<Rightarrow> sync_receive ser base envelope sync
                           | None \<Rightarrow>
                               (case o_obj envelope ''dataMessage'' of
                                  Some d \<Rightarrow> data_receive ser base envelope d
                                | None \<Rightarrow>
                                    (case o_obj envelope ''editMessage'' of
                                       Some e \<Rightarrow> edit_receive base envelope e
                                     | None \<Rightarrow>
                                         skip_receive base timestamp
                                           (if map_of envelope ''receiptMessage'' \<noteq> None then ''receiptMessage'' else ''other'')
                                           source None None)))))))"

text \<open>
  \<open>normalize_receive\<close>: \<open>None\<close> is the protocol error of an envelope-less notification, \<open>Some None\<close> a receive that is
  dropped because one of its identifiers is too long.
\<close>

definition oversized_id :: "normalized_receive \<Rightarrow> bool" where
  "oversized_id r \<longleftrightarrow>
     list_ex (\<lambda>x. case x of Some i \<Rightarrow> char_count i > MAX_RECEIVE_ID_CHARS | None \<Rightarrow> False)
       [nr_account r, nr_source r, nr_source_uuid r, nr_group_id r]"

definition normalize_receive :: "(json \<Rightarrow> nat) \<Rightarrow> json \<Rightarrow> normalized_receive option option" where
  "normalize_receive ser params =
     (case normalize_receive_fields ser params of
        None \<Rightarrow> None
      | Some r \<Rightarrow> Some (if oversized_id r then None else Some r))"

end
