(* ===== verification/Receive_Weight.thy ===== *)
theory Receive_Weight
  imports Receive_Route
begin

text \<open>
  The weight of a receive (\<open>NormalizedReceive::estimated_bytes\<close>, \<open>SyncDeleteForMeProjection::budget_bytes\<close>) and what the
  caps of the receive ladder make of it. \<open>sz\<close> is \<open>std::mem::size_of\<close> of the struct a constructor of \<open>sized\<close> names and
  \<open>ser\<close> the length of the serialised JSON text.
\<close>

datatype sized =
    SzReceive | SzRich | SzControl
  | SzAttachment | SzQuote | SzQuoteAttachment | SzReadEntry | SzDeleteGroup | SzDeleteEntry
  | SzDeleteConversation | SzLocalOnlyDelete | SzDeleteAttachment | SzVerified | SzCallEvent
  | SzConfiguration | SzOptionBool | SzOptionStr | SzCallLinkUpdate | SzCallLogEvent | SzPniChange
  | SzBackfillResponse | SzContactRecord | SzStoryRecipient | SzPreview | SzMention | SzContact
  | SzContactName | SzContactField | SzTextStyle

definition len_opt :: "string option \<Rightarrow> nat" where
  "len_opt x = (case x of Some s \<Rightarrow> length s | None \<Rightarrow> 0)"

definition attachment_bytes :: "(sized \<Rightarrow> nat) \<Rightarrow> normalized_attachment \<Rightarrow> nat" where
  "attachment_bytes sz a =
     length (na_id a) + len_opt (na_content_type a) + len_opt (na_filename a) + len_opt (na_waveform a) +
     sz SzAttachment"

definition quote_bytes :: "(sized \<Rightarrow> nat) \<Rightarrow> normalized_quote \<Rightarrow> nat" where
  "quote_bytes sz q =
     length (nq_author q) + length (nq_text q) + sz SzQuote +
     sum_list (map (\<lambda>e. len_opt (nqa_content_type e) + len_opt (nqa_filename e) +
                        (case nqa_thumbnail e of Some t \<Rightarrow> attachment_bytes sz t | None \<Rightarrow> 0) + sz SzQuoteAttachment)
                (nq_attachments q))"

definition budget_bytes :: "(sized \<Rightarrow> nat) \<Rightarrow> sync_delete_for_me \<Rightarrow> nat" where
  "budget_bytes sz d =
     (let entry = 2 * MAX_RECEIVE_ID_CHARS + sz SzDeleteEntry
      in sum_list (map (\<lambda>g. sz SzDeleteGroup + len_opt (sdg_conversation_id g) + length (sdg_messages g) * entry)
                    (dfm_groups d)) +
         sum_list (map (\<lambda>c. sz SzDeleteConversation + length (sdc_conversation_id c) +
                            (length (sdc_most_recent c) + length (sdc_most_recent_non_expiring c)) * entry)
                    (dfm_conversations d)) +
         sum_list (map (\<lambda>c. sz SzLocalOnlyDelete + length c) (dfm_local_only_conversations d)) +
         sum_list (map (\<lambda>a. sz SzDeleteAttachment + length (sda_conversation_id a) +
                            length (sde_author (sda_target a)) + len_opt (sda_client_uuid a) +
                            len_opt (sda_fallback_digest a) + len_opt (sda_fallback_plaintext_hash a))
                    (dfm_attachments d)))"

definition locator_bytes :: "backfill_entry \<Rightarrow> nat" where
  "locator_bytes e =
     (case e of
        Locator (Some f) \<Rightarrow>
          len_opt (al_key f) + len_opt (al_cdn_key f) + len_opt (al_digest f) + len_opt (al_plaintext_hash f)
      | _ \<Rightarrow> 0)"

fun control_bytes :: "(sized \<Rightarrow> nat) \<Rightarrow> (json \<Rightarrow> nat) \<Rightarrow> control_receive \<Rightarrow> nat" where
  "control_bytes sz ser (SyncReadState read viewed) =
     (length read + length viewed) * (2 * MAX_RECEIVE_ID_CHARS + sz SzReadEntry)"
| "control_bytes sz ser (SyncDeleteForMe deletes) = budget_bytes sz deletes"
| "control_bytes sz ser (SyncVerified v) =
     sz SzVerified + length (sv_destination_uuid v) + len_opt (sv_destination_number v) + len_opt (sv_identity_key v)"
| "control_bytes sz ser (SyncCallEvent e) =
     sz SzCallEvent + length (sce_call_id e) + len_opt (sce_conversation_id e)"
| "control_bytes sz ser (SyncConfiguration c) = sz SzConfiguration + 4 * sz SzOptionBool"
| "control_bytes sz ser (SyncFetchLatest k) = sz SzOptionStr"
| "control_bytes sz ser (SyncCallLinkUpdate u) =
     sz SzCallLinkUpdate + length (scl_root_key u) + len_opt (scl_admin_key u)"
| "control_bytes sz ser (SyncCallLogEvent e) = sz SzCallLogEvent + len_opt (slg_conversation_id e)"
| "control_bytes sz ser (SyncDeviceNameChange d) = 0"
| "control_bytes sz ser SyncUsernameChange = 0"
| "control_bytes sz ser (SyncPniChangeNumber c) = sz SzPniChange + len_opt (spn_new_e164 c)"
| "control_bytes sz ser (SyncAttachmentBackfillResponse r) =
     sz SzBackfillResponse + length (bf_author r) + len_opt (bf_conversation_service_id r) +
     len_opt (bf_conversation_group_id r) + len_opt (bf_conversation_e164 r) +
     sum_list (map locator_bytes (bf_entries r))"
| "control_bytes sz ser (SyncContacts contacts) =
     sum_list (map (\<lambda>c. sz SzContactRecord + length (scr_aci c) + len_opt (scr_number c) + len_opt (scr_name c)) contacts)"
| "control_bytes sz ser (StoryReaction emoji remove author sent_at grp) =
     sz SzControl + length emoji + length author + len_opt grp"
| "control_bytes sz ser (StoryDeleted target grp) = sz SzControl + len_opt grp"
| "control_bytes sz ser (SyncStoryRecipientUpdate timestamp recipients) =
     sz SzControl +
     sum_list (map (\<lambda>e. sz SzStoryRecipient + len_opt (sr_destination_uuid e) +
                        sum_list (map length (sr_distribution_list_ids e))) recipients)"
| "control_bytes sz ser (SyncStoryMessage message) = ser message"
| "control_bytes sz ser _ = 0"

definition contact_field_bytes :: "(sized \<Rightarrow> nat) \<Rightarrow> normalized_contact_field \<Rightarrow> nat" where
  "contact_field_bytes sz f = length (ncf_value f) + len_opt (ncf_label f) + sz SzContactField"

definition contact_name_bytes :: "(sized \<Rightarrow> nat) \<Rightarrow> normalized_contact_name \<Rightarrow> nat" where
  "contact_name_bytes sz n =
     sz SzContactName + len_opt (ncn_given_name n) + len_opt (ncn_family_name n) + len_opt (ncn_prefix n) +
     len_opt (ncn_suffix n) + len_opt (ncn_middle_name n) + len_opt (ncn_nickname n)"

definition contact_bytes :: "(sized \<Rightarrow> nat) \<Rightarrow> normalized_contact \<Rightarrow> nat" where
  "contact_bytes sz c =
     sz SzContact + (case nc_name c of Some n \<Rightarrow> contact_name_bytes sz n | None \<Rightarrow> 0) +
     sum_list (map (contact_field_bytes sz) (nc_number c @ nc_email c)) + len_opt (nc_organization c)"

definition rich_bytes :: "(sized \<Rightarrow> nat) \<Rightarrow> normalized_rich \<Rightarrow> nat" where
  "rich_bytes sz r =
     sz SzRich +
     sum_list (map (\<lambda>p. length (npv_url p) + len_opt (npv_title p) + len_opt (npv_description p) + sz SzPreview)
                (rich_previews r)) +
     sum_list (map (\<lambda>m. length (nmn_author m) + len_opt (nmn_name m) + sz SzMention) (rich_mentions r)) +
     (case rich_contact r of Some c \<Rightarrow> contact_bytes sz c | None \<Rightarrow> 0) +
     length (rich_text_styles r) * sz SzTextStyle"

definition body_bytes :: "(sized \<Rightarrow> nat) \<Rightarrow> normalized_receive \<Rightarrow> nat" where
  "body_bytes sz r =
     len_opt (nr_text r) + sum_list (map (attachment_bytes sz) (nr_attachments r)) +
     (case nr_quote r of Some q \<Rightarrow> quote_bytes sz q | None \<Rightarrow> 0) +
     (case nr_rich r of Some h \<Rightarrow> rich_bytes sz h | None \<Rightarrow> 0)"

definition estimated_bytes :: "(sized \<Rightarrow> nat) \<Rightarrow> (json \<Rightarrow> nat) \<Rightarrow> normalized_receive \<Rightarrow> nat" where
  "estimated_bytes sz ser r =
     sz SzReceive + len_opt (nr_account r) + len_opt (nr_source r) + len_opt (nr_source_uuid r) +
     len_opt (nr_peer_name r) + len_opt (nr_group_id r) + body_bytes sz r +
     (case nr_control r of Some c \<Rightarrow> control_bytes sz ser c | None \<Rightarrow> 0)"

section \<open>Sums and options\<close>

lemma sum_list_le: "(\<And>x. x \<in> set xs \<Longrightarrow> f x \<le> k) \<Longrightarrow> sum_list (map f xs) \<le> length xs * (k :: nat)"
  by (induction xs) (auto intro: add_mono)

lemma sum_list_cap:
  assumes "\<And>x. x \<in> set xs \<Longrightarrow> f x \<le> k" and "length xs \<le> n"
  shows "sum_list (map f xs) \<le> n * (k :: nat)"
  using sum_list_le [of xs f k] assms mult_le_mono1 [OF assms(2), of k] by (meson order_trans)

lemma map_filter_mem: "x \<in> set (List.map_filter f xs) \<longleftrightarrow> (\<exists>y \<in> set xs. f y = Some x)"
  by (induction xs) (auto simp: List.map_filter_simps split: option.splits)

lemma map_filter_length: "length (List.map_filter f xs) \<le> length xs"
  by (induction xs) (auto simp: List.map_filter_simps split: option.splits)

lemma map_filter_take_length: "length (List.map_filter f (take n xs)) \<le> n"
  using map_filter_length [of f "take n xs"] by simp

lemma len_opt_simps [simp]: "len_opt None = 0" "len_opt (Some s) = length s"
  by (simp_all add: len_opt_def)

lemma len_opt_le: "(\<And>s. x = Some s \<Longrightarrow> length s \<le> n) \<Longrightarrow> len_opt x \<le> n"
  by (cases x) auto

lemma len_opt_bounded: "pred_option str_ok x \<Longrightarrow> len_opt (bounded n x) \<le> 4 * n"
  by (rule len_opt_le) (rule bounded_length)

lemma len_opt_bounded_id: "pred_option str_ok x \<Longrightarrow> len_opt (bounded_id x) \<le> 512"
  using len_opt_bounded [of x 128] by (simp add: bounded_id_def MAX_RECEIVE_ID_CHARS_def)

lemma bounded_id_length: "pred_option str_ok x \<Longrightarrow> bounded_id x = Some s \<Longrightarrow> length s \<le> 512"
  using len_opt_bounded_id [of x] by simp

lemma len_opt_filter: "(\<And>s. x = Some s \<Longrightarrow> p s \<Longrightarrow> length s \<le> n) \<Longrightarrow> len_opt (opt_filter p x) \<le> n"
  by (rule len_opt_le) simp

lemma len_opt_whole: "pred_option str_ok x \<Longrightarrow> len_opt (bounded_whole n x) \<le> 4 * n"
proof (rule len_opt_le)
  fix s assume "pred_option str_ok x" and "bounded_whole n x = Some s"
  then have "str_ok s" "char_count s \<le> n" by (auto simp: bounded_whole_def intro: trimmed_SomeD)
  then show "length s \<le> 4 * n" using str_ok_length [of s] by simp
qed

lemma as_str_pred: "json_ok v \<Longrightarrow> pred_option str_ok (as_str v)"
  by (cases v) auto

lemma bind_as_str_pred: "pred_option json_ok v \<Longrightarrow> pred_option str_ok (Option.bind v as_str)"
  by (cases v) (auto intro: as_str_pred)

lemma map_of_pred: "obj_utf8 obj \<Longrightarrow> pred_option json_ok (map_of obj k)"
  by (cases "map_of obj k") (auto intro: json_ok_get)

lemma json_get_pred: "json_ok v \<Longrightarrow> pred_option json_ok (json_get v k)"
  by (cases v) (auto simp: json_get_def obj_utf8_def intro!: map_of_pred)

lemma bind_as_object_utf8: "pred_option json_ok v \<Longrightarrow> Option.bind v as_object = Some obj \<Longrightarrow> obj_utf8 obj"
  by (cases v) (auto intro: as_object_utf8)

lemma opt_default_mem: "x \<in> set (opt_default [] v) \<longleftrightarrow> (\<exists>xs. v = Some xs \<and> x \<in> set xs)"
  by (cases v) (simp_all add: opt_default_def)

lemma default_arr_utf8: "obj_utf8 obj \<Longrightarrow> x \<in> set (opt_default [] (o_arr obj k)) \<Longrightarrow> json_ok x"
  by (auto simp: opt_default_mem dest: o_arr_utf8)

lemma kept_entry:
  assumes "obj_utf8 obj" and "x \<in> set (List.map_filter f (take n (opt_default [] (o_arr obj k))))"
  obtains y where "json_ok y" and "f y = Some x"
proof -
  obtain y where y: "y \<in> set (take n (opt_default [] (o_arr obj k)))" "f y = Some x"
    using assms(2) by (auto simp: map_filter_mem)
  have "json_ok y" by (rule default_arr_utf8 [OF assms(1) in_set_takeD [OF y(1)]])
  then show thesis using y(2) that by blast
qed

lemma face_array_utf8: "pred_option json_ok v \<Longrightarrow> x \<in> set (face_array v k) \<Longrightarrow> json_ok x"
proof -
  assume v: "pred_option json_ok v" and x: "x \<in> set (face_array v k)"
  then obtain f w xs where "v = Some f" "json_get f k = Some w" "as_array w = Some xs" "x \<in> set xs"
    by (auto simp: face_array_def opt_default_mem bind_eq_Some_conv)
  then show ?thesis using v json_get_pred [of f k] by (auto intro: as_array_utf8)
qed

lemma optional_bounded_length: "pred_option json_ok v \<Longrightarrow> len_opt (optional_bounded_string v) \<le> 512"
  using len_opt_bounded [OF bind_as_str_pred, of v 128]
  by (simp add: optional_bounded_string_def MAX_RECEIVE_ID_CHARS_def)

section \<open>Weights of the content faces\<close>

text \<open>
  The layout the bounds are stated for: no struct of the ladder takes more than 512 bytes, except the receive itself,
  its rich payload and its control payload, which may take 4096.
\<close>

definition layout_ok :: "(sized \<Rightarrow> nat) \<Rightarrow> bool" where
  "layout_ok sz \<longleftrightarrow> (\<forall>t. sz t \<le> (if t = SzReceive \<or> t = SzRich \<or> t = SzControl then 4096 else 512))"

lemma layout_bound: "layout_ok sz \<Longrightarrow> sz t \<le> 4096"
  unfolding layout_ok_def by (drule spec [of _ t]) (simp split: if_splits)

lemma layout_small: "layout_ok sz \<Longrightarrow> t \<notin> {SzReceive, SzRich, SzControl} \<Longrightarrow> sz t \<le> 512"
  unfolding layout_ok_def by (drule spec [of _ t]) simp

lemma filename_bytes: "len_opt (nonempty_opt (map_option sanitize_inbound_filename x)) \<le> 1024"
proof (rule len_opt_le)
  fix s assume "nonempty_opt (map_option sanitize_inbound_filename x) = Some s"
  then obtain name where "s = sanitize_inbound_filename name" by (auto simp: nonempty_opt_def)
  then show "length s \<le> 1024"
    using truncate_utf8_bytes_le [of _ 1024]
    by (auto simp: sanitize_inbound_filename_def Let_def MAX_ATTACHMENT_FILENAME_BYTES_def)
qed

lemma cut_bytes: "len_opt (nonempty_opt (map_option (\<lambda>s. truncate_utf8_bytes s n) x)) \<le> n"
  by (rule len_opt_le) (auto simp: nonempty_opt_def truncate_utf8_bytes_le)

lemma attachment_weight:
  assumes "obj_utf8 obj" and "normalized_attachment_inner obj b = Some a"
  shows "attachment_bytes sz a \<le> 2304 + sz SzAttachment"
proof -
  note str = o_str_utf8 [OF assms(1)]
  have ident: "length (na_id a) \<le> 512"
  proof (cases "o_str obj ''id''")
    case (Some s)
    then have "str_ok (str_trim s)" using str [of "''id''"] by (simp add: str_ok_trim)
    then show ?thesis using assms(2) Some take_chars_length [of "str_trim s" 128]
      by (auto simp: normalized_attachment_inner_def Let_def opt_default_def content_caps split: if_splits option.splits prod.splits)
  qed (use assms(2) in \<open>auto simp: normalized_attachment_inner_def Let_def opt_default_def split: if_splits prod.splits\<close>)
  have "na_content_type a = bounded MAX_ATTACHMENT_CONTENT_TYPE_CHARS (o_str obj ''contentType'')"
    "na_filename a = nonempty_opt (map_option sanitize_inbound_filename (o_str obj ''filename''))"
    "na_waveform a = opt_filter (\<lambda>t. t \<noteq> [] \<and> length t \<le> MAX_ATTACHMENT_WAVEFORM_CHARS) (o_str obj ''waveform'')"
    using assms(2) by (auto simp: normalized_attachment_inner_def Let_def split: if_splits prod.splits)
  moreover have "len_opt (bounded MAX_ATTACHMENT_CONTENT_TYPE_CHARS (o_str obj ''contentType'')) \<le> 256"
    using len_opt_bounded [OF str, of 64] by (simp add: content_caps)
  moreover have "len_opt (opt_filter (\<lambda>t. t \<noteq> [] \<and> length t \<le> MAX_ATTACHMENT_WAVEFORM_CHARS) (o_str obj ''waveform'')) \<le> 512"
    by (rule len_opt_filter) (simp add: content_caps)
  ultimately show ?thesis using ident filename_bytes [of "o_str obj ''filename''"]
    by (simp add: attachment_bytes_def)
qed

lemma attachments_weight:
  assumes "json_ok v" and "layout_ok sz" and "a \<in> set (normalized_attachments v)"
  shows "attachment_bytes sz a \<le> 2816"
proof -
  obtain e obj where e: "e \<in> set (opt_default [] (as_array v))" "as_object e = Some obj"
    "normalized_attachment_inner obj False = Some a"
    using assms(3) by (auto simp: normalized_attachments_def map_filter_mem bind_eq_Some_conv dest: in_set_takeD)
  then have "json_ok e" using assms(1) by (cases "as_array v") (auto simp: opt_default_def intro: as_array_utf8)
  then have "obj_utf8 obj" using e(2) by (rule as_object_utf8)
  from attachment_weight [OF this e(3), of sz] show ?thesis using layout_small [OF assms(2), of SzAttachment] by simp
qed

lemma pointer_weight:
  assumes "obj_utf8 obj" and "layout_ok sz" and "normalized_attachment_of obj = Some a"
  shows "attachment_bytes sz a \<le> 2816"
  using attachment_weight [OF assms(1) assms(3) [unfolded normalized_attachment_of_def], of sz]
    layout_small [OF assms(2), of SzAttachment] by simp

lemma nested_pointer_weight:
  assumes "obj_utf8 obj" and "layout_ok sz" and "Option.bind (o_obj obj k) normalized_attachment_of = Some a"
  shows "attachment_bytes sz a \<le> 2816"
  using assms o_obj_utf8 pointer_weight by (fastforce simp: bind_eq_Some_conv)

lemma first_str_pred: "obj_utf8 obj \<Longrightarrow> pred_option str_ok (first_str obj keys)"
proof -
  assume "obj_utf8 obj"
  then have "o_str obj k = Some s \<Longrightarrow> str_ok s" for k s using o_str_utf8 [of obj k] by simp
  then have "s \<in> set (List.map_filter (o_str obj) keys) \<Longrightarrow> str_ok s" for s by (auto simp: map_filter_mem)
  then show ?thesis by (cases "first_str obj keys") (auto simp: first_str_def dest: find_Some_in)
qed

lemma quote_attachment_weight:
  assumes "obj_utf8 obj" and "layout_ok sz" and "normalized_quote_attachment_of obj = Some e"
  shows "len_opt (nqa_content_type e) + len_opt (nqa_filename e) +
         (case nqa_thumbnail e of Some t \<Rightarrow> attachment_bytes sz t | None \<Rightarrow> 0) + sz SzQuoteAttachment \<le> 4608"
proof -
  have e: "nqa_content_type e = bounded MAX_ATTACHMENT_CONTENT_TYPE_CHARS (o_str obj ''contentType'')"
    "nqa_filename e = nonempty_opt (map_option sanitize_inbound_filename (o_str obj ''filename''))"
    "nqa_thumbnail e = Option.bind (o_obj obj ''thumbnail'') normalized_attachment_of"
    using assms(3) by (auto simp: normalized_quote_attachment_of_def Let_def split: if_splits)
  have "len_opt (nqa_content_type e) \<le> 256"
    using len_opt_bounded [OF o_str_utf8 [OF assms(1)], of 64] by (simp add: e content_caps)
  moreover have "len_opt (nqa_filename e) \<le> 1024" by (simp only: e filename_bytes)
  moreover have "(case nqa_thumbnail e of Some t \<Rightarrow> attachment_bytes sz t | None \<Rightarrow> 0) \<le> 2816"
    using nested_pointer_weight [OF assms(1,2)] by (simp add: e split: option.splits)
  ultimately show ?thesis using layout_small [OF assms(2), of SzQuoteAttachment] by simp
qed

lemma quote_weight:
  assumes "json_ok v" and "layout_ok sz" and "normalized_quote_of v = Some q"
  shows "quote_bytes sz q \<le> 38400"
proof -
  obtain obj where obj: "as_object v = Some obj"
    "bounded_id (first_str obj [''authorNumber'', ''authorUuid'', ''author'']) = Some (nq_author q)"
    "nq_text q = opt_default [] (map_option (take_chars MAX_QUOTE_TEXT_CHARS) (o_str obj ''text''))"
    "nq_attachments q = List.map_filter (\<lambda>e. Option.bind (as_object e) normalized_quote_attachment_of)
       (take MAX_QUOTE_ATTACHMENTS (opt_default [] (o_arr obj ''attachments'')))"
    using assms(3) by (auto simp: normalized_quote_of_def bind_eq_Some_conv)
  have u: "obj_utf8 obj" using assms(1) obj(1) by (rule as_object_utf8)
  have "length (nq_author q) \<le> 512" by (rule bounded_id_length [OF first_str_pred [OF u] obj(2)])
  moreover have "length (nq_text q) \<le> 512"
    using o_str_utf8 [OF u, of "''text''"] take_chars_length [of _ 128]
    by (cases "o_str obj ''text''") (simp_all add: obj(3) opt_default_def content_caps)
  moreover have "sum_list (map (\<lambda>e. len_opt (nqa_content_type e) + len_opt (nqa_filename e) +
      (case nqa_thumbnail e of Some t \<Rightarrow> attachment_bytes sz t | None \<Rightarrow> 0) + sz SzQuoteAttachment)
      (nq_attachments q)) \<le> 8 * 4608"
  proof (rule sum_list_cap)
    fix e assume "e \<in> set (nq_attachments q)"
    then obtain x inner where x: "x \<in> set (opt_default [] (o_arr obj ''attachments''))" "as_object x = Some inner"
      "normalized_quote_attachment_of inner = Some e"
      by (auto simp: obj(4) map_filter_mem bind_eq_Some_conv dest: in_set_takeD)
    then have "obj_utf8 inner" using default_arr_utf8 [OF u] as_object_utf8 by blast
    then show "len_opt (nqa_content_type e) + len_opt (nqa_filename e) +
      (case nqa_thumbnail e of Some t \<Rightarrow> attachment_bytes sz t | None \<Rightarrow> 0) + sz SzQuoteAttachment \<le> 4608"
      by (rule quote_attachment_weight [OF _ assms(2) x(3)])
  qed (simp add: obj(4) content_caps map_filter_take_length)
  ultimately show ?thesis using layout_small [OF assms(2), of SzQuote] by (simp add: quote_bytes_def)
qed

lemma contact_field_weight:
  assumes "json_ok e" and "layout_ok sz" and "contact_field_of e = Some f"
  shows "contact_field_bytes sz f \<le> 1792"
proof -
  obtain obj where obj: "as_object e = Some obj"
    "bounded MAX_CONTACT_VALUE_CHARS (o_str obj ''value'') = Some (ncf_value f)"
    "ncf_label f = bounded MAX_CONTACT_LABEL_CHARS (o_str obj ''label'')"
    using assms(3) by (auto simp: contact_field_of_def bind_eq_Some_conv)
  have u: "obj_utf8 obj" using assms(1) obj(1) by (rule as_object_utf8)
  have "length (ncf_value f) \<le> 1024"
    using bounded_length [OF o_str_utf8 [OF u] obj(2)] by (simp add: content_caps)
  moreover have "len_opt (ncf_label f) \<le> 256"
    using len_opt_bounded [OF o_str_utf8 [OF u], of 64] by (simp add: obj(3) content_caps)
  ultimately show ?thesis using layout_small [OF assms(2), of SzContactField] by (simp add: contact_field_bytes_def)
qed

lemma contact_fields_weight:
  assumes "pred_option json_ok raw" and "layout_ok sz"
  shows "sum_list (map (contact_field_bytes sz) (contact_fields raw)) \<le> 8 * 1792"
proof (rule sum_list_cap)
  fix f assume "f \<in> set (contact_fields raw)"
  then obtain e w xs where "raw = Some w" "as_array w = Some xs" "e \<in> set xs" "contact_field_of e = Some f"
    by (auto simp: contact_fields_def map_filter_mem opt_default_mem bind_eq_Some_conv dest!: in_set_takeD)
  then show "contact_field_bytes sz f \<le> 1792"
    using assms as_array_utf8 contact_field_weight by fastforce
qed (simp add: contact_fields_def content_caps)

lemma contact_name_weight:
  assumes "obj_utf8 name" and "layout_ok sz"
  shows "contact_name_bytes sz (contact_name_of name) \<le> 3584"
proof -
  have "len_opt (contact_name_part name k) \<le> 512" for k
    using len_opt_bounded [OF o_str_utf8 [OF assms(1)], of 128] by (simp add: contact_name_part_def content_caps)
  from this [of "''givenName''"] this [of "''familyName''"] this [of "''prefix''"] this [of "''suffix''"]
    this [of "''middleName''"] this [of "''nickname''"]
  show ?thesis using layout_small [OF assms(2), of SzContactName]
    by (simp add: contact_name_bytes_def contact_name_of_def)
qed

lemma import_contact_weight:
  assumes "obj_utf8 obj" and "layout_ok sz" and "import_contact (Some (JObj obj)) = Some (c, avatar)"
  shows "contact_bytes sz c \<le> 33280" and "avatar = o_obj obj ''avatar''"
proof -
  have c: "nc_name c = opt_filter contact_name_used (map_option contact_name_of (o_obj obj ''name''))"
    "nc_number c = contact_fields (map_of obj ''number'')" "nc_email c = contact_fields (map_of obj ''email'')"
    "nc_organization c = bounded MAX_CONTACT_ORGANIZATION_CHARS (o_str obj ''organization'')"
    and a: "avatar = o_obj obj ''avatar''"
    using assms(3) by (auto simp: import_contact_def Let_def split: if_splits)
  show "avatar = o_obj obj ''avatar''" by (rule a)
  have "(case nc_name c of Some n \<Rightarrow> contact_name_bytes sz n | None \<Rightarrow> 0) \<le> 3584"
  proof (cases "nc_name c")
    case (Some n)
    then obtain name where "o_obj obj ''name'' = Some name" "n = contact_name_of name" by (auto simp: c)
    then show ?thesis using Some contact_name_weight [OF o_obj_utf8 [OF assms(1)] assms(2)] by simp
  qed simp
  moreover have "sum_list (map (contact_field_bytes sz) (nc_number c @ nc_email c)) \<le> 16 * 1792"
    using contact_fields_weight [OF map_of_pred [OF assms(1)] assms(2), of "''number''"]
      contact_fields_weight [OF map_of_pred [OF assms(1)] assms(2), of "''email''"] by (simp add: c)
  moreover have "len_opt (nc_organization c) \<le> 512"
    using len_opt_bounded [OF o_str_utf8 [OF assms(1)], of 128] by (simp add: c content_caps)
  ultimately show "contact_bytes sz c \<le> 33280"
    using layout_small [OF assms(2), of SzContact] by (simp add: contact_bytes_def)
qed

lemma set_obj_insert: "set (obj_insert k v m) \<subseteq> insert (k, v) (set m)"
  by (induction k v m rule: obj_insert.induct) auto

lemma obj_insert_utf8: "json_ok v \<Longrightarrow> obj_utf8 m \<Longrightarrow> obj_utf8 (obj_insert k v m)"
  unfolding obj_utf8_def using set_obj_insert [of k v m] by auto

lemma unwrap_avatar_utf8: "obj_utf8 obj \<Longrightarrow> obj_utf8 (unwrap_avatar obj)"
proof (cases "map_of obj ''avatar''")
  case (Some wrap)
  assume u: "obj_utf8 obj"
  let ?rest = "filter (\<lambda>e. fst e \<noteq> ''avatar'') obj"
  have rest: "obj_utf8 ?rest" using u by (simp add: obj_utf8_def)
  show ?thesis
  proof (cases "opt_filter is_object (json_get wrap ''avatar'')")
    case None
    then show ?thesis using Some rest by (simp add: unwrap_avatar_def)
  next
    case (Some pointer)
    then have "json_ok pointer"
      using json_get_pred [OF json_ok_get [OF u \<open>map_of obj ''avatar'' = Some wrap\<close>], of "''avatar''"] by simp
    moreover have "unwrap_avatar obj = obj_insert ''avatar'' pointer ?rest"
      unfolding unwrap_avatar_def \<open>map_of obj ''avatar'' = Some wrap\<close> by (simp add: Some)
    ultimately show ?thesis using rest by (simp only: obj_insert_utf8)
  qed
qed (simp add: unwrap_avatar_def)

lemma live_contact_weight:
  assumes "pred_option json_ok raw" and "layout_ok sz" and "normalized_live_contact raw = Some (c, avatar)"
  shows "contact_bytes sz c \<le> 33280" and "avatar = Some a \<Longrightarrow> attachment_bytes sz a \<le> 2816"
proof -
  obtain obj p where obj: "Option.bind raw as_object = Some obj"
    "import_contact (Some (JObj (unwrap_avatar obj))) = Some (c, p)" "avatar = Option.bind p normalized_attachment_of"
    using assms(3) by (auto simp: normalized_live_contact_def bind_eq_Some_conv)
  have u: "obj_utf8 (unwrap_avatar obj)"
    by (rule unwrap_avatar_utf8 [OF bind_as_object_utf8 [OF assms(1) obj(1)]])
  show "contact_bytes sz c \<le> 33280" by (rule import_contact_weight(1) [OF u assms(2) obj(2)])
  show "avatar = Some a \<Longrightarrow> attachment_bytes sz a \<le> 2816"
    using nested_pointer_weight [OF u assms(2)] import_contact_weight(2) [OF u assms(2) obj(2)] obj(3) by simp
qed

lemma preview_weight:
  assumes "json_ok e" and "layout_ok sz" and "normalized_preview_of e = Some p"
  shows "length (npv_url p) + len_opt (npv_title p) + len_opt (npv_description p) + sz SzPreview \<le> 9728"
proof -
  obtain obj where obj: "as_object e = Some obj" "bounded MAX_PREVIEW_URL_CHARS (o_str obj ''url'') = Some (npv_url p)"
    "npv_title p = nonempty_opt (map_option (\<lambda>s. truncate_utf8_bytes s MAX_PREVIEW_FIELD_BYTES) (o_str obj ''title''))"
    "npv_description p =
       nonempty_opt (map_option (\<lambda>s. truncate_utf8_bytes s MAX_PREVIEW_FIELD_BYTES) (o_str obj ''description''))"
    using assms(3) by (auto simp: normalized_preview_of_def bind_eq_Some_conv)
  have "length (npv_url p) \<le> 8192"
    using bounded_length [OF o_str_utf8 [OF as_object_utf8 [OF assms(1) obj(1)]] obj(2)] by (simp add: content_caps)
  moreover have "len_opt (npv_title p) \<le> 512" "len_opt (npv_description p) \<le> 512"
    using cut_bytes [of MAX_PREVIEW_FIELD_BYTES] by (simp_all add: obj(3,4) content_caps)
  ultimately show ?thesis using layout_small [OF assms(2), of SzPreview] by simp
qed

lemma mention_weight:
  assumes "json_ok e" and "layout_ok sz" and "normalized_mention_of e = Some m"
  shows "length (nmn_author m) + len_opt (nmn_name m) + sz SzMention \<le> 1152"
proof -
  obtain obj where obj: "as_object e = Some obj"
    "opt_or (bounded_id (o_str obj ''number'')) (bounded_id (o_str obj ''uuid'')) = Some (nmn_author m)"
    "nmn_name m = nonempty_opt (map_option (\<lambda>s. truncate_utf8_bytes s MAX_MENTION_NAME_BYTES) (o_str obj ''name''))"
    using assms(3) by (auto simp: normalized_mention_of_def bind_eq_Some_conv Let_def)
  have "length (nmn_author m) \<le> 512"
    using obj(2) bounded_id_length [OF o_str_utf8 [OF as_object_utf8 [OF assms(1) obj(1)]]] by (auto simp: opt_or_Some)
  moreover have "len_opt (nmn_name m) \<le> 128"
    using cut_bytes [of MAX_MENTION_NAME_BYTES] by (simp add: obj(3) content_caps)
  ultimately show ?thesis using layout_small [OF assms(2), of SzMention] by simp
qed

lemma rich_weight:
  assumes "obj_utf8 message" and "layout_ok sz" and "normalized_rich_of ser message = Some r"
  shows "rich_bytes sz r \<le> 149504" and "rich_contact r = None"
proof -
  have r: "rich_previews r = List.map_filter normalized_preview_of (take MAX_PREVIEWS (opt_default [] (o_arr message ''previews'')))"
    "rich_mentions r = List.map_filter normalized_mention_of (take MAX_MENTIONS (opt_default [] (o_arr message ''mentions'')))"
    "rich_text_styles r =
       List.map_filter normalized_text_style_of (take MAX_TEXT_STYLES (opt_default [] (o_arr message ''textStyles'')))"
    and none: "rich_contact r = None"
    using assms(3) unfolding normalized_rich_of_def Let_def by (auto split: if_splits)
  show "rich_contact r = None" by (rule none)
  have "sum_list (map (\<lambda>p. length (npv_url p) + len_opt (npv_title p) + len_opt (npv_description p) + sz SzPreview)
          (rich_previews r)) \<le> 4 * 9728"
  proof (rule sum_list_cap)
    fix p assume "p \<in> set (rich_previews r)"
    then obtain y where "json_ok y" "normalized_preview_of y = Some p" unfolding r by (rule kept_entry [OF assms(1)])
    then show "length (npv_url p) + len_opt (npv_title p) + len_opt (npv_description p) + sz SzPreview \<le> 9728"
      using preview_weight [OF _ assms(2)] by blast
  qed (simp add: r content_caps map_filter_take_length)
  moreover have "sum_list (map (\<lambda>m. length (nmn_author m) + len_opt (nmn_name m) + sz SzMention) (rich_mentions r)) \<le> 64 * 1152"
  proof (rule sum_list_cap)
    fix m assume "m \<in> set (rich_mentions r)"
    then obtain y where "json_ok y" "normalized_mention_of y = Some m" unfolding r by (rule kept_entry [OF assms(1)])
    then show "length (nmn_author m) + len_opt (nmn_name m) + sz SzMention \<le> 1152"
      using mention_weight [OF _ assms(2)] by blast
  qed (simp add: r content_caps map_filter_take_length)
  moreover have "length (rich_text_styles r) * sz SzTextStyle \<le> 64 * 512"
    using layout_small [OF assms(2), of SzTextStyle] map_filter_take_length [of normalized_text_style_of 64]
    by (intro mult_le_mono) (simp_all add: r content_caps)
  ultimately show "rich_bytes sz r \<le> 149504"
    using layout_bound [OF assms(2), of SzRich] none by (simp add: rich_bytes_def)
qed

section \<open>Weights of the control faces\<close>

text \<open>
  \<open>unbounded_face\<close> holds of the three control payloads whose caps do not bound the weight below the capacity of the
  receive queue. A contact list may exceed one account's share.
\<close>

fun unbounded_face :: "control_receive \<Rightarrow> bool" where
  "unbounded_face (SyncDeleteForMe d) \<longleftrightarrow> True"
| "unbounded_face (SyncStoryRecipientUpdate t rs) \<longleftrightarrow> True"
| "unbounded_face (SyncStoryMessage m) \<longleftrightarrow> True"
| "unbounded_face _ \<longleftrightarrow> False"

fun is_contact_list :: "control_receive \<Rightarrow> bool" where
  "is_contact_list (SyncContacts cs) \<longleftrightarrow> True"
| "is_contact_list _ \<longleftrightarrow> False"

definition control_fits :: "(sized \<Rightarrow> nat) \<Rightarrow> (json \<Rightarrow> nat) \<Rightarrow> string option \<Rightarrow> control_receive \<Rightarrow> bool" where
  "control_fits sz ser grp c \<longleftrightarrow>
     unbounded_face c \<or> control_bytes sz ser c \<le> (if is_contact_list c then 917504 else 400000) + len_opt grp"

definition route_ok :: "(sized \<Rightarrow> nat) \<Rightarrow> (json \<Rightarrow> nat) \<Rightarrow> control_routing \<Rightarrow> bool" where
  "route_ok sz ser r \<longleftrightarrow>
     pred_option str_ok (cr_source r) \<and> pred_option str_ok (cr_group_id r) \<and>
     control_fits sz ser (cr_group_id r) (cr_control r)"

definition rung_ok :: "('a \<Rightarrow> bool) \<Rightarrow> 'a option option \<Rightarrow> bool" where
  "rung_ok p x \<longleftrightarrow> (\<forall>r. x = Some (Some r) \<longrightarrow> p r)"

lemma ladder_mem: "ladder rs = Some r \<Longrightarrow> Some (Some r) \<in> set rs"
  by (induction rs rule: ladder.induct) auto

lemma ladder_ok: "list_all (rung_ok p) rs \<Longrightarrow> ladder rs = Some r \<Longrightarrow> p r"
  by (auto simp: list_all_iff rung_ok_def dest: ladder_mem)

lemma rung_ok_rung: "rung_ok p (rung (map_option f x)) \<longleftrightarrow> (\<forall>v. x = Some v \<longrightarrow> p (f v))"
  by (auto simp: rung_ok_def rung_def)

lemma rung_ok_plain: "rung_ok p (rung x) \<longleftrightarrow> (\<forall>v. x = Some v \<longrightarrow> p v)"
  by (auto simp: rung_ok_def rung_def)

lemma rung_ok_call: "rung_ok p (map_option f x) \<longleftrightarrow> (\<forall>v r. x = Some v \<longrightarrow> f v = Some r \<longrightarrow> p r)"
  by (auto simp: rung_ok_def)

lemma rung_ok_if: "rung_ok p (if b then Some (Some r) else None) \<longleftrightarrow> (b \<longrightarrow> p r)"
  by (simp add: rung_ok_def)

lemma route_ok_routed:
  "route_ok sz ser (routed source grp c) \<longleftrightarrow>
   pred_option str_ok source \<and> pred_option str_ok grp \<and> control_fits sz ser grp c"
  by (simp add: route_ok_def routed_def)

lemma fitsI: "control_bytes sz ser c \<le> 400000 + len_opt grp \<Longrightarrow> control_fits sz ser grp c"
  by (cases "is_contact_list c") (simp_all add: control_fits_def)

lemma fits_weightless: "control_bytes sz ser c = 0 \<Longrightarrow> control_fits sz ser grp c"
  by (simp add: fitsI)

lemma read_state_fits:
  assumes "layout_ok sz"
  shows "control_fits sz ser grp (SyncReadState (normalized_sync_read_entries x) (normalized_sync_read_entries y))"
proof (rule fitsI)
  have len: "length (normalized_sync_read_entries v) \<le> 256" for v
    using map_filter_take_length [of sync_read_entry_of 256]
    by (simp add: normalized_sync_read_entries_def face_caps split: option.splits)
  have "(length (normalized_sync_read_entries x) + length (normalized_sync_read_entries y)) *
        (2 * MAX_RECEIVE_ID_CHARS + sz SzReadEntry) \<le> 512 * 768"
    using len [of x] len [of y] layout_small [OF assms, of SzReadEntry] by (intro mult_le_mono) (simp_all add: face_caps)
  then show "control_bytes sz ser (SyncReadState (normalized_sync_read_entries x) (normalized_sync_read_entries y))
             \<le> 400000 + len_opt grp" by simp
qed

lemma split_on_length: "Suc (length s) = sum_list (map length (split_on d s)) + length (split_on d s)"
proof (induction s)
  case (Cons c cs)
  obtain p ps where "split_on d cs = p # ps" using split_on_first by metis
  then show ?case using Cons by simp
qed simp

lemma service_id_length: "is_service_id_uuid u \<Longrightarrow> length u \<le> 64"
proof -
  assume "is_service_id_uuid u"
  then have parts: "length (split_on CHR ''-'' u) = 5"
    "list_all2 (\<lambda>part n. length part = n \<and> list_all is_ascii_hexdigit part) (split_on CHR ''-'' u) [8, 4, 4, 4, 12]"
    by (simp_all add: is_service_id_uuid_def Let_def)
  then have "list_all2 (\<lambda>x y. length x = y) (split_on CHR ''-'' u) [8, 4, 4, 4, 12]"
    by (auto elim!: list_all2_mono)
  then have "map length (split_on CHR ''-'' u) = [8, 4, 4, 4, 12]"
    by (auto simp: list_all2_Cons2)
  then show ?thesis using split_on_length [of u "CHR ''-''"] parts(1) by simp
qed

lemma verified_fits:
  assumes "pred_option json_ok v" and "layout_ok sz" and "normalized_sync_verified v = Some x"
  shows "control_fits sz ser grp (SyncVerified x)"
proof (rule fitsI)
  obtain obj where obj: "Option.bind v as_object = Some obj" "is_service_id_uuid (sv_destination_uuid x)"
    "sv_destination_number x = optional_bounded_string (map_of obj ''destinationNumber'')"
    "sv_identity_key x = bounded_whole MAX_SYNC_IDENTITY_KEY_CHARS (o_str obj ''identityKey'')"
    using assms(3) by (auto simp: normalized_sync_verified_def bind_eq_Some_conv)
  have u: "obj_utf8 obj" by (rule bind_as_object_utf8 [OF assms(1) obj(1)])
  show "control_bytes sz ser (SyncVerified x) \<le> 400000 + len_opt grp"
    using service_id_length [OF obj(2)] optional_bounded_length [OF map_of_pred [OF u], of "''destinationNumber''"]
      len_opt_whole [OF o_str_utf8 [OF u], of 128 "''identityKey''"] layout_small [OF assms(2), of SzVerified]
    by (simp add: obj(3,4) face_caps)
qed

lemma call_event_fits:
  assumes "pred_option json_ok v" and "layout_ok sz" and "normalized_sync_call_event v = Some x"
  shows "control_fits sz ser grp (SyncCallEvent x)"
proof (rule fitsI)
  obtain obj where obj: "Option.bind v as_object = Some obj" "length (sce_call_id x) \<le> MAX_SYNC_CALL_ID_CHARS"
    "sce_conversation_id x = optional_bounded_string (map_of obj ''conversationId'')"
    using assms(3) by (auto simp: normalized_sync_call_event_def bind_eq_Some_conv)
  show "control_bytes sz ser (SyncCallEvent x) \<le> 400000 + len_opt grp"
    using obj(2) optional_bounded_length [OF map_of_pred [OF bind_as_object_utf8 [OF assms(1) obj(1)]], of "''conversationId''"]
      layout_small [OF assms(2), of SzCallEvent] by (simp add: obj(3) face_caps)
qed

lemma call_link_fits:
  assumes "pred_option json_ok v" and "layout_ok sz" and "normalized_sync_call_link_update v = Some x"
  shows "control_fits sz ser grp (SyncCallLinkUpdate x)"
proof (rule fitsI)
  obtain obj where obj: "Option.bind v as_object = Some obj"
    "bounded_whole MAX_SYNC_CALL_LINK_KEY_CHARS (o_str obj ''rootKey'') = Some (scl_root_key x)"
    "scl_admin_key x = bounded_whole MAX_SYNC_CALL_LINK_KEY_CHARS (o_str obj ''adminKey'')"
    using assms(3) by (auto simp: normalized_sync_call_link_update_def bind_eq_Some_conv)
  note whole = len_opt_whole [OF o_str_utf8 [OF bind_as_object_utf8 [OF assms(1) obj(1)]], of 128]
  show "control_bytes sz ser (SyncCallLinkUpdate x) \<le> 400000 + len_opt grp"
    using whole [of "''rootKey''"] whole [of "''adminKey''"] obj(2) layout_small [OF assms(2), of SzCallLinkUpdate]
    by (simp add: obj(3) face_caps)
qed

lemma call_log_fits:
  assumes "pred_option json_ok v" and "layout_ok sz" and "normalized_sync_call_log_event v = Some x"
  shows "control_fits sz ser grp (SyncCallLogEvent x)"
proof (rule fitsI)
  obtain obj where obj: "Option.bind v as_object = Some obj"
    "slg_conversation_id x = optional_bounded_string (map_of obj ''conversationId'')"
    using assms(3) by (auto simp: normalized_sync_call_log_event_def bind_eq_Some_conv)
  show "control_bytes sz ser (SyncCallLogEvent x) \<le> 400000 + len_opt grp"
    using optional_bounded_length [OF map_of_pred [OF bind_as_object_utf8 [OF assms(1) obj(1)]], of "''conversationId''"]
      layout_small [OF assms(2), of SzCallLogEvent] by (simp add: obj(2))
qed

lemma pni_fits:
  assumes "pred_option json_ok v" and "layout_ok sz" and "normalized_sync_pni_change_number v = Some x"
  shows "control_fits sz ser grp (SyncPniChangeNumber x)"
proof (rule fitsI)
  obtain obj where obj: "Option.bind v as_object = Some obj"
    "spn_new_e164 x = optional_bounded_string (map_of obj ''newE164'')"
    using assms(3) by (auto simp: normalized_sync_pni_change_number_def bind_eq_Some_conv Let_def split: if_splits)
  show "control_bytes sz ser (SyncPniChangeNumber x) \<le> 400000 + len_opt grp"
    using optional_bounded_length [OF map_of_pred [OF bind_as_object_utf8 [OF assms(1) obj(1)]], of "''newE164''"]
      layout_small [OF assms(2), of SzPniChange] by (simp add: obj(2))
qed

lemma fixed_width_fits:
  assumes "layout_ok sz"
  shows "control_fits sz ser grp (SyncConfiguration c)" and "control_fits sz ser grp (SyncFetchLatest k)"
  using layout_bound [OF assms, of SzConfiguration] layout_bound [OF assms, of SzOptionBool]
    layout_bound [OF assms, of SzOptionStr] by (auto intro!: fitsI)

lemma contacts_fit:
  assumes "pred_option json_ok v" and "layout_ok sz"
  shows "control_fits sz ser grp (SyncContacts (normalized_sync_contact_records v))"
proof -
  let ?f = "\<lambda>c. sz SzContactRecord + length (scr_aci c) + len_opt (scr_number c) + len_opt (scr_name c)"
  have "sum_list (map ?f (normalized_sync_contact_records v)) \<le> 512 * 1792"
  proof (rule sum_list_cap)
    fix c assume "c \<in> set (normalized_sync_contact_records v)"
    then obtain e where e: "e \<in> set (face_array v ''records'')" "sync_contact_record_of e = Some c"
      by (auto simp: normalized_sync_contact_records_def map_filter_mem dest: in_set_takeD)
    then obtain obj where obj: "as_object e = Some obj" "bounded_id (o_str obj ''aci'') = Some (scr_aci c)"
      "scr_number c = bounded_id (o_str obj ''number'')" "scr_name c = bounded MAX_SYNC_CONTACT_NAME_CHARS (o_str obj ''name'')"
      by (auto simp: sync_contact_record_of_def bind_eq_Some_conv)
    note str = o_str_utf8 [OF as_object_utf8 [OF face_array_utf8 [OF assms(1) e(1)] obj(1)]]
    show "?f c \<le> 1792"
      using bounded_id_length [OF str obj(2)] len_opt_bounded_id [OF str, of "''number''"]
        len_opt_bounded [OF str, of 64 "''name''"] layout_small [OF assms(2), of SzContactRecord]
      by (simp add: obj(3,4) face_caps)
  qed (simp add: normalized_sync_contact_records_def face_caps map_filter_take_length)
  then show ?thesis by (simp add: control_fits_def)
qed

lemma locator_weight: "locator_bytes (normalized_backfill_entry e) \<le> 1664"
proof -
  have b64: "len_opt (bounded_b64 raw k) \<le> 512" for raw k
    by (rule len_opt_le) (simp add: bounded_b64_def face_caps)
  have hash: "len_opt (map_option to_ascii_lowercase
      (opt_filter (\<lambda>t. t \<noteq> [] \<and> length t \<le> MAX_LOCATOR_HEX_CHARS \<and> list_all is_ascii_hexdigit t) x)) \<le> 128" for x
    by (rule len_opt_le) (auto simp: to_ascii_lowercase_def face_caps)
  have "locator_bytes (Locator (normalized_locator_face v)) \<le> 1664" for v
  proof (cases "as_object v")
    case (Some raw)
    then show ?thesis
      using b64 [of raw "''key''"] b64 [of raw "''cdnKey''"] b64 [of raw "''digest''"] hash [of "o_str raw ''plaintextHash''"]
      by (simp add: normalized_locator_face_def locator_bytes_def Let_def)
  qed (simp add: normalized_locator_face_def locator_bytes_def)
  moreover have "locator_bytes (Locator None) \<le> 1664" "locator_bytes (Status s) \<le> 1664" for s
    by (simp_all add: locator_bytes_def)
  ultimately show ?thesis
    by (auto simp: normalized_backfill_entry_def Let_def bind_eq_None_conv split: option.splits bind_split)
qed

lemma backfill_fits:
  assumes "pred_option json_ok v" and "layout_ok sz" and "normalized_sync_attachment_backfill_response v = Some x"
  shows "control_fits sz ser grp (SyncAttachmentBackfillResponse x)"
proof (rule fitsI)
  obtain face target conversation where f: "Option.bind v as_object = Some face"
    "o_obj face ''targetMessage'' = Some target" "o_obj face ''targetConversation'' = Some conversation"
    "bounded_id (o_str target ''author'') = Some (bf_author x)"
    "bounded_id (o_str conversation ''serviceId'') = bf_conversation_service_id x"
    "bounded_id (o_str conversation ''groupId'') = bf_conversation_group_id x"
    "bounded_id (o_str conversation ''e164'') = bf_conversation_e164 x"
    "length (bf_entries x) \<le> 32" "\<forall>e \<in> set (bf_entries x). locator_bytes e \<le> 1664"
    using assms(3) unfolding normalized_sync_attachment_backfill_response_def Let_def
    by (auto simp: bind_eq_Some_conv face_caps locator_weight split: if_splits option.splits)
  have u: "obj_utf8 face" by (rule bind_as_object_utf8 [OF assms(1) f(1)])
  have "sum_list (map locator_bytes (bf_entries x)) \<le> 32 * 1664"
    using f(8,9) by (intro sum_list_cap) auto
  then show "control_bytes sz ser (SyncAttachmentBackfillResponse x) \<le> 400000 + len_opt grp"
    using bounded_id_length [OF o_str_utf8 [OF o_obj_utf8 [OF u f(2)]] f(4)]
      len_opt_bounded_id [OF o_str_utf8 [OF o_obj_utf8 [OF u f(3)]], of "''serviceId''"]
      len_opt_bounded_id [OF o_str_utf8 [OF o_obj_utf8 [OF u f(3)]], of "''groupId''"]
      len_opt_bounded_id [OF o_str_utf8 [OF o_obj_utf8 [OF u f(3)]], of "''e164''"]
      layout_small [OF assms(2), of SzBackfillResponse]
    by (simp add: f(5,6,7))
qed

section \<open>Every rung of the ladder\<close>

lemma peer_source_utf8: "obj_utf8 envelope \<Longrightarrow> pred_option str_ok (envelope_peer_source envelope)"
  using o_str_utf8 [of envelope "''source''"] o_str_utf8 [of envelope "''sourceNumber''"]
    o_str_utf8 [of envelope "''sourceUuid''"]
  by (auto simp: envelope_peer_source_def opt_or_def split: option.splits)

lemma group_id_utf8: "obj_utf8 message \<Longrightarrow> pred_option str_ok (data_message_group_id message)"
proof -
  assume u: "obj_utf8 message"
  have "pred_option json_ok (Option.bind (map_of message ''groupInfo'') (\<lambda>info. json_get info ''groupId''))"
    using map_of_pred [OF u, of "''groupInfo''"] json_get_pred by (cases "map_of message ''groupInfo''") auto
  then show ?thesis using map_of_pred [OF u, of "''groupId''"]
    by (auto simp: data_message_group_id_def opt_or_def intro!: bind_as_str_pred as_str_pred split: option.splits)
qed

lemma call_weightless: "normalized_call_message call = Some c \<Longrightarrow> control_bytes sz ser c = 0"
  by (auto simp: normalized_call_message_def opt_or_Some signal_frame_def bind_eq_Some_conv split: option.splits if_splits)

lemma pin_weightless:
  "normalized_pin_message v = Some c \<Longrightarrow> control_bytes sz ser c = 0"
  "normalized_unpin_message v = Some c \<Longrightarrow> control_bytes sz ser c = 0"
  "normalized_admin_delete v = Some c \<Longrightarrow> control_bytes sz ser c = 0"
  "normalized_poll_vote w = Some c \<Longrightarrow> control_bytes sz ser c = 0"
  "normalized_reaction v = Some c \<Longrightarrow> control_bytes sz ser c = 0"
  by (auto simp: normalized_pin_message_def normalized_unpin_message_def normalized_admin_delete_def
      normalized_poll_vote_def normalized_reaction_def bind_eq_Some_conv split: if_splits)

lemma data_message_rungs_ok:
  assumes "obj_utf8 envelope" and "obj_utf8 d" and "layout_ok sz"
  shows "list_all (rung_ok (route_ok sz ser)) (data_message_rungs envelope d)"
proof -
  note src = peer_source_utf8 [OF assms(1)] and grp = group_id_utf8 [OF assms(2)]
  have story: "control_fits sz ser (data_message_group_id d) (StoryReaction e rm a t (data_message_group_id d))"
    if "length e \<le> 64" "length a \<le> 512" for e rm a t
    using that layout_bound [OF assms(3), of SzControl] by (intro fitsI) simp
  have deleted: "control_fits sz ser (data_message_group_id d) (StoryDeleted t (data_message_group_id d))" for t
    using layout_bound [OF assms(3), of SzControl] by (intro fitsI) simp
  have emoji: "length e \<le> 64" if em: "normalized_reaction v = Some (Reaction e a t rm)" "json_ok v" for v e a t rm
  proof -
    obtain obj where "as_object v = Some obj" "bounded MAX_EMOJI_CHARS (o_str obj ''emoji'') = Some e"
      using em(1) by (auto simp: normalized_reaction_def bind_eq_Some_conv)
    then show ?thesis
      using bounded_length [OF o_str_utf8 [OF as_object_utf8 [OF em(2)]], of obj MAX_EMOJI_CHARS] by (simp add: content_caps)
  qed
  have author: "length (nsr_author_aci st) \<le> 512" if st: "normalized_story_reply_of d = Some st" for st
  proof -
    obtain reply where "o_obj d ''storyReply'' = Some reply" "bounded_id (o_str reply ''authorAci'') = Some (nsr_author_aci st)"
      using st by (auto simp: normalized_story_reply_of_def bind_eq_Some_conv)
    then show ?thesis using bounded_id_length [OF o_str_utf8 [OF o_obj_utf8 [OF assms(2)]]] by blast
  qed
  have reaction: "route_ok sz ser v"
    if "(case Option.bind (map_of d ''reaction'') normalized_reaction of
           Some (Reaction emoji author timestamp remove) \<Rightarrow>
             (case normalized_story_reply_of d of
                Some story \<Rightarrow> Some (routed (envelope_peer_source envelope) (data_message_group_id d)
                  (StoryReaction emoji remove (nsr_author_aci story) (nsr_sent_timestamp story) (data_message_group_id d)))
              | None \<Rightarrow> Some (routed (envelope_peer_source envelope) (data_message_group_id d)
                  (Reaction emoji author timestamp remove)))
         | _ \<Rightarrow> None) = Some v" for v
    using that map_of_pred [OF assms(2), of "''reaction''"]
    by (auto simp: route_ok_routed src grp fits_weightless bind_eq_Some_conv intro!: story intro: emoji author
        split: option.splits control_receive.splits)
  have known: "data_message_group_id d = Some g \<Longrightarrow> str_ok g" for g using grp by simp
  show ?thesis
    unfolding data_message_rungs_def Let_def
    by (auto dest: known simp: rung_ok_rung rung_ok_plain route_ok_routed src grp fits_weightless deleted bind_eq_Some_conv
        pin_weightless reaction split: if_splits)
qed

lemma group_rungs_ok:
  assumes "obj_utf8 envelope"
  shows "list_all (rung_ok (route_ok sz ser)) (group_rungs ser' envelope)"
proof -
  have str: "pred_option str_ok (o_str inner k)" if "o_obj envelope x = Some inner" for inner x k
    by (rule o_str_utf8 [OF o_obj_utf8 [OF assms that]])
  have grp: "str_ok g" if "o_obj envelope x = Some inner" "trimmed (o_str inner k) = Some g" for inner x k g
    by (rule trimmed_SomeD [OF str [OF that(1)] that(2)])
  show ?thesis
    unfolding group_rungs_def
    by (auto simp: rung_ok_call group_updated_route_def group_changed_route_def group_terminated_route_def
        contact_profile_route_def route_ok_routed bind_eq_Some_conv fits_weightless Let_def
        intro: str grp split: if_splits)
qed

lemma sync_rungs_ok:
  assumes "obj_utf8 sync" and "layout_ok sz"
  shows "list_all (rung_ok (route_ok sz ser)) (sync_rungs sync)"
proof -
  note v = map_of_pred [OF assms(1)]
  have mrr: "pred_option str_ok (mrr_group_id m)"
    if "o_obj sync ''messageRequestResponse'' = Some f" "normalized_message_request_response f = Some m" for f m
  proof -
    have "pred_option str_ok (o_str f ''groupId'')" by (rule o_str_utf8 [OF o_obj_utf8 [OF assms(1) that(1)]])
    then show ?thesis using that(2)
      by (auto simp: normalized_message_request_response_def bind_eq_Some_conv str_ok_trim
          split: option.splits if_splits)
  qed
  have faces: "control_fits sz ser None (SyncDeleteForMe d)" "control_fits sz ser None (SyncStoryRecipientUpdate t rs)"
    for d t rs by (simp_all add: control_fits_def)
  show ?thesis
    unfolding sync_rungs_def Let_def
    by (auto simp: rung_ok_rung rung_ok_if route_ok_routed fits_weightless bind_eq_Some_conv faces
        intro: mrr read_state_fits [OF assms(2)] verified_fits [OF v assms(2)] call_event_fits [OF v assms(2)]
          fixed_width_fits [OF assms(2)] call_link_fits [OF v assms(2)] call_log_fits [OF v assms(2)]
          backfill_fits [OF v assms(2)] pni_fits [OF v assms(2)] contacts_fit [OF v assms(2)])
qed

lemma signal_rungs_ok:
  assumes "obj_utf8 envelope"
  shows "list_all (rung_ok (route_ok sz ser)) (signal_rungs envelope)"
proof -
  have str: "pred_option str_ok (o_str inner k)" if "o_obj envelope x = Some inner" for inner x k
    by (rule o_str_utf8 [OF o_obj_utf8 [OF assms that]])
  show ?thesis
    unfolding signal_rungs_def receipt_route_def Let_def
    by (auto simp: rung_ok_rung rung_ok_call route_ok_routed peer_source_utf8 [OF assms] fits_weightless
        bind_eq_Some_conv call_weightless intro: str split: if_splits)
qed

lemma control_routing_ok:
  assumes "obj_utf8 envelope" and "layout_ok sz" and "control_routing_of ser' envelope = Some r"
  shows "route_ok sz ser r"
proof -
  have "list_all (rung_ok (route_ok sz ser))
     ((case o_obj envelope ''dataMessage'' of Some d \<Rightarrow> data_message_rungs envelope d | None \<Rightarrow> []) @
      group_rungs ser' envelope @
      (case o_obj envelope ''syncMessage'' of Some s \<Rightarrow> sync_rungs s | None \<Rightarrow> []) @ signal_rungs envelope)"
    using data_message_rungs_ok [OF assms(1) o_obj_utf8 [OF assms(1)] assms(2)]
      group_rungs_ok [OF assms(1)] sync_rungs_ok [OF o_obj_utf8 [OF assms(1)] assms(2)] signal_rungs_ok [OF assms(1)]
    by (simp split: option.splits)
  from ladder_ok [OF this] show ?thesis using assms(3) by (simp add: control_routing_of_def)
qed

section \<open>Weights of a whole receive\<close>

definition shape_ok :: "(sized \<Rightarrow> nat) \<Rightarrow> (json \<Rightarrow> nat) \<Rightarrow> normalized_receive \<Rightarrow> bool" where
  "shape_ok sz ser r \<longleftrightarrow>
     pred_option str_ok (nr_account r) \<and> pred_option str_ok (nr_source r) \<and>
     pred_option str_ok (nr_source_uuid r) \<and> pred_option str_ok (nr_group_id r) \<and>
     len_opt (nr_peer_name r) \<le> 256 \<and> body_bytes sz r \<le> 448000 \<and>
     (case nr_control r of
        None \<Rightarrow> True
      | Some c \<Rightarrow> control_fits sz ser (nr_group_id r) c \<and> (body_bytes sz r = 0 \<or> control_bytes sz ser c = 0))"

definition base_ok :: "normalized_receive \<Rightarrow> bool" where
  "base_ok b \<longleftrightarrow>
     pred_option str_ok (nr_account b) \<and> pred_option str_ok (nr_source_uuid b) \<and> len_opt (nr_peer_name b) \<le> 256"

definition text_fits :: "normalized_text option \<Rightarrow> bool" where
  "text_fits t \<longleftrightarrow> pred_option (\<lambda>t. length (nt_value t) \<le> 131072) t"

definition faces_fit ::
    "(sized \<Rightarrow> nat) \<Rightarrow> normalized_quote option \<Rightarrow> normalized_attachment list \<Rightarrow> normalized_rich option \<Rightarrow> bool" where
  "faces_fit sz quote atts rich \<longleftrightarrow>
     pred_option (\<lambda>q. quote_bytes sz q \<le> 38400) quote \<and>
     length atts \<le> 34 \<and> list_all (\<lambda>a. attachment_bytes sz a \<le> 2816) atts \<and>
     pred_option (\<lambda>r. rich_bytes sz r \<le> 182784) rich"

lemma shape_ok_updates [simp]:
  "shape_ok sz ser (with_expire keys r) = shape_ok sz ser r"
  "shape_ok sz ser (r\<lparr>nr_sticker := x\<rparr>) = shape_ok sz ser r"
  by (simp_all add: shape_ok_def with_expire_def body_bytes_def cong: option.case_cong)

lemma shape_if: "shape_ok sz ser x \<Longrightarrow> shape_ok sz ser y \<Longrightarrow> shape_ok sz ser (if b then x else y)"
  by simp

lemma shape_wrap:
  "shape_ok sz ser r \<Longrightarrow> shape_ok sz ser (with_expire keys r)"
  "shape_ok sz ser r \<Longrightarrow> shape_ok sz ser (r\<lparr>nr_sticker := x\<rparr>)"
  by simp_all

lemma shape_option:
  "shape_ok sz ser y \<Longrightarrow> (\<And>v. x = Some v \<Longrightarrow> shape_ok sz ser (f v)) \<Longrightarrow>
   shape_ok sz ser (case x of Some v \<Rightarrow> f v | None \<Rightarrow> y)"
  by (cases x) simp_all

lemma make_body:
  assumes "text_fits text" and "faces_fit sz quote atts rich"
  shows "body_bytes sz (make_receive base ts kind dir source grp text quote atts rich control) \<le> 448000"
proof -
  have "len_opt (map_option nt_value text) \<le> 131072" using assms(1) by (cases "text") (simp_all add: text_fits_def)
  moreover have "sum_list (map (attachment_bytes sz) atts) \<le> 34 * 2816"
    using assms(2) by (intro sum_list_cap) (auto simp: faces_fit_def list_all_iff)
  moreover have "(case quote of Some q \<Rightarrow> quote_bytes sz q | None \<Rightarrow> 0) \<le> 38400"
    "(case rich of Some h \<Rightarrow> rich_bytes sz h | None \<Rightarrow> 0) \<le> 182784"
    using assms(2) by (auto simp: faces_fit_def split: option.splits)
  ultimately show ?thesis by (simp add: body_bytes_def make_receive_def)
qed

lemma make_shape:
  assumes "base_ok base" and "pred_option str_ok source" and "pred_option str_ok grp"
    and "text_fits text" and "faces_fit sz quote atts rich"
  shows "shape_ok sz ser (make_receive base ts kind dir source grp text quote atts rich None)"
  using assms(1,2,3) make_body [OF assms(4,5), of base ts kind dir source grp None]
  by (simp add: shape_ok_def base_ok_def make_receive_def)

lemma make_control_shape:
  assumes "base_ok base" and "pred_option str_ok source" and "pred_option str_ok grp" and "control_fits sz ser grp c"
  shows "shape_ok sz ser (make_receive base ts kind dir source grp None None [] None (Some c))"
  using assms by (simp add: shape_ok_def base_ok_def make_receive_def body_bytes_def)

lemma make_edit_shape:
  assumes "base_ok base" and "pred_option str_ok source" and "pred_option str_ok grp" and "text_fits text"
  shows "shape_ok sz ser (make_receive base ts kind dir source grp text None [] None (Some (Edit t)))"
proof -
  have "faces_fit sz None [] None" by (simp add: faces_fit_def)
  then show ?thesis
    using assms(1,2,3) make_body [OF assms(4), of sz None "[]" None base ts kind dir source grp "Some (Edit t)"]
    by (simp add: shape_ok_def base_ok_def make_receive_def fits_weightless)
qed

lemma receive_base_ok: "json_ok payload \<Longrightarrow> obj_utf8 envelope \<Longrightarrow> base_ok (receive_base payload envelope)"
  using bind_as_str_pred [OF json_get_pred, of payload "''account''"] trimmed_utf8 [OF o_str_utf8, of envelope "''sourceUuid''"]
    len_opt_bounded [OF o_str_utf8, of envelope 64 "''sourceName''"]
  by (simp add: base_ok_def receive_base_def)

lemma text_of_fits: "text_fits (normalized_text_of s)"
  using truncate_utf8_bytes_le [of s 4096]
  by (auto simp: text_fits_def normalized_text_of_def Let_def content_caps)

lemma data_text_fits: "text_fits (data_message_text m)"
  using text_of_fits by (cases "o_str m ''message''") (simp_all add: data_message_text_def text_fits_def)

lemma text_fits_None: "text_fits None"
  by (simp add: text_fits_def)

lemma notice_texts_fit: "text_fits (timer_change_text k)" "text_fits group_update_text"
  by (simp_all add: timer_change_text_def group_update_text_def text_of_fits)

lemma notice_rich_weight:
  assumes "layout_ok sz"
  shows "rich_bytes sz timer_change_rich \<le> 182784" and "rich_bytes sz (group_update_rich n c) \<le> 182784"
  using layout_bound [OF assms, of SzRich]
  by (simp_all add: rich_bytes_def timer_change_rich_def group_update_rich_def default_rich_def)

lemma carded_rich_weight:
  assumes "obj_utf8 m" and "layout_ok sz"
  shows "pred_option (\<lambda>r. rich_bytes sz r \<le> 182784) (with_card (normalized_live_contact (map_of m k)) (normalized_rich_of ser m))"
proof (cases "normalized_live_contact (map_of m k)")
  case None
  then show ?thesis using rich_weight(1) [OF assms]
    by (cases "normalized_rich_of ser m") (fastforce simp: with_card_def)+
next
  case (Some ca)
  obtain c a where ca: "ca = (c, a)" by fastforce
  have c: "contact_bytes sz c \<le> 33280" by (rule live_contact_weight(1) [OF map_of_pred [OF assms(1)] assms(2) Some [unfolded ca]])
  have split: "rich_contact r = None \<Longrightarrow> rich_bytes sz (r\<lparr>rich_contact := Some c\<rparr>) = rich_bytes sz r + contact_bytes sz c" for r
    by (simp add: rich_bytes_def)
  have "rich_bytes sz default_rich \<le> 149504" "rich_contact default_rich = None"
    using layout_bound [OF assms(2), of SzRich] by (simp_all add: rich_bytes_def default_rich_def)
  then have "rich_bytes sz (opt_default default_rich (normalized_rich_of ser m)) \<le> 149504 \<and>
             rich_contact (opt_default default_rich (normalized_rich_of ser m)) = None"
    using rich_weight [OF assms, of ser] by (cases "normalized_rich_of ser m") (auto simp: opt_default_def)
  then show ?thesis using split c Some ca by (simp add: with_card_def)
qed

lemma sticker_weight:
  assumes "obj_utf8 m" and "layout_ok sz" and "Option.bind (o_obj m k) normalized_sticker_of = Some (st, img)"
  shows "attachment_bytes sz img \<le> 2816"
proof -
  obtain obj where "o_obj m k = Some obj" "Option.bind (o_obj obj ''data'') normalized_attachment_of = Some img"
    using assms(3) by (auto simp: normalized_sticker_of_def bind_eq_Some_conv)
  then show ?thesis using nested_pointer_weight [OF o_obj_utf8 [OF assms(1)] assms(2)] by blast
qed

definition message_attachments :: "jobject \<Rightarrow> normalized_attachment list" where
  "message_attachments m = opt_default [] (map_option normalized_attachments (map_of m ''attachments''))"

lemma message_attachments_weight:
  assumes "obj_utf8 m" and "layout_ok sz"
  shows "length (message_attachments m) \<le> 32" and "a \<in> set (message_attachments m) \<Longrightarrow> attachment_bytes sz a \<le> 2816"
  using attachments_weight [OF _ assms(2)] map_of_pred [OF assms(1), of "''attachments''"] map_filter_take_length
  by (cases "map_of m ''attachments''"; force simp: message_attachments_def opt_default_def normalized_attachments_def face_caps)+

lemma pushed_weight:
  assumes "obj_utf8 m" and "layout_ok sz"
  defines "atts \<equiv> pushed_attachments (message_attachments m) (Option.bind (o_obj m ''sticker'') normalized_sticker_of)
                     (normalized_live_contact (map_of m ''contact''))"
  shows "length atts \<le> 34" and "list_all (\<lambda>a. attachment_bytes sz a \<le> 2816) atts"
proof -
  have "length (message_attachments m) \<le> 32" by (rule message_attachments_weight(1) [OF assms(1,2)])
  then show "length atts \<le> 34" by (auto simp: atts_def pushed_attachments_def split: option.splits prod.splits)
  have "list_all (\<lambda>a. attachment_bytes sz a \<le> 2816)
          (case Option.bind (o_obj m ''sticker'') normalized_sticker_of of Some (_, img) \<Rightarrow> [img] | None \<Rightarrow> [])"
    using sticker_weight [OF assms(1,2)] by (cases "Option.bind (o_obj m ''sticker'') normalized_sticker_of") auto
  moreover have "list_all (\<lambda>a. attachment_bytes sz a \<le> 2816)
          (case normalized_live_contact (map_of m ''contact'') of Some (_, Some avatar) \<Rightarrow> [avatar] | _ \<Rightarrow> [])"
    using live_contact_weight(2) [OF map_of_pred [OF assms(1)] assms(2)]
    by (cases "normalized_live_contact (map_of m ''contact'')") (auto split: option.splits)
  moreover have "list_all (\<lambda>a. attachment_bytes sz a \<le> 2816) (message_attachments m)"
    using message_attachments_weight(2) [OF assms(1,2)] by (simp add: list_all_iff)
  ultimately show "list_all (\<lambda>a. attachment_bytes sz a \<le> 2816) atts"
    by (simp add: atts_def pushed_attachments_def)
qed

lemma quote_fits:
  assumes "obj_utf8 m" and "layout_ok sz"
  shows "pred_option (\<lambda>q. quote_bytes sz q \<le> 38400) (Option.bind (map_of m ''quote'') normalized_quote_of)"
  using quote_weight [OF _ assms(2)] map_of_pred [OF assms(1), of "''quote''"]
  by (cases "map_of m ''quote''"; cases "Option.bind (map_of m ''quote'') normalized_quote_of") auto

lemma sent_control_weightless: "sync_sent_control sent = Some c \<Longrightarrow> control_bytes sz ser c = 0"
proof (rule ladder_ok [where p = "\<lambda>c. control_bytes sz ser c = 0"])
  show "list_all (rung_ok (\<lambda>c. control_bytes sz ser c = 0))
       [rung (map_option Edit (Option.bind (o_obj sent ''editMessage'') (\<lambda>e. o_u64 e ''targetSentTimestamp''))),
        rung (map_option RemoteDelete (Option.bind (o_obj sent ''remoteDelete'') (\<lambda>e. o_u64 e ''timestamp''))),
        rung (Option.bind (map_of sent ''pinMessage'') normalized_pin_message),
        rung (Option.bind (map_of sent ''unpinMessage'') normalized_unpin_message),
        rung (Option.bind (map_of sent ''adminDelete'') normalized_admin_delete),
        rung (map_option PollTerminate
               (positive (Option.bind (o_obj sent ''pollTerminate'') (\<lambda>e. o_u64 e ''targetSentTimestamp'')))),
        rung (Option.bind (o_obj sent ''pollVote'') normalized_poll_vote),
        rung (Option.bind (map_of sent ''reaction'') normalized_reaction)]"
    by (auto simp: rung_ok_rung rung_ok_plain bind_eq_Some_conv pin_weightless)
qed (simp add: sync_sent_control_def)

lemma destination_utf8: "obj_utf8 sent \<Longrightarrow> pred_option str_ok (sent_destination sent)"
  using o_str_utf8 [of sent "''destinationNumber''"] o_str_utf8 [of sent "''destinationUuid''"]
    o_str_utf8 [of sent "''destination''"]
  by (auto simp: sent_destination_def opt_or_def split: option.splits)

lemma faces_fit_none: "faces_fit sz None [] None"
  by (simp add: faces_fit_def)

lemma skip_shape:
  assumes "base_ok base" and "pred_option str_ok source" and "pred_option str_ok grp" and "faces_fit sz None [] rich"
  shows "shape_ok sz ser (skip_receive base ts kind source grp rich)"
  unfolding skip_receive_def by (rule make_shape [OF assms(1,2,3) text_fits_None assms(4)])

lemma data_receive_shape:
  assumes "base_ok base" and "obj_utf8 envelope" and "obj_utf8 d" and "layout_ok sz"
  shows "shape_ok sz ser (data_receive ser' base envelope d)"
proof -
  let ?rich = "with_card (normalized_live_contact (map_of d ''contact'')) (normalized_rich_of ser' d)"
  let ?quote = "Option.bind (map_of d ''quote'') normalized_quote_of"
  let ?atts = "pushed_attachments (message_attachments d) (Option.bind (o_obj d ''sticker'') normalized_sticker_of)
                 (normalized_live_contact (map_of d ''contact''))"
  note mk = make_shape [OF assms(1) peer_source_utf8 [OF assms(2)] group_id_utf8 [OF assms(3)]]
  have full: "faces_fit sz ?quote ?atts ?rich"
    using quote_fits [OF assms(3,4)] pushed_weight [OF assms(3,4)] carded_rich_weight [OF assms(3,4)]
    by (simp add: faces_fit_def)
  have notices: "faces_fit sz None [] (Some timer_change_rich)" "faces_fit sz None [] (Some (group_update_rich n c))" for n c
    using notice_rich_weight [OF assms(4)] by (simp_all add: faces_fit_def)
  have texts: "text_fits (if b then data_message_text d else None)" for b
    by (simp add: data_text_fits text_fits_None)
  show ?thesis
    unfolding data_receive_def Let_def message_attachments_def [symmetric]
    by (intro shape_if shape_wrap mk full notices texts text_fits_None notice_texts_fit
        skip_shape [OF assms(1) peer_source_utf8 [OF assms(2)] group_id_utf8 [OF assms(3)] faces_fit_none])
qed

lemma sync_sent_receive_shape:
  assumes "base_ok base" and "obj_utf8 sent" and "layout_ok sz"
  shows "shape_ok sz ser (sync_sent_receive ser' base ts sent)"
proof -
  let ?rich = "with_card (normalized_live_contact (map_of sent ''contact'')) (normalized_rich_of ser' sent)"
  let ?quote = "Option.bind (map_of sent ''quote'') normalized_quote_of"
  let ?sticker = "Option.bind (o_obj sent ''sticker'') normalized_sticker_of"
  let ?atts = "pushed_attachments (message_attachments sent) ?sticker (normalized_live_contact (map_of sent ''contact''))"
  note mk = make_shape [OF assms(1) destination_utf8 [OF assms(2)] group_id_utf8 [OF assms(2)]]
  note mkc = make_control_shape [OF assms(1) destination_utf8 [OF assms(2)] group_id_utf8 [OF assms(2)]]
  note sk = skip_shape [OF assms(1) destination_utf8 [OF assms(2)] group_id_utf8 [OF assms(2)]]
  have full: "faces_fit sz ?quote ?atts ?rich"
    using quote_fits [OF assms(2,3)] pushed_weight [OF assms(2,3)] carded_rich_weight [OF assms(2,3)]
    by (simp add: faces_fit_def)
  then have part: "faces_fit sz None ?atts ?rich" "faces_fit sz None [] ?rich" by (simp_all add: faces_fit_def)
  have plain: "faces_fit sz None [] (normalized_rich_of ser' sent)"
    using rich_weight(1) [OF assms(2,3), of ser'] by (cases "normalized_rich_of ser' sent") (auto simp: faces_fit_def)
  have notices: "faces_fit sz None [] (Some timer_change_rich)" "faces_fit sz None [] (Some (group_update_rich n c))" for n c
    using notice_rich_weight [OF assms(3)] by (simp_all add: faces_fit_def)
  have texts: "text_fits (if b then None else data_message_text sent)" for b
    by (simp add: data_text_fits text_fits_None)
  have story: "control_fits sz ser g (SyncStoryMessage m)" for g m by (simp add: control_fits_def)
  have stick: "shape_ok sz ser r \<Longrightarrow>
      shape_ok sz ser (case ?sticker of Some (meta, _) \<Rightarrow> r\<lparr>nr_sticker := Some meta\<rparr> | None \<Rightarrow> r)" for r
    by (cases ?sticker) auto
  have own: "shape_ok sz ser (make_receive base t k d (sent_destination sent) (data_message_group_id sent) None None [] None
      (sync_sent_control sent))" for t k d
    using mk [OF text_fits_None faces_fit_none] mkc [OF fits_weightless [OF sent_control_weightless]]
    by (cases "sync_sent_control sent") auto
  have posted: "shape_ok sz ser
      (case (t, bounded_story_material ser' st) of
         (Some ts, Some message) \<Rightarrow>
           make_receive base (Some ts) ''storyMessage'' ''outgoing'' (sent_destination sent) (data_message_group_id sent)
             None None [] None (Some (SyncStoryMessage message))
       | _ \<Rightarrow> skip_receive base t ''storyMessage'' (sent_destination sent) (data_message_group_id sent) None)" for t st
    by (auto intro: mkc [OF story] sk [OF faces_fit_none] split: option.splits)
  show ?thesis
    unfolding sync_sent_receive_def Let_def message_attachments_def [symmetric]
    by (intro shape_if shape_option shape_wrap own posted stick mk sk full part plain notices texts text_fits_None
        notice_texts_fit)
qed

lemma sync_receive_shape:
  assumes "base_ok base" and "obj_utf8 envelope" and "obj_utf8 sync" and "layout_ok sz"
  shows "shape_ok sz ser (sync_receive ser' base envelope sync)"
proof -
  have opened: "shape_ok sz ser (make_receive base t k d None None None None [] None (Some (ViewOnceOpen a n)))" for t k d a n
    by (rule make_control_shape [OF assms(1)]) (simp_all add: fits_weightless)
  have skip: "shape_ok sz ser (skip_receive base t k None None None)" for t k
    by (rule skip_shape [OF assms(1)]) (simp_all add: faces_fit_none)
  have other: "shape_ok sz ser (skip_receive base t k (envelope_peer_source envelope) None None)" for t k
    by (rule skip_shape [OF assms(1) peer_source_utf8 [OF assms(2)]]) (simp_all add: faces_fit_none)
  show ?thesis
    unfolding sync_receive_def Let_def
    by (intro shape_option opened skip other sync_sent_receive_shape [OF assms(1) o_obj_utf8 [OF assms(3)] assms(4)])
qed

lemma edit_receive_shape:
  assumes "base_ok base" and "obj_utf8 envelope" and "obj_utf8 edit"
  shows "shape_ok sz ser (edit_receive base envelope edit)"
proof -
  note src = peer_source_utf8 [OF assms(2)]
  have grp: "pred_option str_ok (data_message_group_id (opt_default [] (o_obj edit k)))" for k
    using o_obj_utf8 [OF assms(3), of k] group_id_utf8
    by (cases "o_obj edit k") (auto simp: opt_default_def data_message_group_id_def opt_or_def)
  have fits: "text_fits (Some t)" if "Option.bind (o_obj edit k) data_message_text = Some t" for k t
    using that data_text_fits by (auto simp: bind_eq_Some_conv dest: sym)
  have skip: "shape_ok sz ser (skip_receive base t k (envelope_peer_source envelope) None None)" for t k
    by (rule skip_shape [OF assms(1) src]) (simp_all add: faces_fit_none)
  show ?thesis
    unfolding edit_receive_def Let_def
    using make_edit_shape [OF assms(1) src grp fits] skip by (auto split: option.splits)
qed

lemma normalize_fields_shape:
  assumes "json_ok params" and "layout_ok sz" and "normalize_receive_fields ser' params = Some r"
  shows "shape_ok sz ser r"
proof -
  let ?payload = "opt_default params (json_get params ''result'')"
  have p: "json_ok ?payload"
    using assms(1) json_get_pred [OF assms(1), of "''result''"] by (cases "json_get params ''result''") (simp_all add: opt_default_def)
  obtain envelope where e: "Option.bind (json_get ?payload ''envelope'') as_object = Some envelope"
    using assms(3) by (auto simp: normalize_receive_fields_def Let_def split: option.splits)
  have u: "obj_utf8 envelope" by (rule bind_as_object_utf8 [OF json_get_pred [OF p] e])
  note b = receive_base_ok [OF p u] and src = peer_source_utf8 [OF u]
  have control: "shape_ok sz ser
      (make_receive (receive_base ?payload envelope) t k (cr_direction x) (cr_source x) (cr_group_id x) None None [] None
        (Some (cr_control x)))" if "control_routing_of ser' envelope = Some x" for x t k
    using control_routing_ok [OF u assms(2) that, of ser] by (intro make_control_shape [OF b]) (simp_all add: route_ok_def)
  have skip: "shape_ok sz ser (skip_receive (receive_base ?payload envelope) t k (envelope_peer_source envelope) None None)" for t k
    by (rule skip_shape [OF b src]) (simp_all add: faces_fit_none)
  have story: "shape_ok sz ser (make_receive (receive_base ?payload envelope) t k d (envelope_peer_source envelope) None
      None None [] None (Some (Story m)))" for t k d m
    by (rule make_control_shape [OF b src]) (simp_all add: fits_weightless)
  note o = o_obj_utf8 [OF u]
  note r = assms(3) [unfolded normalize_receive_fields_def Let_def e option.case option.inject]
  show ?thesis
    by (rule subst [OF r, where P = "shape_ok sz ser"])
      (intro shape_option control skip story sync_receive_shape [OF b u o assms(2)] data_receive_shape [OF b u o assms(2)]
        edit_receive_shape [OF b u o])
qed

end
