(* ===== verification/Engine_Errors.thy ===== *)
theory Engine_Errors
  imports Json_Value
begin

text \<open>
  What the connector makes of an error the engine answers (\<open>src/engine.rs\<close>): the error type, the matchers
  over the JSON-RPC error object and the order in which a response is classified.
\<close>

datatype call_class = ReadOnly | Mutating

datatype engine_error =
    StartFailure
  | NotRunning
  | Backpressure
  | Timeout
  | UnknownOutcome
  | Exited
  | Protocol
  | Upstream "string option" "int option"
  | Unauthorized
  | RateLimited "nat option"
  | ProofRequired
  | ServerUnavailable
  | IdentityUnverified
  | UpstreamCode string "json option"

fun error_class :: "engine_error \<Rightarrow> string" where
  "error_class StartFailure = ''start_failed''"
| "error_class NotRunning = ''not_running''"
| "error_class Backpressure = ''backpressure''"
| "error_class Timeout = ''timeout''"
| "error_class UnknownOutcome = ''unknown_outcome''"
| "error_class Exited = ''exited''"
| "error_class Protocol = ''protocol''"
| "error_class (Upstream _ _) = ''upstream''"
| "error_class Unauthorized = ''unauthorized''"
| "error_class (RateLimited _) = ''rate_limited''"
| "error_class ProofRequired = ''proof_required''"
| "error_class ServerUnavailable = ''server_unavailable''"
| "error_class IdentityUnverified = ''identity_unverified''"
| "error_class (UpstreamCode _ _) = ''upstream_code''"

text \<open>\<open>error.get("message").and_then(Value::as_str)\<close> and its siblings.\<close>

definition get_str :: "json option \<Rightarrow> string \<Rightarrow> string option" where
  "get_str v k = Option.bind (Option.bind v (\<lambda>v. json_get v k)) as_str"

fun json_as_i64 :: "json \<Rightarrow> int option" where
  "json_as_i64 (JNum (PosInt n)) = (if n < 2 ^ 63 then Some (int n) else None)"
| "json_as_i64 (JNum (NegInt i)) = Some i"
| "json_as_i64 _ = None"

definition upstream_error_is_unauthorized :: "json option \<Rightarrow> bool" where
  "upstream_error_is_unauthorized error =
     (case get_str error ''message'' of
        None \<Rightarrow> False
      | Some m \<Rightarrow>
          contains ''AuthorizationFailedException'' m \<or> contains ''Authorization failed'' m \<or>
          (starts_with ''User '' m \<and> ends_with '' is not registered.'' m))"

definition ENGINE_CREDENTIALS_401_BODY_ANCHOR :: string where
  "ENGINE_CREDENTIALS_401_BODY_ANCHOR = ''Credentials are required to access this resource.''"

definition upstream_error_is_credential_invalid :: "json option \<Rightarrow> bool" where
  "upstream_error_is_credential_invalid error =
     (case get_str error ''message'' of
        None \<Rightarrow> False
      | Some m \<Rightarrow> contains ENGINE_CREDENTIALS_401_BODY_ANCHOR m)"

definition ENGINE_SEND_RATE_LIMITED_ANCHOR :: string where
  "ENGINE_SEND_RATE_LIMITED_ANCHOR = ''(RateLimitExceeded)''"
definition ENGINE_SEND_PROOF_REQUIRED_ANCHOR :: string where
  "ENGINE_SEND_PROOF_REQUIRED_ANCHOR = ''(ProofRequiredException)''"
definition ENGINE_SEND_SERVER_UNAVAILABLE_ANCHOR :: string where
  "ENGINE_SEND_SERVER_UNAVAILABLE_ANCHOR = ''(ServerUnavailableException)''"
definition ENGINE_SEND_IDENTITY_UNVERIFIED_ANCHOR :: string where
  "ENGINE_SEND_IDENTITY_UNVERIFIED_ANCHOR = ''(UntrustedIdentityException)''"

definition upstream_error_send_class :: "json option \<Rightarrow> engine_error option" where
  "upstream_error_send_class error =
     (case get_str error ''message'' of
        None \<Rightarrow> None
      | Some m \<Rightarrow>
          if contains ENGINE_SEND_RATE_LIMITED_ANCHOR m then
            Some (RateLimited (Option.bind (Option.bind (Option.bind error (\<lambda>e. json_get e ''data''))
                    (\<lambda>d. json_get d ''retryAfterSecs'')) json_as_u64))
          else if contains ENGINE_SEND_PROOF_REQUIRED_ANCHOR m then Some ProofRequired
          else if contains ENGINE_SEND_SERVER_UNAVAILABLE_ANCHOR m then Some ServerUnavailable
          else if contains ENGINE_SEND_IDENTITY_UNVERIFIED_ANCHOR m then Some IdentityUnverified
          else None)"

section \<open>The cause literal\<close>

definition ENGINE_ERROR_CAUSE_MAX_BYTES :: nat where "ENGINE_ERROR_CAUSE_MAX_BYTES = 120"

definition is_ascii_alphabetic :: "char \<Rightarrow> bool" where
  "is_ascii_alphabetic c \<longleftrightarrow> is_ascii_lowercase c \<or> is_ascii_uppercase c"

definition class_token :: "string \<Rightarrow> bool" where
  "class_token t \<longleftrightarrow>
     t \<noteq> [] \<and> is_ascii_alphabetic (hd t) \<and>
     list_all (\<lambda>c. is_ascii_alphanumeric c \<or> c = CHR ''_'' \<or> c = CHR ''.'') t"

function cause_scan :: "string \<Rightarrow> string option \<Rightarrow> string option" where
  "cause_scan rest cause =
     (case split_once CHR ''('' rest of
        None \<Rightarrow> cause
      | Some (_, tail) \<Rightarrow>
          (case split_once CHR '')'' tail of
             None \<Rightarrow> cause
           | Some (inner, _) \<Rightarrow> cause_scan tail (if class_token inner then Some inner else cause)))"
  by pat_completeness auto

lemma split_once_shorter: "split_once d s = Some (a, b) \<Longrightarrow> length b < length s"
  by (auto dest!: split_once_SomeD)

termination cause_scan
  by (relation "measure (\<lambda>(rest, _). length rest)") (auto dest: split_once_shorter)

declare cause_scan.simps [simp del]

definition upstream_error_cause :: "json option \<Rightarrow> string option" where
  "upstream_error_cause error =
     (case get_str error ''message'' of
        None \<Rightarrow> None
      | Some m \<Rightarrow>
          map_option (\<lambda>literal. ''('' @ take (ENGINE_ERROR_CAUSE_MAX_BYTES - 2) literal @ '')'') (cause_scan m None))"

section \<open>Structured codes\<close>

definition ENGINE_STRUCTURED_ERROR_CODES :: "string list" where
  "ENGINE_STRUCTURED_ERROR_CODES =
     [''STICKER_PACK_KEY_INVALID'', ''STICKER_PACK_FETCH_FAILED'', ''STICKER_PACK_MALFORMED'',
      ''STICKER_IMAGE_TOO_LARGE'', ''AVATAR_UNAVAILABLE'', ''AVATAR_FETCH_FAILED'',
      ''AVATAR_TOO_LARGE'', ''CONVERSATION_NOT_RESOLVED'', ''STORAGE_UNAVAILABLE'',
      ''STORAGE_WRITE_FAILED'', ''STORAGE_READ_FAILED'', ''BACKUP_EXPORT_ALREADY_RUNNING'',
      ''BACKUP_ARTIFACT_MISSING'', ''BACKUP_ARTIFACT_INVALID'', ''BACKUP_SNAPSHOT_EXISTS'',
      ''BACKUP_IO_FAILED'', ''BACKUP_IMPORT_ALREADY_RUNNING'', ''BACKUP_SNAPSHOT_MISSING'',
      ''BACKUP_SNAPSHOT_METADATA_INVALID'', ''BACKUP_SNAPSHOT_KEY_MISMATCH'', ''BACKUP_SNAPSHOT_IO_FAILED'',
      ''BACKUP_NOT_PROVISIONED'', ''BACKUP_AUTH_FAILED'', ''BACKUP_RUNNING'',
      ''BACKUP_TRANSPORT_FAILED'', ''BACKUP_DOWNLOAD_FAILED'', ''BACKUP_DECRYPT_FAILED'',
      ''BACKUP_EXPORT_FAILED'', ''BACKUP_UPLOAD_ALREADY_RUNNING'', ''BACKUP_UPLOAD_FAILED'',
      ''USERNAME_TAKEN'', ''USERNAME_RESERVATION_GONE'', ''USERNAME_RATE_LIMITED'',
      ''USERNAME_SERVER_FAILED'', ''REPORT_SPAM_FAILED'', ''PROFILE_UPLOAD_FAILED'',
      ''GROUP_AVATAR_UPLOAD_FAILED'', ''GROUP_UPDATE_FAILED'', ''GROUP_INVITE_LINK_UNAVAILABLE'',
      ''GROUP_INVITE_LINK_PREVIEW_FAILED'', ''CALL_CREDENTIALS_FAILED'', ''CALL_CREDENTIALS_UNAVAILABLE'',
      ''DEVICES_FAILED'', ''DEVICES_UNAVAILABLE'', ''GROUP_MIGRATION_FAILED'',
      ''GROUP_CREATE_FAILED'', ''PHONE_INVALID'', ''PHONE_RATE_LIMITED'',
      ''PHONE_SERVER_FAILED'']"

definition upstream_error_code :: "json option \<Rightarrow> string option" where
  "upstream_error_code error =
     (let candidates = List.map_filter id [get_str error ''message'', get_str error ''code'']
      in find (\<lambda>literal. literal \<in> set ENGINE_STRUCTURED_ERROR_CODES) candidates)"

text \<open>The error arm of a response, in the order of the source. The first component is the unauthorized signal.\<close>

definition classify_upstream_error :: "json option \<Rightarrow> bool \<times> engine_error" where
  "classify_upstream_error error =
     (if upstream_error_is_unauthorized error \<or> upstream_error_is_credential_invalid error then (True, Unauthorized)
      else
        (False,
         case upstream_error_send_class error of
           Some class \<Rightarrow> class
         | None \<Rightarrow>
             (case upstream_error_code error of
                Some code \<Rightarrow>
                  UpstreamCode code
                    (case Option.bind error (\<lambda>e. json_get e ''data'') of
                       Some d \<Rightarrow> if is_object d then Some d else None
                     | None \<Rightarrow> None)
              | None \<Rightarrow>
                  Upstream (upstream_error_cause error)
                    (Option.bind (Option.bind error (\<lambda>e. json_get e ''code'')) json_as_i64))))"

text \<open>What an engine answer can become: never one of the connector's own failures.\<close>

definition engine_answer_error :: "engine_error \<Rightarrow> bool" where
  "engine_answer_error e \<longleftrightarrow>
     (case e of
        Upstream _ _ \<Rightarrow> True | Unauthorized \<Rightarrow> True | RateLimited _ \<Rightarrow> True | ProofRequired \<Rightarrow> True
      | ServerUnavailable \<Rightarrow> True | IdentityUnverified \<Rightarrow> True | UpstreamCode _ _ \<Rightarrow> True | _ \<Rightarrow> False)"

lemma classify_is_engine_answer: "engine_answer_error (snd (classify_upstream_error error))"
  by (auto simp: classify_upstream_error_def upstream_error_send_class_def engine_answer_error_def
      split: option.split)

lemma classified_code_is_declared:
  "snd (classify_upstream_error error) = UpstreamCode c d \<Longrightarrow> c \<in> set ENGINE_STRUCTURED_ERROR_CODES"
  by (auto simp: classify_upstream_error_def upstream_error_send_class_def upstream_error_code_def Let_def
      split: option.splits if_splits dest!: find_Some_in)

section \<open>The scan finds the last class token\<close>

definition token_at :: "string \<Rightarrow> string \<Rightarrow> string \<Rightarrow> string \<Rightarrow> bool" where
  "token_at s pre t post \<longleftrightarrow> s = pre @ ''('' @ t @ '')'' @ post \<and> class_token t"

definition token_free :: "string \<Rightarrow> bool" where
  "token_free s \<longleftrightarrow> (\<forall>pre t post. \<not> token_at s pre t post)"

lemma class_token_plain: "class_token t \<Longrightarrow> CHR ''('' \<notin> set t \<and> CHR '')'' \<notin> set t"
  by (auto simp: class_token_def list_all_iff ascii_defs byte_def)

lemma unique_split:
  assumes "a @ x # b = a' @ x # b'" "x \<notin> set a" "x \<notin> set a'"
  shows "a = a' \<and> b = b'"
  using assms
proof (induction a arbitrary: a')
  case Nil
  then show ?case by (cases a') auto
next
  case (Cons c a)
  then show ?case by (cases a') auto
qed

lemma skip_prefix:
  assumes "a @ x # b = pre @ y # rest" "y \<notin> set a" "x \<noteq> y"
  shows "\<exists>pre'. pre = a @ x # pre' \<and> b = pre' @ y # rest"
  using assms
proof (induction a arbitrary: pre)
  case Nil
  then show ?case by (cases pre) auto
next
  case (Cons c a)
  then show ?case by (cases pre) auto
qed

lemma token_at_tail:
  assumes "CHR ''('' \<notin> set a"
  shows "token_at (a @ CHR ''('' # b) pre t post \<longleftrightarrow>
    (pre = a \<and> b = t @ '')'' @ post \<and> class_token t) \<or> (\<exists>pre'. pre = a @ CHR ''('' # pre' \<and> token_at b pre' t post)"
proof -
  have "pre = a \<and> b = rest \<or> (\<exists>pre'. pre = a @ CHR ''('' # pre' \<and> b = pre' @ ''('' @ rest)"
    if eq: "a @ CHR ''('' # b = pre @ ''('' @ rest" for rest
  proof -
    from eq obtain us where "a = pre @ us \<and> us @ CHR ''('' # b = ''('' @ rest \<or>
        a @ us = pre \<and> CHR ''('' # b = us @ ''('' @ rest"
      by (auto simp: append_eq_append_conv2)
    then show ?thesis
    proof
      assume "a = pre @ us \<and> us @ CHR ''('' # b = ''('' @ rest"
      then show ?thesis using assms by (cases us) auto
    next
      assume "a @ us = pre \<and> CHR ''('' # b = us @ ''('' @ rest"
      then show ?thesis by (cases us) auto
    qed
  qed
  then show ?thesis unfolding token_at_def by fastforce
qed

lemma cause_scan_spec:
  "(case cause_scan s c of
      None \<Rightarrow> c = None \<and> token_free s
    | Some t \<Rightarrow> token_free s \<and> c = Some t \<or> (\<exists>pre post. token_at s pre t post \<and> token_free post))"
proof (induction s c rule: cause_scan.induct)
  case (1 rest cause)
  show ?case
  proof (cases "split_once CHR ''('' rest")
    case None
    then have "CHR ''('' \<notin> set rest" by (auto simp: split_once_def split: if_splits)
    then have "token_free rest" by (auto simp: token_free_def token_at_def)
    then show ?thesis using None by (subst cause_scan.simps) (simp split: option.split)
  next
    case (Some ab)
    obtain a tail where ab: "ab = (a, tail)" by (cases ab)
    have rest: "rest = a @ CHR ''('' # tail" "CHR ''('' \<notin> set a"
      using Some split_once_SomeD [of "CHR ''(''" rest a tail] by (auto simp: ab)
    show ?thesis
    proof (cases "split_once CHR '')'' tail")
      case None
      then have "CHR '')'' \<notin> set tail" by (auto simp: split_once_def split: if_splits)
      then have "token_free rest" using rest by (auto simp: token_free_def token_at_tail) (auto simp: token_at_def)
      then show ?thesis using Some None ab by (subst cause_scan.simps) (simp split: option.split)
    next
      case close: (Some ib)
      obtain inner b where ib: "ib = (inner, b)" by (cases ib)
      have tail: "tail = inner @ CHR '')'' # b" "CHR '')'' \<notin> set inner"
        using close split_once_SomeD [of "CHR '')''" tail inner b] by (auto simp: ib)
      have first: "tail = t @ '')'' @ post \<and> class_token t \<longleftrightarrow> t = inner \<and> post = b \<and> class_token inner" for t post
      proof -
        have "inner = t \<and> b = post" if "inner @ CHR '')'' # b = t @ CHR '')'' # post" "CHR '')'' \<notin> set t"
          by (rule unique_split [OF that(1) tail(2) that(2)])
        then show ?thesis using tail(1) class_token_plain [of t] class_token_plain [of inner] by auto
      qed
      have at: "token_at rest pre t post \<longleftrightarrow> pre = a \<and> t = inner \<and> post = b \<and> class_token inner \<or>
          (\<exists>pre'. pre = a @ CHR ''('' # pre' \<and> token_at tail pre' t post)" for pre t post
        unfolding rest(1) token_at_tail [OF rest(2)] using first by blast
      have tfree: "class_token inner \<Longrightarrow> token_free tail \<longleftrightarrow> token_free b"
      proof -
        assume ct: "class_token inner"
        have "token_at tail pre t post \<longleftrightarrow> (\<exists>pre'. pre = inner @ CHR '')'' # pre' \<and> token_at b pre' t post)" for pre t post
        proof
          assume "token_at tail pre t post"
          then have e: "inner @ CHR '')'' # b = pre @ CHR ''('' # t @ '')'' @ post" "class_token t"
            by (simp_all add: token_at_def tail(1))
          from skip_prefix [OF e(1)] class_token_plain [OF ct] obtain pre'
            where "pre = inner @ CHR '')'' # pre'" "b = pre' @ CHR ''('' # t @ '')'' @ post" by auto
          then show "\<exists>pre'. pre = inner @ CHR '')'' # pre' \<and> token_at b pre' t post"
            using e(2) by (auto simp: token_at_def)
        qed (auto simp: token_at_def tail(1))
        then show ?thesis unfolding token_free_def by blast
      qed
      have step: "cause_scan rest cause = cause_scan tail (if class_token inner then Some inner else cause)"
        using Some ab close ib by (subst cause_scan.simps) simp
      have IH: "case cause_scan tail (if class_token inner then Some inner else cause) of
          None \<Rightarrow> (if class_token inner then Some inner else cause) = None \<and> token_free tail
        | Some t \<Rightarrow> token_free tail \<and> (if class_token inner then Some inner else cause) = Some t \<or>
            (\<exists>pre post. token_at tail pre t post \<and> token_free post)"
        using "1.IH" Some ab close ib by blast
      show ?thesis
      proof (cases "cause_scan tail (if class_token inner then Some inner else cause)")
        case None
        then show ?thesis using IH by (auto simp: step token_free_def at split: if_splits)
      next
        case (Some t)
        then consider "token_free tail" "(if class_token inner then Some inner else cause) = Some t" |
          pre post where "token_at tail pre t post" "token_free post" using IH by auto
        then show ?thesis
        proof cases
          case 1
          show ?thesis
          proof (cases "class_token inner")
            case True
            then have "token_at rest a t b" "token_free b" using 1 at tfree by auto
            then show ?thesis using Some step by auto
          next
            case False
            then have "token_free rest" using 1(1) by (simp add: token_free_def at)
            then show ?thesis using Some step 1(2) False by simp
          qed
        next
          case 2
          then have "token_at rest (a @ CHR ''('' # pre) t post" by (simp add: at)
          then show ?thesis using Some step 2(2) by auto
        qed
      qed
    qed
  qed
qed

section \<open>Properties\<close>


end
