(* ===== verification/Engine_Calls.thy ===== *)
theory Engine_Calls
  imports Engine_Errors
begin

text \<open>
  The engine actor of \<open>src/engine.rs\<close>: the calls of \<open>EngineHandle\<close>, the command queue, the writer's frame
  queue, the pending map, and \<open>run_actor\<close> with \<open>handle_upstream_line\<close>. Every task is a component of one
  state, and every point where a task can be preempted is a step, so any interleaving of callers, timeouts,
  cancels, the writer and the actor is a sequence of steps. The child process answers whatever lines it
  likes; what the receive ladder makes of a message (\<open>normalize_receive\<close> and \<open>ReceiveIngress::enqueue\<close>) is an
  argument of the line step. Three history fields record what was handed to the writer, what was written
  and what was read.
\<close>

definition COMMAND_QUEUE_CAPACITY :: nat where "COMMAND_QUEUE_CAPACITY = 128"
definition STDIN_WRITE_QUEUE_CAPACITY :: nat where "STDIN_WRITE_QUEUE_CAPACITY = 16"
definition MAX_PENDING_UPSTREAM_REQUESTS :: nat where "MAX_PENDING_UPSTREAM_REQUESTS = 128"

datatype engine_state = StateRunning | StateStopped | StateExited | StateFaulted

datatype engine_event =
    StateChanged engine_state
  | ProtocolWarning string
  | StorageChanged string
  | AccountUnauthorized string
  | ReceiveEmptied string
  | ReceiveClockSkew string int "nat option"
  | ConversationState string json bool
  | StoragePull string string bool bool
  | InitialSyncComplete string bool bool
  | ReceiveDecryptionError string
  | ReceiveIdentityChanged string string "nat option"
  | SessionReset string string string "nat option"

datatype engine_command =
    CmdRequest string string json call_class
  | CmdCancel string
  | CmdShutdown

record pending_request =
  pr_id :: string
  pr_class :: call_class
  pr_account :: "string option"

definition pending_insert :: "pending_request \<Rightarrow> pending_request list \<Rightarrow> pending_request list" where
  "pending_insert r ps = filter (\<lambda>p. pr_id p \<noteq> pr_id r) ps @ [r]"

definition pending_remove :: "string \<Rightarrow> pending_request list \<Rightarrow> pending_request list" where
  "pending_remove i ps = filter (\<lambda>p. pr_id p \<noteq> i) ps"

section \<open>One line of engine output\<close>

datatype enqueue_outcome = Enqueued | Dropped

definition attributed :: "json option \<Rightarrow> string \<Rightarrow> string option" where
  "attributed params k = (case get_str params k of Some a \<Rightarrow> if a \<noteq> [] then Some a else None | None \<Rightarrow> None)"

definition get_field :: "json option \<Rightarrow> string \<Rightarrow> json option" where
  "get_field v k = Option.bind v (\<lambda>v. json_get v k)"

definition get_bool :: "json option \<Rightarrow> string \<Rightarrow> bool option" where
  "get_bool v k = Option.bind (get_field v k) as_bool"

definition get_u64 :: "json option \<Rightarrow> string \<Rightarrow> nat option" where
  "get_u64 v k = Option.bind (get_field v k) json_as_u64"

abbreviation unknown_notification :: "engine_event list" where
  "unknown_notification \<equiv> [ProtocolWarning ''unknownNotification'']"

text \<open>
  The \<open>receive\<close> notification. \<open>adm\<close> is the answer of the receive ladder: an error, nothing to enqueue, or the
  admission outcome.
\<close>

definition handle_receive ::
    "json \<Rightarrow> engine_error + enqueue_outcome option \<Rightarrow> bool \<Rightarrow> engine_error + engine_event list \<times> bool" where
  "handle_receive params adm degraded =
     (let envelope = get_field (Some params) ''envelope''
      in if get_field envelope ''identityChanged'' \<noteq> None then
           Inr (case attributed (Some params) ''account'' of
                  Some account \<Rightarrow>
                    [ReceiveIdentityChanged account
                       (case get_str envelope ''sourceUuid'' of Some u \<Rightarrow> u | None \<Rightarrow> [])
                       (get_u64 envelope ''timestamp'')]
                | None \<Rightarrow> unknown_notification, degraded)
         else if get_field envelope ''decryptionError'' \<noteq> None then
           Inr (case attributed (Some params) ''account'' of
                  Some account \<Rightarrow> [ReceiveDecryptionError account]
                | None \<Rightarrow> unknown_notification, degraded)
         else
           (case adm of
              Inl e \<Rightarrow> Inl e
            | Inr None \<Rightarrow> Inr ([], degraded)
            | Inr (Some Enqueued) \<Rightarrow>
                if degraded then Inr ([StorageChanged ''recovered''], False) else Inr ([], degraded)
            | Inr (Some Dropped) \<Rightarrow>
                if \<not> degraded then Inr ([StorageChanged ''unavailable''], True) else Inr ([], degraded)))"

definition notification_event :: "string \<Rightarrow> json option \<Rightarrow> engine_event option" where
  "notification_event meth params =
     (if meth = ''accountUnbound'' then map_option AccountUnauthorized (attributed params ''account'')
      else if meth = ''receive.emptied'' then map_option ReceiveEmptied (attributed params ''account'')
      else if meth = ''receive.clockskew'' then
        (case (attributed params ''account'', Option.bind (get_field params ''skewMs'') json_as_i64) of
           (Some a, Some skew) \<Rightarrow> Some (ReceiveClockSkew a skew (get_u64 params ''serverTimestamp''))
         | _ \<Rightarrow> None)
      else if meth = ''receive.conversationState'' then
        (case (attributed params ''account'',
               (case get_field params ''conversations'' of
                  Some (JArr (x # xs)) \<Rightarrow> Some (JArr (x # xs)) | _ \<Rightarrow> None),
               get_bool params ''overflow'') of
           (Some a, Some cs, Some overflow) \<Rightarrow> Some (ConversationState a cs overflow)
         | _ \<Rightarrow> None)
      else if meth = ''engine.initialSyncComplete'' then
        (case (attributed params ''account'', get_bool params ''manifestOk'', get_bool params ''profilesOk'') of
           (Some a, Some m, Some p) \<Rightarrow> Some (InitialSyncComplete a m p)
         | _ \<Rightarrow> None)
      else if meth = ''engine.sessionReset'' then
        (case (attributed params ''account'', attributed params ''peerAci'',
               (case get_str params ''word'' of
                  Some w \<Rightarrow> if w = ''endSession'' \<or> w = ''chatSessionRefresh'' then Some w else None
                | None \<Rightarrow> None)) of
           (Some a, Some peer, Some w) \<Rightarrow> Some (SessionReset a peer w (get_u64 params ''sentAt''))
         | _ \<Rightarrow> None)
      else if meth = ''engine.storagePull'' then
        (case (attributed params ''account'', attributed params ''trigger'',
               get_bool params ''contactsOk'', get_bool params ''groupsOk'') of
           (Some a, Some t, Some c, Some g) \<Rightarrow> Some (StoragePull a t c g)
         | _ \<Rightarrow> None)
      else None)"

record line_effect =
  le_ok :: bool
  le_pending :: "pending_request list"
  le_degraded :: bool
  le_events :: "engine_event list"
  le_answers :: "(string \<times> (engine_error + json)) list"

definition handle_response :: "json \<Rightarrow> pending_request list \<Rightarrow> bool \<Rightarrow> line_effect" where
  "handle_response message pending degraded =
     (case get_str (Some message) ''id'' of
        None \<Rightarrow>
          \<lparr>le_ok = True, le_pending = pending, le_degraded = degraded,
           le_events = [ProtocolWarning ''responseWithoutId''], le_answers = []\<rparr>
      | Some i \<Rightarrow>
          (case find (\<lambda>p. pr_id p = i) pending of
             None \<Rightarrow>
               \<lparr>le_ok = True, le_pending = pending, le_degraded = degraded,
                le_events = [ProtocolWarning ''unknownOrDuplicateResponseId''], le_answers = []\<rparr>
           | Some request \<Rightarrow>
               let rest = pending_remove i pending;
                   has_result = (json_get message ''result'' \<noteq> None);
                   has_error = (json_get message ''error'' \<noteq> None)
               in if has_result = has_error then
                    \<lparr>le_ok = False, le_pending = rest, le_degraded = degraded, le_events = [],
                     le_answers = [(i, Inl (case pr_class request of ReadOnly \<Rightarrow> Protocol | Mutating \<Rightarrow> UnknownOutcome))]\<rparr>
                  else if has_error then
                    (case classify_upstream_error (json_get message ''error'') of
                       (unauthorized, e) \<Rightarrow>
                         \<lparr>le_ok = True, le_pending = rest, le_degraded = degraded,
                          le_events = (if unauthorized
                                       then (case pr_account request of Some a \<Rightarrow> [AccountUnauthorized a] | None \<Rightarrow> [])
                                       else []),
                          le_answers = [(i, Inl e)]\<rparr>)
                  else
                    \<lparr>le_ok = True, le_pending = rest, le_degraded = degraded, le_events = [],
                     le_answers = [(i, Inr (case json_get message ''result'' of Some v \<Rightarrow> v | None \<Rightarrow> JNull))]\<rparr>))"

text \<open>\<open>handle_upstream_line\<close>; \<open>message\<close> is what \<open>serde_json::from_str\<close> makes of the line.\<close>

definition handle_upstream_line ::
    "json option \<Rightarrow> engine_error + enqueue_outcome option \<Rightarrow> pending_request list \<Rightarrow> bool \<Rightarrow> line_effect" where
  "handle_upstream_line message adm pending degraded =
     (let fault = \<lparr>le_ok = False, le_pending = pending, le_degraded = degraded, le_events = [], le_answers = []\<rparr>;
          quiet = (\<lambda>events degraded'.
            \<lparr>le_ok = True, le_pending = pending, le_degraded = degraded', le_events = events, le_answers = []\<rparr>)
      in case message of
           None \<Rightarrow> fault
         | Some m \<Rightarrow>
             if \<not> is_object m \<or> get_str (Some m) ''jsonrpc'' \<noteq> Some ''2.0'' then fault
             else
               (case get_str (Some m) ''method'' of
                  Some meth \<Rightarrow>
                    if json_get m ''id'' \<noteq> None then fault
                    else if meth = ''receive'' then
                      (case json_get m ''params'' of
                         None \<Rightarrow> fault
                       | Some params \<Rightarrow>
                           (case handle_receive params adm degraded of
                              Inl _ \<Rightarrow> fault
                            | Inr (events, degraded') \<Rightarrow> quiet events degraded'))
                    else
                      (case notification_event meth (json_get m ''params'') of
                         Some ev \<Rightarrow> quiet [ev] degraded
                       | None \<Rightarrow> quiet unknown_notification degraded)
                | None \<Rightarrow> handle_response m pending degraded))"

section \<open>The system\<close>

datatype call_outcome = Answered "engine_error + json" | Abandoned

text \<open>A call: the content of its oneshot channel, whether its sender still exists, what the caller saw.\<close>

record engine_call =
  ca_id :: string
  ca_class :: call_class
  ca_slot :: "(engine_error + json) option"
  ca_tx :: bool
  ca_outcome :: "call_outcome option"

datatype actor_phase = Looping | Broken engine_state | Gone

record engine_sys =
  es_status :: engine_state
  es_actor :: actor_phase
  es_next :: nat
  es_commands :: "engine_command list"
  es_cancels :: "string list"
  es_pending :: "pending_request list"
  es_frames :: "string list"
  es_writer :: bool
  es_writer_failed :: bool
  es_degraded :: bool
  es_events :: "engine_event list"
  es_calls :: "engine_call list"
  es_handed :: "string list"
  es_written :: "string list"
  es_lines :: "json list"

definition engine_started :: engine_sys where
  "engine_started =
     \<lparr>es_status = StateRunning, es_actor = Looping, es_next = 1, es_commands = [], es_cancels = [],
      es_pending = [], es_frames = [], es_writer = True, es_writer_failed = False, es_degraded = False,
      es_events = [], es_calls = [], es_handed = [], es_written = [], es_lines = []\<rparr>"

definition is_terminal :: "engine_sys \<Rightarrow> bool" where
  "is_terminal s \<longleftrightarrow> es_status s \<in> {StateStopped, StateExited, StateFaulted}"

subsection \<open>Callers\<close>

definition upd_call :: "string \<Rightarrow> (engine_call \<Rightarrow> engine_call) \<Rightarrow> engine_call list \<Rightarrow> engine_call list" where
  "upd_call i f cs = sql_update (\<lambda>c. ca_id c = i) f cs"

text \<open>\<open>oneshot::Sender::send\<close>: the value arrives unless the caller has gone.\<close>

definition oneshot_send :: "engine_error + json \<Rightarrow> engine_call \<Rightarrow> engine_call" where
  "oneshot_send r c = c\<lparr>ca_tx := False, ca_slot := (if ca_outcome c = None then Some r else ca_slot c)\<rparr>"

definition oneshot_drop :: "engine_call \<Rightarrow> engine_call" where
  "oneshot_drop c = c\<lparr>ca_tx := False\<rparr>"

definition call_id :: "nat \<Rightarrow> string" where
  "call_id n = ''kt-'' @ show_nat n"

definition dispatch_call :: "string \<Rightarrow> json \<Rightarrow> call_class \<Rightarrow> engine_sys \<Rightarrow> (engine_error + string) \<times> engine_sys" where
  "dispatch_call meth params class s =
     (if is_terminal s then (Inl NotRunning, s)
      else
        let i = call_id (es_next s);
            s = s\<lparr>es_next := wrap_add64 (es_next s) 1\<rparr>
        in if es_actor s = Gone then (Inl NotRunning, s)
           else if length (es_commands s) \<ge> COMMAND_QUEUE_CAPACITY then (Inl Backpressure, s)
           else
             (Inr i,
              s\<lparr>es_commands := es_commands s @ [CmdRequest i meth params class],
                es_calls := es_calls s @
                  [\<lparr>ca_id = i, ca_class = class, ca_slot = None, ca_tx = True, ca_outcome = None\<rparr>]\<rparr>))"

text \<open>What the caller sees of its channel: the value, or that the sender was dropped.\<close>

definition caller_recv :: "engine_call \<Rightarrow> engine_call" where
  "caller_recv c =
     (if ca_outcome c \<noteq> None then c
      else case ca_slot c of
             Some r \<Rightarrow> c\<lparr>ca_outcome := Some (Answered r)\<rparr>
           | None \<Rightarrow> if ca_tx c then c else c\<lparr>ca_outcome := Some (Answered (Inl Exited))\<rparr>)"

text \<open>The timeout arm: only when the channel is not ready. The cancel command is sent by a spawned task.\<close>

definition times_out :: "engine_call \<Rightarrow> bool" where
  "times_out c \<longleftrightarrow> ca_outcome c = None \<and> ca_slot c = None \<and> ca_tx c"

definition caller_timeout :: "string \<Rightarrow> engine_sys \<Rightarrow> engine_sys" where
  "caller_timeout i s =
     (case find (\<lambda>c. ca_id c = i) (es_calls s) of
        None \<Rightarrow> s
      | Some c \<Rightarrow>
          if \<not> times_out c then s
          else
            s\<lparr>es_calls := upd_call i (\<lambda>c. c\<lparr>ca_outcome := Some (Answered (Inl
                  (case ca_class c of ReadOnly \<Rightarrow> Timeout | Mutating \<Rightarrow> UnknownOutcome)))\<rparr>) (es_calls s),
              es_cancels := es_cancels s @ [i]\<rparr>)"

definition caller_abandon :: "string \<Rightarrow> engine_sys \<Rightarrow> engine_sys" where
  "caller_abandon i s =
     (case find (\<lambda>c. ca_id c = i) (es_calls s) of
        None \<Rightarrow> s
      | Some c \<Rightarrow>
          if ca_outcome c \<noteq> None then s
          else
            s\<lparr>es_calls := upd_call i (\<lambda>c. c\<lparr>ca_outcome := Some Abandoned\<rparr>) (es_calls s),
              es_cancels := es_cancels s @ [i]\<rparr>)"

definition cancel_send :: "string \<Rightarrow> engine_sys \<Rightarrow> engine_sys" where
  "cancel_send i s =
     (if i \<notin> set (es_cancels s) then s
      else if es_actor s = Gone then s\<lparr>es_cancels := remove1 i (es_cancels s)\<rparr>
      else if length (es_commands s) \<ge> COMMAND_QUEUE_CAPACITY then s
      else s\<lparr>es_cancels := remove1 i (es_cancels s), es_commands := es_commands s @ [CmdCancel i]\<rparr>)"

definition shutdown_send :: "engine_sys \<Rightarrow> engine_sys" where
  "shutdown_send s =
     (if is_terminal s \<or> es_actor s = Gone \<or> length (es_commands s) \<ge> COMMAND_QUEUE_CAPACITY then s
      else s\<lparr>es_commands := es_commands s @ [CmdShutdown]\<rparr>)"

subsection \<open>The writer\<close>

definition writer_write :: "bool \<Rightarrow> engine_sys \<Rightarrow> engine_sys" where
  "writer_write ok s =
     (case es_frames s of
        [] \<Rightarrow> s
      | f # fs \<Rightarrow>
          if \<not> es_writer s then s
          else if ok then s\<lparr>es_frames := fs, es_written := es_written s @ [f]\<rparr>
          else s\<lparr>es_frames := [], es_writer := False, es_writer_failed := True\<rparr>)"

subsection \<open>The actor\<close>

definition class_failure :: "engine_error \<Rightarrow> call_class \<Rightarrow> engine_error" where
  "class_failure readonly cl = (case cl of ReadOnly \<Rightarrow> readonly | Mutating \<Rightarrow> UnknownOutcome)"

definition actor_request :: "bool \<Rightarrow> string \<Rightarrow> json \<Rightarrow> call_class \<Rightarrow> engine_sys \<Rightarrow> engine_sys" where
  "actor_request enc_ok i params class s =
     (let reply = (\<lambda>e. upd_call i (oneshot_send (Inl e)) (es_calls s))
      in if length (es_pending s) \<ge> MAX_PENDING_UPSTREAM_REQUESTS then s\<lparr>es_calls := reply Backpressure\<rparr>
         else if \<not> enc_ok then s\<lparr>es_calls := reply Protocol\<rparr>
         else if \<not> es_writer s then
           s\<lparr>es_calls := reply (class_failure Exited class), es_actor := Broken StateExited\<rparr>
         else if length (es_frames s) \<ge> STDIN_WRITE_QUEUE_CAPACITY then s\<lparr>es_calls := reply Backpressure\<rparr>
         else
           s\<lparr>es_frames := es_frames s @ [i], es_handed := es_handed s @ [i],
             es_pending := pending_insert \<lparr>pr_id = i, pr_class = class, pr_account = get_str (Some params) ''account''\<rparr>
                             (es_pending s)\<rparr>)"

definition actor_command :: "bool \<Rightarrow> engine_sys \<Rightarrow> engine_sys" where
  "actor_command enc_ok s =
     (if es_actor s \<noteq> Looping then s
      else case es_commands s of
             [] \<Rightarrow> s
           | CmdRequest i meth params class # cmds \<Rightarrow>
               actor_request enc_ok i params class (s\<lparr>es_commands := cmds\<rparr>)
           | CmdCancel i # cmds \<Rightarrow>
               s\<lparr>es_commands := cmds, es_pending := pending_remove i (es_pending s),
                 es_calls := (if i \<in> pr_id ` set (es_pending s)
                              then upd_call i oneshot_drop (es_calls s) else es_calls s)\<rparr>
           | CmdShutdown # cmds \<Rightarrow>
               s\<lparr>es_commands := cmds, es_writer := False, es_actor := Broken StateStopped\<rparr>)"

definition actor_break :: "engine_state \<Rightarrow> engine_sys \<Rightarrow> engine_sys" where
  "actor_break st s = (if es_actor s = Looping then s\<lparr>es_actor := Broken st\<rparr> else s)"

definition apply_answers :: "(string \<times> (engine_error + json)) list \<Rightarrow> engine_call list \<Rightarrow> engine_call list" where
  "apply_answers as cs = fold (\<lambda>(i, r). upd_call i (oneshot_send r)) as cs"

definition actor_line :: "json option \<Rightarrow> engine_error + enqueue_outcome option \<Rightarrow> engine_sys \<Rightarrow> engine_sys" where
  "actor_line message adm s =
     (if es_actor s \<noteq> Looping then s
      else
        let e = handle_upstream_line message adm (es_pending s) (es_degraded s)
        in s\<lparr>es_pending := le_pending e, es_degraded := le_degraded e, es_events := es_events s @ le_events e,
             es_calls := apply_answers (le_answers e) (es_calls s),
             es_lines := es_lines s @ (case message of None \<Rightarrow> [] | Some m \<Rightarrow> [m]),
             es_actor := (if le_ok e then Looping else Broken StateFaulted)\<rparr>)"

fun request_ids :: "engine_command list \<Rightarrow> string list" where
  "request_ids [] = []"
| "request_ids (CmdRequest i _ _ _ # cs) = i # request_ids cs"
| "request_ids (_ # cs) = request_ids cs"

text \<open>
  After the loop: the status, the event, the class-correct failures for the pending map; then the command
  receiver and the requests still in its queue are dropped.
\<close>

definition actor_finish :: "engine_sys \<Rightarrow> engine_sys" where
  "actor_finish s =
     (case es_actor s of
        Broken st \<Rightarrow>
          let readonly = (if st = StateFaulted then Protocol else Exited);
              answers = map (\<lambda>p. (pr_id p, Inl (class_failure readonly (pr_class p)))) (es_pending s)
          in s\<lparr>es_status := st, es_actor := Gone, es_writer := False, es_frames := [],
               es_events := es_events s @ [StateChanged st],
               es_calls := fold (\<lambda>i. upd_call i oneshot_drop) (request_ids (es_commands s))
                             (apply_answers answers (es_calls s)),
               es_pending := [], es_commands := []\<rparr>
      | _ \<Rightarrow> s)"

inductive engine_step :: "engine_sys \<Rightarrow> engine_sys \<Rightarrow> bool" where
  ek_dispatch: "es_next s < u64_max \<Longrightarrow> engine_step s (snd (dispatch_call meth params class s))"
| ek_recv: "engine_step s (s\<lparr>es_calls := upd_call i caller_recv (es_calls s)\<rparr>)"
| ek_timeout: "engine_step s (caller_timeout i s)"
| ek_abandon: "engine_step s (caller_abandon i s)"
| ek_cancel: "engine_step s (cancel_send i s)"
| ek_shutdown: "engine_step s (shutdown_send s)"
| ek_write: "engine_step s (writer_write ok s)"
| ek_command: "engine_step s (actor_command enc_ok s)"
| ek_handles_dropped: "es_commands s = [] \<Longrightarrow> engine_step s (actor_break StateStopped s)"
| ek_writer_failed: "es_writer_failed s \<Longrightarrow> engine_step s (actor_break StateExited s)"
| ek_line: "engine_step s (actor_line message adm s)"
| ek_framing: "engine_step s (actor_break StateFaulted s)"
| ek_eof: "engine_step s (actor_break StateExited s)"
| ek_finish: "engine_step s (actor_finish s)"

inductive engine_reach :: "engine_sys \<Rightarrow> bool" where
  er_start: "engine_reach engine_started"
| er_step: "engine_reach s \<Longrightarrow> engine_step s t \<Longrightarrow> engine_reach t"

section \<open>The invariant\<close>

definition response_of :: "json \<Rightarrow> string \<Rightarrow> bool" where
  "response_of l i \<longleftrightarrow> get_str (Some l) ''id'' = Some i"

text \<open>
  What a result may be for a call, given the handed ids and the lines read: a value only from a response line
  with the call's id; for a mutating call whose frame was handed over, an error only if it says that the
  outcome is unknown or comes from a response line with the call's id.
\<close>

definition result_ok :: "string set \<Rightarrow> json set \<Rightarrow> engine_call \<Rightarrow> engine_error + json \<Rightarrow> bool" where
  "result_ok H L c r \<longleftrightarrow>
     (case r of
        Inr v \<Rightarrow> ca_id c \<in> H \<and> (\<exists>l \<in> L. response_of l (ca_id c) \<and> json_get l ''result'' = Some v)
      | Inl e \<Rightarrow>
          ca_id c \<in> H \<and> ca_class c = Mutating \<longrightarrow>
            e = UnknownOutcome \<or>
            engine_answer_error e \<and> (\<exists>l \<in> L. response_of l (ca_id c) \<and> json_get l ''error'' \<noteq> None))"

definition early_ok :: "engine_call \<Rightarrow> bool" where
  "early_ok c \<longleftrightarrow>
     (case ca_outcome c of
        Some (Answered (Inr _)) \<Rightarrow> False
      | Some (Answered (Inl e)) \<Rightarrow> ca_class c = Mutating \<longrightarrow> e = UnknownOutcome
      | _ \<Rightarrow> True)"

definition call_ok :: "string set \<Rightarrow> json set \<Rightarrow> engine_call \<Rightarrow> bool" where
  "call_ok H L c \<longleftrightarrow>
     (ca_tx c \<longrightarrow> ca_slot c = None \<and> early_ok c) \<and>
     (\<forall>r. ca_slot c = Some r \<or> ca_outcome c = Some (Answered r) \<longrightarrow> result_ok H L c r) \<and>
     (\<not> ca_tx c \<and> ca_slot c = None \<and> ca_outcome c = None \<longrightarrow> ca_id c \<notin> H)"

fun cancel_ids :: "engine_command list \<Rightarrow> string list" where
  "cancel_ids [] = []"
| "cancel_ids (CmdCancel i # cs) = i # cancel_ids cs"
| "cancel_ids (_ # cs) = cancel_ids cs"

text \<open>Where a call is: its sender lives exactly while it is queued or pending; nothing is in two places.\<close>

definition place_ok :: "engine_sys \<Rightarrow> bool" where
  "place_ok s \<longleftrightarrow>
     distinct (map ca_id (es_calls s)) \<and>
     (\<forall>c \<in> set (es_calls s). \<exists>n < es_next s. ca_id c = call_id n) \<and>
     (\<forall>c \<in> set (es_calls s). ca_tx c \<longleftrightarrow>
        ca_id c \<in> set (request_ids (es_commands s)) \<or> ca_id c \<in> pr_id ` set (es_pending s)) \<and>
     set (request_ids (es_commands s)) \<subseteq> ca_id ` set (es_calls s) \<and>
     set (es_handed s) \<subseteq> ca_id ` set (es_calls s) \<and>
     set (request_ids (es_commands s)) \<inter> set (es_handed s) = {} \<and>
     pr_id ` set (es_pending s) \<subseteq> set (es_handed s) \<and>
     distinct (request_ids (es_commands s)) \<and> distinct (map pr_id (es_pending s))"

definition class_ok :: "engine_sys \<Rightarrow> bool" where
  "class_ok s \<longleftrightarrow>
     (\<forall>i m p cl. CmdRequest i m p cl \<in> set (es_commands s) \<longrightarrow>
        (\<forall>c \<in> set (es_calls s). ca_id c = i \<longrightarrow> ca_class c = cl)) \<and>
     (\<forall>p \<in> set (es_pending s). \<forall>c \<in> set (es_calls s). ca_id c = pr_id p \<longrightarrow> ca_class c = pr_class p)"

definition cancel_ok :: "engine_sys \<Rightarrow> bool" where
  "cancel_ok s \<longleftrightarrow>
     set (es_cancels s) \<union> set (cancel_ids (es_commands s)) \<subseteq> ca_id ` set (es_calls s) \<and>
     (\<forall>i \<in> set (es_cancels s) \<union> set (cancel_ids (es_commands s)).
        \<forall>c \<in> set (es_calls s). ca_id c = i \<longrightarrow> ca_outcome c \<noteq> None)"

definition calls_ok :: "engine_sys \<Rightarrow> bool" where
  "calls_ok s \<longleftrightarrow> (\<forall>c \<in> set (es_calls s). call_ok (set (es_handed s)) (set (es_lines s)) c)"

definition queue_ok :: "engine_sys \<Rightarrow> bool" where
  "queue_ok s \<longleftrightarrow>
     length (es_commands s) \<le> COMMAND_QUEUE_CAPACITY \<and>
     length (es_frames s) \<le> STDIN_WRITE_QUEUE_CAPACITY \<and>
     length (es_pending s) \<le> MAX_PENDING_UPSTREAM_REQUESTS \<and>
     (es_actor s = Gone \<longrightarrow> es_commands s = [] \<and> es_pending s = []) \<and>
     (es_status s = StateRunning \<longleftrightarrow> es_actor s \<noteq> Gone) \<and> es_actor s \<noteq> Broken StateRunning"

definition engine_inv :: "engine_sys \<Rightarrow> bool" where
  "engine_inv s \<longleftrightarrow> place_ok s \<and> class_ok s \<and> cancel_ok s \<and> calls_ok s \<and> queue_ok s"

subsection \<open>Helpers\<close>

lemma call_id_inj [simp]: "call_id m = call_id n \<longleftrightarrow> m = n"
  by (metis call_id_def append_eq_append_conv option.inject parse_digits_show_nat)

lemma request_ids_append [simp]: "request_ids (xs @ ys) = request_ids xs @ request_ids ys"
  by (induction xs rule: request_ids.induct) auto

lemma cancel_ids_append [simp]: "cancel_ids (xs @ ys) = cancel_ids xs @ cancel_ids ys"
  by (induction xs rule: cancel_ids.induct) auto

lemma request_ids_mem: "i \<in> set (request_ids cs) \<longleftrightarrow> (\<exists>m p cl. CmdRequest i m p cl \<in> set cs)"
  by (induction cs rule: request_ids.induct) auto

lemma upd_call_mem:
  "c' \<in> set (upd_call i f cs) \<longleftrightarrow> (\<exists>c \<in> set cs. c' = (if ca_id c = i then f c else c))"
  unfolding upd_call_def set_sql_update by blast

lemma upd_call_ids:
  "(\<And>c. ca_id (f c) = ca_id c) \<Longrightarrow> map ca_id (upd_call i f cs) = map ca_id cs"
  by (simp add: upd_call_def sql_update_keys)

lemma oneshot_simps [simp]:
  "ca_id (oneshot_send r c) = ca_id c" "ca_class (oneshot_send r c) = ca_class c"
  "ca_outcome (oneshot_send r c) = ca_outcome c" "\<not> ca_tx (oneshot_send r c)"
  "ca_id (oneshot_drop c) = ca_id c" "ca_class (oneshot_drop c) = ca_class c"
  "ca_outcome (oneshot_drop c) = ca_outcome c" "\<not> ca_tx (oneshot_drop c)" "ca_slot (oneshot_drop c) = ca_slot c"
  by (simp_all add: oneshot_send_def oneshot_drop_def)

lemma caller_recv_simps [simp]:
  "ca_id (caller_recv c) = ca_id c" "ca_class (caller_recv c) = ca_class c" "ca_tx (caller_recv c) = ca_tx c"
  "ca_slot (caller_recv c) = ca_slot c"
  by (auto simp: caller_recv_def split: option.split)

lemma caller_recv_keeps: "ca_outcome c = Some r \<Longrightarrow> ca_outcome (caller_recv c) = Some r"
  by (simp add: caller_recv_def)

text \<open>A family of updates, each of one call, is one map over the calls.\<close>

lemma fold_upd_call:
  assumes "\<And>a c. ca_id (g a c) = ca_id c" "distinct (map fst as)"
  shows "fold (\<lambda>(i, a). upd_call i (g a)) as cs =
    map (\<lambda>c. case map_of as (ca_id c) of None \<Rightarrow> c | Some a \<Rightarrow> g a c) cs"
  using assms(2)
proof (induction as arbitrary: cs)
  case (Cons x as)
  obtain i a where x: "x = (i, a)" by (cases x)
  have "map_of as i = None" using Cons.prems by (simp add: x map_of_eq_None_iff)
  then show ?case using Cons x by (auto simp: upd_call_def sql_update_def assms(1) split: option.split)
qed simp

lemma fold_drop:
  "fold (\<lambda>i. upd_call i oneshot_drop) is cs = map (\<lambda>c. if ca_id c \<in> set is then oneshot_drop c else c) cs"
proof (induction "is" arbitrary: cs)
  case (Cons i "is")
  have "oneshot_drop (oneshot_drop c) = oneshot_drop c" for c by (simp add: oneshot_drop_def)
  then show ?case using Cons by (auto simp: upd_call_def sql_update_def)
qed simp

lemma result_ok_mono:
  "result_ok H L c r \<Longrightarrow> L \<subseteq> L' \<Longrightarrow> result_ok H L' c r"
  by (auto simp: result_ok_def split: sum.splits)

lemma call_ok_lines: "call_ok H L c \<Longrightarrow> L \<subseteq> L' \<Longrightarrow> call_ok H L' c"
  unfolding call_ok_def using result_ok_mono by blast

lemma call_ok_handed:
  assumes "call_ok H L c" "ca_id c = i \<Longrightarrow> ca_tx c"
  shows "call_ok (insert i H) L c"
proof (cases "ca_id c = i")
  case True
  then have "ca_tx c" "ca_slot c = None" "early_ok c" using assms by (auto simp: call_ok_def)
  then show ?thesis
    by (auto simp: call_ok_def result_ok_def early_ok_def split: sum.splits call_outcome.splits option.splits)
next
  case False
  then show ?thesis using assms(1) by (auto simp: call_ok_def result_ok_def split: sum.splits)
qed

lemma call_ok_send:
  "call_ok H L c \<Longrightarrow> result_ok H L c r \<Longrightarrow> call_ok H L (oneshot_send r c)"
  by (auto simp: call_ok_def oneshot_send_def result_ok_def split: sum.splits)

lemma call_ok_drop:
  "call_ok H L c \<Longrightarrow> ca_outcome c \<noteq> None \<or> ca_id c \<notin> H \<Longrightarrow> call_ok H L (oneshot_drop c)"
  by (auto simp: call_ok_def oneshot_drop_def result_ok_def split: sum.splits)

lemma call_ok_recv: "call_ok H L c \<Longrightarrow> call_ok H L (caller_recv c)"
  by (auto simp: call_ok_def caller_recv_def result_ok_def early_ok_def split: sum.splits option.splits)

lemma class_ok_mono:
  assumes "class_ok s"
    and "\<And>c'. c' \<in> set (es_calls t) \<Longrightarrow> \<exists>c \<in> set (es_calls s). ca_id c = ca_id c' \<and> ca_class c = ca_class c'"
    and "\<And>i m p cl. CmdRequest i m p cl \<in> set (es_commands t) \<Longrightarrow> CmdRequest i m p cl \<in> set (es_commands s)"
    and "set (es_pending t) \<subseteq> set (es_pending s)"
  shows "class_ok t"
  unfolding class_ok_def
proof (intro conjI allI impI ballI)
  fix i m p cl c' assume "CmdRequest i m p cl \<in> set (es_commands t)" "c' \<in> set (es_calls t)" "ca_id c' = i"
  then show "ca_class c' = cl" using assms(1,3) assms(2) [of c'] unfolding class_ok_def by metis
next
  fix p c' assume "p \<in> set (es_pending t)" "c' \<in> set (es_calls t)" "ca_id c' = pr_id p"
  then show "ca_class c' = pr_class p" using assms(1,4) assms(2) [of c'] unfolding class_ok_def by (metis subsetD)
qed

lemma cancel_ok_mono:
  assumes "cancel_ok s" "ca_id ` set (es_calls t) = ca_id ` set (es_calls s)"
    and "set (es_cancels t) \<union> set (cancel_ids (es_commands t)) \<subseteq> set (es_cancels s) \<union> set (cancel_ids (es_commands s))"
    and "\<And>c'. c' \<in> set (es_calls t) \<Longrightarrow> \<exists>c \<in> set (es_calls s). ca_id c = ca_id c' \<and> ca_outcome c = ca_outcome c'"
  shows "cancel_ok t"
  unfolding cancel_ok_def
proof (intro conjI ballI impI)
  have "set (es_cancels s) \<union> set (cancel_ids (es_commands s)) \<subseteq> ca_id ` set (es_calls s)"
    using assms(1) by (simp add: cancel_ok_def)
  from subset_trans [OF assms(3) this]
  show "set (es_cancels t) \<union> set (cancel_ids (es_commands t)) \<subseteq> ca_id ` set (es_calls t)" unfolding assms(2) .
  fix i c' assume i: "i \<in> set (es_cancels t) \<union> set (cancel_ids (es_commands t))" "c' \<in> set (es_calls t)" "ca_id c' = i"
  obtain c where c: "c \<in> set (es_calls s)" "ca_id c = ca_id c'" "ca_outcome c = ca_outcome c'" using assms(4) [OF i(2)] by blast
  have "i \<in> set (es_cancels s) \<union> set (cancel_ids (es_commands s))" using assms(3) i(1) by (rule subsetD)
  moreover have "\<forall>i \<in> set (es_cancels s) \<union> set (cancel_ids (es_commands s)).
      \<forall>c \<in> set (es_calls s). ca_id c = i \<longrightarrow> ca_outcome c \<noteq> None" using assms(1) by (simp add: cancel_ok_def)
  ultimately have "ca_outcome c \<noteq> None" using c(1,2) i(3) by blast
  then show "ca_outcome c' \<noteq> None" using c(3) by simp
qed

lemma upd_call_outcome:
  assumes "c' \<in> set (upd_call i f cs)" "\<And>c. ca_id (f c) = ca_id c" "\<And>c. ca_outcome (f c) = ca_outcome c"
  shows "\<exists>c \<in> set cs. ca_id c = ca_id c' \<and> ca_outcome c = ca_outcome c'"
  using assms unfolding upd_call_mem by metis

lemma upd_call_same:
  assumes "c' \<in> set (upd_call i f cs)" "\<And>c. ca_id (f c) = ca_id c" "\<And>c. ca_class (f c) = ca_class c"
  shows "\<exists>c \<in> set cs. ca_id c = ca_id c' \<and> ca_class c = ca_class c'"
  using assms unfolding upd_call_mem by metis

text \<open>Steps that take calls out of the queue or the pending map.\<close>

lemma place_ok_settle:
  assumes "place_ok s" "map ca_id (es_calls t) = map ca_id (es_calls s)" "es_next t = es_next s" "es_handed t = es_handed s"
    and "set (request_ids (es_commands t)) \<subseteq> set (request_ids (es_commands s))" "distinct (request_ids (es_commands t))"
    and "pr_id ` set (es_pending t) \<subseteq> pr_id ` set (es_pending s)" "distinct (map pr_id (es_pending t))"
    and tx: "\<And>c'. c' \<in> set (es_calls t) \<Longrightarrow>
      ca_tx c' \<longleftrightarrow> ca_id c' \<in> set (request_ids (es_commands t)) \<or> ca_id c' \<in> pr_id ` set (es_pending t)"
  shows "place_ok t"
proof -
  have ids: "ca_id ` set (es_calls t) = ca_id ` set (es_calls s)" using assms(2) by (metis list.set_map)
  have n: "\<exists>n < es_next t. ca_id c' = call_id n" if c': "c' \<in> set (es_calls t)" for c'
  proof -
    obtain c where "c \<in> set (es_calls s)" "ca_id c' = ca_id c" using ids c' by (metis imageE imageI)
    then show ?thesis using assms(1,3) by (simp add: place_ok_def)
  qed
  have d: "distinct (map ca_id (es_calls t))" using assms(1,2) by (simp add: place_ok_def)
  have ps: "set (request_ids (es_commands s)) \<subseteq> ca_id ` set (es_calls s)"
      "set (es_handed s) \<subseteq> ca_id ` set (es_calls s)" "set (request_ids (es_commands s)) \<inter> set (es_handed s) = {}"
      "pr_id ` set (es_pending s) \<subseteq> set (es_handed s)"
    using assms(1) by (simp_all add: place_ok_def)
  have disj: "A' \<subseteq> A \<Longrightarrow> A \<inter> B = {} \<Longrightarrow> A' \<inter> B = {}" for A' A B :: "string set" by blast
  have r: "set (request_ids (es_commands t)) \<subseteq> ca_id ` set (es_calls t)"
      "set (request_ids (es_commands t)) \<inter> set (es_handed t) = {}"
      "set (es_handed t) \<subseteq> ca_id ` set (es_calls t)" "pr_id ` set (es_pending t) \<subseteq> set (es_handed t)"
    unfolding ids assms(4)
    using subset_trans [OF assms(5) ps(1)] disj [OF assms(5) ps(3)] ps(2) subset_trans [OF assms(7) ps(4)] by simp_all
  show ?thesis unfolding place_ok_def
    by (intro conjI ballI; (rule d n tx r assms(6) assms(8)); assumption?)
qed

lemma tx_settle:
  assumes "place_ok s" "c' \<in> set (upd_call i f (es_calls s))" "\<And>c. ca_id (f c) = ca_id c" "\<And>c. \<not> ca_tx (f c)"
    and "i \<notin> R'" "i \<notin> P'"
    and "set (request_ids (es_commands s)) \<subseteq> insert i R'" "R' \<subseteq> set (request_ids (es_commands s))"
    and "pr_id ` set (es_pending s) \<subseteq> insert i P'" "P' \<subseteq> pr_id ` set (es_pending s)"
  shows "ca_tx c' \<longleftrightarrow> ca_id c' \<in> R' \<or> ca_id c' \<in> P'"
proof -
  obtain c where c: "c \<in> set (es_calls s)" "c' = (if ca_id c = i then f c else c)"
    using assms(2) by (auto simp: upd_call_mem)
  then have "ca_tx c \<longleftrightarrow> ca_id c \<in> set (request_ids (es_commands s)) \<or> ca_id c \<in> pr_id ` set (es_pending s)"
    using assms(1) by (simp add: place_ok_def)
  then show ?thesis using c(2) assms(3-10) by (cases "ca_id c = i") auto
qed

subsection \<open>Steps\<close>

text \<open>Steps that change one call and perhaps a queue of cancels.\<close>

lemma one_call_inv:
  assumes "engine_inv s" "\<And>c. ca_id (f c) = ca_id c" "\<And>c. ca_class (f c) = ca_class c" "\<And>c. ca_tx (f c) = ca_tx c"
    and "\<And>c. c \<in> set (es_calls s) \<Longrightarrow> ca_id c = i \<Longrightarrow> call_ok (set (es_handed s)) (set (es_lines s)) (f c)"
    and "\<And>c. ca_outcome c \<noteq> None \<Longrightarrow> ca_outcome (f c) \<noteq> None"
    and "set ks \<subseteq> set (es_cancels s) \<or> i \<in> ca_id ` set (es_calls s) \<and> set ks \<subseteq> insert i (set (es_cancels s)) \<and>
      (\<forall>c. ca_outcome (f c) \<noteq> None)"
  shows "engine_inv (s\<lparr>es_calls := upd_call i f (es_calls s), es_cancels := ks\<rparr>)"
proof -
  let ?cs = "upd_call i f (es_calls s)"
  have ids: "ca_id ` set ?cs = ca_id ` set (es_calls s)"
    using upd_call_ids [of f i "es_calls s"] assms(2) by (metis list.set_map)
  have mem: "\<exists>c \<in> set (es_calls s). c' = (if ca_id c = i then f c else c)" if "c' \<in> set ?cs" for c'
    using that by (simp add: upd_call_mem)
  have "place_ok (s\<lparr>es_calls := ?cs, es_cancels := ks\<rparr>)"
    using assms(1) ids mem assms(2,4) upd_call_ids [of f i "es_calls s"]
    unfolding engine_inv_def place_ok_def by simp (metis (no_types, lifting))
  moreover have "class_ok (s\<lparr>es_calls := ?cs, es_cancels := ks\<rparr>)"
    using assms(1) mem assms(2,3) unfolding engine_inv_def class_ok_def by simp (metis (no_types, lifting))
  moreover have "cancel_ok (s\<lparr>es_calls := ?cs, es_cancels := ks\<rparr>)"
  proof -
    have "ca_outcome c' \<noteq> None" if k: "k \<in> set ks \<union> set (cancel_ids (es_commands s))" "c' \<in> set ?cs" "ca_id c' = k" for k c'
    proof -
      obtain c where c: "c \<in> set (es_calls s)" "c' = (if ca_id c = i then f c else c)" using mem k(2) by blast
      show ?thesis
      proof (cases "k \<in> set (es_cancels s) \<union> set (cancel_ids (es_commands s))")
        case True
        then have "ca_outcome c \<noteq> None"
          using assms(1,2) c k(3) unfolding engine_inv_def cancel_ok_def by (metis (no_types, lifting))
        then show ?thesis using c assms(6) by simp
      next
        case False
        then have "k = i" "\<forall>c. ca_outcome (f c) \<noteq> None" using assms(7) k(1) by auto
        then show ?thesis using c k(3) assms(2) by (metis (no_types, lifting))
      qed
    qed
    moreover have "set ks \<union> set (cancel_ids (es_commands s)) \<subseteq> ca_id ` set ?cs"
      using assms(1,7) unfolding ids engine_inv_def cancel_ok_def by auto
    ultimately show ?thesis unfolding cancel_ok_def by auto
  qed
  moreover have "calls_ok (s\<lparr>es_calls := ?cs, es_cancels := ks\<rparr>)"
    using assms(1,5) mem unfolding engine_inv_def calls_ok_def by simp (metis (no_types, lifting))
  moreover have "queue_ok (s\<lparr>es_calls := ?cs, es_cancels := ks\<rparr>)"
    using assms(1) by (simp add: engine_inv_def queue_ok_def)
  ultimately show ?thesis by (simp add: engine_inv_def)
qed

lemma inv_callE:
  assumes "engine_inv s" "c \<in> set (es_calls s)"
  shows "call_ok (set (es_handed s)) (set (es_lines s)) c"
  using assms by (simp add: engine_inv_def calls_ok_def)

lemma inv_found:
  assumes "engine_inv s" "find (\<lambda>c. ca_id c = i) (es_calls s) = Some c" "c' \<in> set (es_calls s)" "ca_id c' = i"
  shows "c' = c"
  using assms find_Some_in [OF assms(2)] by (auto simp: engine_inv_def place_ok_def intro: key_unique)

lemma recv_inv:
  assumes "engine_inv s"
  shows "engine_inv (s\<lparr>es_calls := upd_call i caller_recv (es_calls s)\<rparr>)"
proof -
  have "engine_inv (s\<lparr>es_calls := upd_call i caller_recv (es_calls s), es_cancels := es_cancels s\<rparr>)"
    by (rule one_call_inv [OF assms]) (use inv_callE [OF assms] call_ok_recv caller_recv_keeps in \<open>auto\<close>)
  moreover have "s\<lparr>es_calls := x, es_cancels := es_cancels s\<rparr> = s\<lparr>es_calls := x\<rparr>" for x by (cases s) simp
  ultimately show ?thesis by simp
qed

lemma timeout_inv:
  assumes "engine_inv s"
  shows "engine_inv (caller_timeout i s)"
proof (cases "find (\<lambda>c. ca_id c = i) (es_calls s)")
  case (Some c)
  let ?f = "\<lambda>c. c\<lparr>ca_outcome := Some (Answered (Inl (case ca_class c of ReadOnly \<Rightarrow> Timeout | Mutating \<Rightarrow> UnknownOutcome)))\<rparr>"
  show ?thesis
  proof (cases "times_out c")
    case True
    have c: "c \<in> set (es_calls s)" "ca_id c = i" using find_Some_in [OF Some] by auto
    have ok: "call_ok (set (es_handed s)) (set (es_lines s)) (?f c)"
      using inv_callE [OF assms c(1)] True
      by (auto simp: call_ok_def times_out_def early_ok_def result_ok_def split: call_class.split)
    have "engine_inv (s\<lparr>es_calls := upd_call i ?f (es_calls s), es_cancels := es_cancels s @ [i]\<rparr>)"
    proof (rule one_call_inv [OF assms])
      fix d assume "d \<in> set (es_calls s)" "ca_id d = i"
      then have "d = c" by (rule inv_found [OF assms Some])
      then show "call_ok (set (es_handed s)) (set (es_lines s)) (?f d)" using ok by simp
    qed (use c in auto)
    then show ?thesis using Some True by (simp add: caller_timeout_def)
  qed (use assms Some in \<open>simp add: caller_timeout_def\<close>)
qed (use assms in \<open>simp add: caller_timeout_def\<close>)

lemma abandon_inv:
  assumes "engine_inv s"
  shows "engine_inv (caller_abandon i s)"
proof (cases "find (\<lambda>c. ca_id c = i) (es_calls s)")
  case (Some c)
  let ?f = "\<lambda>c. c\<lparr>ca_outcome := Some Abandoned\<rparr>"
  have c: "c \<in> set (es_calls s)" "ca_id c = i" using find_Some_in [OF Some] by auto
  have ok: "call_ok (set (es_handed s)) (set (es_lines s)) (?f d)" if "d \<in> set (es_calls s)" for d
  proof -
    have "result_ok H L (?f d) r = result_ok H L d r" for H L r by (cases r) (simp_all add: result_ok_def)
    then show ?thesis using inv_callE [OF assms that] by (simp add: call_ok_def early_ok_def)
  qed
  have "engine_inv (s\<lparr>es_calls := upd_call i ?f (es_calls s), es_cancels := es_cancels s @ [i]\<rparr>)"
    by (rule one_call_inv [OF assms]) (use c ok in auto)
  then show ?thesis using Some assms by (simp add: caller_abandon_def)
qed (use assms in \<open>simp add: caller_abandon_def\<close>)

lemma inv_cancels:
  assumes "engine_inv s" "set ks \<subseteq> set (es_cancels s)"
  shows "engine_inv (s\<lparr>es_cancels := ks\<rparr>)"
proof -
  have "place_ok (s\<lparr>es_cancels := ks\<rparr>) = place_ok s" "class_ok (s\<lparr>es_cancels := ks\<rparr>) = class_ok s"
      "calls_ok (s\<lparr>es_cancels := ks\<rparr>) = calls_ok s" "queue_ok (s\<lparr>es_cancels := ks\<rparr>) = queue_ok s"
    by (simp_all add: place_ok_def class_ok_def calls_ok_def queue_ok_def)
  moreover have "cancel_ok (s\<lparr>es_cancels := ks\<rparr>)"
    using assms unfolding engine_inv_def cancel_ok_def by auto
  ultimately show ?thesis using assms(1) by (simp add: engine_inv_def)
qed

lemma inv_push:
  assumes "engine_inv s" "es_actor s \<noteq> Gone" "length (es_commands s) < COMMAND_QUEUE_CAPACITY"
    "cmd = CmdShutdown \<or> (\<exists>i \<in> set (es_cancels s). cmd = CmdCancel i)"
  shows "engine_inv (s\<lparr>es_commands := es_commands s @ [cmd]\<rparr>)" (is "engine_inv ?t")
proof -
  have r: "request_ids [cmd] = []" "\<And>i m p cl. cmd \<noteq> CmdRequest i m p cl"
    and c: "set (cancel_ids [cmd]) \<subseteq> set (es_cancels s)" using assms(4) by auto
  have "place_ok ?t" using assms(1) r by (simp add: engine_inv_def place_ok_def)
  moreover have "class_ok ?t" using assms(1) r(2) by (auto simp: engine_inv_def class_ok_def)
  moreover have "cancel_ok ?t"
    using assms(1) c by (simp add: engine_inv_def cancel_ok_def) blast
  moreover have "calls_ok ?t" using assms(1) by (simp add: engine_inv_def calls_ok_def)
  moreover have "queue_ok ?t" using assms(1-3) by (simp add: engine_inv_def queue_ok_def)
  ultimately show ?thesis by (simp add: engine_inv_def)
qed

lemma cancel_send_inv:
  assumes "engine_inv s"
  shows "engine_inv (cancel_send i s)"
proof -
  have sub: "set (remove1 i ks) \<subseteq> set ks" for ks :: "string list" by (rule set_remove1_subset)
  have "engine_inv (s\<lparr>es_commands := es_commands s @ [CmdCancel i], es_cancels := remove1 i (es_cancels s)\<rparr>)"
    if "i \<in> set (es_cancels s)" "es_actor s \<noteq> Gone" "length (es_commands s) < COMMAND_QUEUE_CAPACITY"
    using inv_cancels [OF inv_push [OF assms that(2,3)], of "CmdCancel i" "remove1 i (es_cancels s)"] that(1) sub
    by simp
  moreover have "s\<lparr>es_commands := x, es_cancels := y\<rparr> = s\<lparr>es_cancels := y, es_commands := x\<rparr>" for x y by simp
  ultimately show ?thesis using inv_cancels [OF assms sub] assms by (simp add: cancel_send_def)
qed

lemma shutdown_send_inv: "engine_inv s \<Longrightarrow> engine_inv (shutdown_send s)"
  using inv_push [of s CmdShutdown] by (simp add: shutdown_send_def)

text \<open>Fields that no clause but the queue bounds looks at.\<close>

lemma inv_queue_fields:
  assumes "engine_inv s" "length fs \<le> STDIN_WRITE_QUEUE_CAPACITY" "(a = Gone) = (es_actor s = Gone)" "a \<noteq> Broken StateRunning"
  shows "engine_inv (s\<lparr>es_frames := fs, es_writer := w, es_writer_failed := wfail, es_written := wr, es_actor := a\<rparr>)"
proof -
  let ?t = "s\<lparr>es_frames := fs, es_writer := w, es_writer_failed := wfail, es_written := wr, es_actor := a\<rparr>"
  have "place_ok ?t = place_ok s" "class_ok ?t = class_ok s" "calls_ok ?t = calls_ok s" "cancel_ok ?t = cancel_ok s"
    by (simp_all add: place_ok_def class_ok_def calls_ok_def cancel_ok_def)
  moreover have "queue_ok ?t" using assms by (simp add: engine_inv_def queue_ok_def)
  ultimately show ?thesis using assms(1) by (simp add: engine_inv_def)
qed

lemma writer_inv:
  assumes "engine_inv s"
  shows "engine_inv (writer_write ok s)"
proof (cases "es_frames s")
  case (Cons f fs)
  have "length fs \<le> STDIN_WRITE_QUEUE_CAPACITY" "es_actor s \<noteq> Broken StateRunning"
    using assms Cons by (auto simp: engine_inv_def queue_ok_def)
  moreover have "s\<lparr>es_frames := fs, es_writer := es_writer s, es_writer_failed := es_writer_failed s, es_written := wr, es_actor := es_actor s\<rparr> =
      s\<lparr>es_frames := fs, es_written := wr\<rparr>"
      "s\<lparr>es_frames := [], es_writer := False, es_writer_failed := True, es_written := es_written s, es_actor := es_actor s\<rparr> =
      s\<lparr>es_frames := [], es_writer := False, es_writer_failed := True\<rparr>" for wr
    by (cases s; simp)+
  ultimately have "engine_inv (s\<lparr>es_frames := fs, es_written := es_written s @ [f]\<rparr>)"
      "engine_inv (s\<lparr>es_frames := [], es_writer := False, es_writer_failed := True\<rparr>)"
    using inv_queue_fields [OF assms, where fs = fs and a = "es_actor s" and w = "es_writer s" and wfail = "es_writer_failed s" and wr = "es_written s @ [f]"]
      inv_queue_fields [OF assms, where fs = "[]" and a = "es_actor s" and w = False and wfail = True and wr = "es_written s"]
    by simp_all
  then show ?thesis using assms Cons by (simp add: writer_write_def)
qed (use assms in \<open>simp add: writer_write_def\<close>)

lemma break_inv:
  assumes "engine_inv s" "st \<noteq> StateRunning"
  shows "engine_inv (actor_break st s)"
proof -
  have "length (es_frames s) \<le> STDIN_WRITE_QUEUE_CAPACITY" using assms by (simp add: engine_inv_def queue_ok_def)
  moreover have "s\<lparr>es_frames := es_frames s, es_writer := es_writer s, es_writer_failed := es_writer_failed s, es_written := es_written s, es_actor := Broken st\<rparr> =
      s\<lparr>es_actor := Broken st\<rparr>" by (cases s) simp
  ultimately have "es_actor s = Looping \<Longrightarrow> engine_inv (s\<lparr>es_actor := Broken st\<rparr>)"
    using inv_queue_fields [OF assms(1), where fs = "es_frames s" and a = "Broken st" and w = "es_writer s" and wfail = "es_writer_failed s" and wr = "es_written s"] assms(2)
    by simp
  then show ?thesis using assms(1) by (simp add: actor_break_def)
qed

lemma dispatch_inv:
  assumes "engine_inv s" "es_next s < u64_max"
  shows "engine_inv (snd (dispatch_call meth params class s))"
proof -
  have nxt: "wrap_add64 (es_next s) 1 = Suc (es_next s)" using assms(2) by (simp add: wrap_add64_def u64_max_def)
  have base: "engine_inv (s\<lparr>es_next := Suc (es_next s)\<rparr>)"
    using assms(1) by (auto simp: engine_inv_def place_ok_def class_ok_def cancel_ok_def calls_ok_def queue_ok_def
        intro: less_SucI)
  let ?i = "call_id (es_next s)"
  have fresh: "?i \<notin> ca_id ` set (es_calls s)" using assms(1) by (auto simp: engine_inv_def place_ok_def)
  have fresh2: "\<forall>c \<in> set (es_calls s). ca_id c \<noteq> ?i" using fresh by (metis imageI)
  have "engine_inv (s\<lparr>es_next := Suc (es_next s), es_commands := es_commands s @ [CmdRequest ?i meth params class],
      es_calls := es_calls s @ [\<lparr>ca_id = ?i, ca_class = class, ca_slot = None, ca_tx = True, ca_outcome = None\<rparr>]\<rparr>)"
    if room: "es_actor s \<noteq> Gone" "length (es_commands s) < COMMAND_QUEUE_CAPACITY"
  proof -
    let ?t = "s\<lparr>es_next := Suc (es_next s), es_commands := es_commands s @ [CmdRequest ?i meth params class],
      es_calls := es_calls s @ [\<lparr>ca_id = ?i, ca_class = class, ca_slot = None, ca_tx = True, ca_outcome = None\<rparr>]\<rparr>"
    have fresh': "?i \<notin> set (request_ids (es_commands s))" "?i \<notin> set (es_handed s)"
        "?i \<notin> set (es_cancels s)" "?i \<notin> set (cancel_ids (es_commands s))" "?i \<notin> pr_id ` set (es_pending s)"
      using fresh assms(1) by (auto simp: engine_inv_def place_ok_def cancel_ok_def)
    have "place_ok ?t" using assms(1) fresh fresh' unfolding engine_inv_def place_ok_def by (auto intro: less_SucI)
    moreover have "class_ok ?t"
      using assms(1) fresh2 fresh' by (auto simp: engine_inv_def class_ok_def request_ids_mem)
    moreover have "cancel_ok ?t" using assms(1) fresh' by (auto simp: engine_inv_def cancel_ok_def)
    moreover have "calls_ok ?t" using assms(1) by (auto simp: engine_inv_def calls_ok_def call_ok_def early_ok_def)
    moreover have "queue_ok ?t" using assms(1) room by (auto simp: engine_inv_def queue_ok_def)
    ultimately show ?thesis by (simp add: engine_inv_def)
  qed
  then show ?thesis using base assms(1) by (auto simp: dispatch_call_def Let_def nxt [simplified])
qed

text \<open>The head request is answered without being handed over.\<close>

lemma reply_inv:
  assumes "engine_inv s" "es_commands s = CmdRequest i m p cl # cmds" "a \<noteq> Gone" "a \<noteq> Broken StateRunning"
    "es_actor s \<noteq> Gone"
  shows "engine_inv (s\<lparr>es_commands := cmds, es_calls := upd_call i (oneshot_send (Inl e)) (es_calls s), es_actor := a\<rparr>)"
    (is "engine_inv ?t")
proof -
  let ?cs = "upd_call i (oneshot_send (Inl e)) (es_calls s)"
  have ids: "map ca_id ?cs = map ca_id (es_calls s)" by (simp add: upd_call_ids)
  have ids': "ca_id ` set ?cs = ca_id ` set (es_calls s)" using ids by (metis list.set_map)
  have i: "i \<notin> set (request_ids cmds)" "i \<notin> set (es_handed s)" "i \<notin> pr_id ` set (es_pending s)"
    using assms(1,2) by (auto simp: engine_inv_def place_ok_def)
  have place: "place_ok s" using assms(1) by (simp add: engine_inv_def)
  have "place_ok ?t"
  proof (rule place_ok_settle [OF place])
    fix c' assume "c' \<in> set (es_calls ?t)"
    then have "c' \<in> set ?cs" by simp
    from tx_settle [OF place this, of "set (request_ids cmds)" "pr_id ` set (es_pending s)"]
    show "ca_tx c' \<longleftrightarrow> ca_id c' \<in> set (request_ids (es_commands ?t)) \<or> ca_id c' \<in> pr_id ` set (es_pending ?t)"
      using i assms(2) by (auto simp: insert_absorb)
  qed (use place ids assms(2) in \<open>auto simp: place_ok_def\<close>)
  moreover have "class_ok ?t"
    by (rule class_ok_mono [of s]) (use assms(1,2) in \<open>auto simp: engine_inv_def dest!: upd_call_same\<close>)
  moreover have "cancel_ok ?t"
    by (rule cancel_ok_mono [of s]) (use assms(1,2) ids' in \<open>auto simp: engine_inv_def dest!: upd_call_outcome\<close>)
  moreover have "calls_ok ?t"
    using assms(1) i(2) unfolding engine_inv_def calls_ok_def
    by (auto simp: upd_call_mem intro!: call_ok_send) (simp add: result_ok_def)
  moreover have "queue_ok ?t" using assms by (auto simp: engine_inv_def queue_ok_def)
  ultimately show ?thesis by (simp add: engine_inv_def)
qed

lemma hand_inv:
  assumes "engine_inv s" "es_commands s = CmdRequest i m p cl # cmds" "es_actor s \<noteq> Gone"
    "length (es_pending s) < MAX_PENDING_UPSTREAM_REQUESTS" "length (es_frames s) < STDIN_WRITE_QUEUE_CAPACITY"
  shows "engine_inv (s\<lparr>es_commands := cmds, es_frames := es_frames s @ [i], es_handed := es_handed s @ [i],
    es_pending := pending_insert \<lparr>pr_id = i, pr_class = cl, pr_account = acct\<rparr> (es_pending s)\<rparr>)" (is "engine_inv ?t")
proof -
  have i: "i \<notin> set (request_ids cmds)" "i \<notin> set (es_handed s)" "i \<notin> pr_id ` set (es_pending s)"
      "i \<in> ca_id ` set (es_calls s)"
    using assms(1,2) by (auto simp: engine_inv_def place_ok_def)
  have ins: "pending_insert \<lparr>pr_id = i, pr_class = cl, pr_account = acct\<rparr> (es_pending s) =
      es_pending s @ [\<lparr>pr_id = i, pr_class = cl, pr_account = acct\<rparr>]"
    using i(3) by (auto simp: pending_insert_def filter_id_conv)
  have tx: "ca_tx c" if "c \<in> set (es_calls s)" "ca_id c = i" for c
    using that assms(1,2) by (auto simp: engine_inv_def place_ok_def)
  have "place_ok ?t" using assms(1,2) i unfolding engine_inv_def place_ok_def ins by auto
  moreover have "class_ok ?t" using assms(1,2) unfolding engine_inv_def class_ok_def ins by auto
  moreover have "cancel_ok ?t" using assms(1,2) by (auto simp: engine_inv_def cancel_ok_def)
  moreover have "calls_ok ?t"
    using assms(1) tx unfolding engine_inv_def calls_ok_def by (auto intro: call_ok_handed)
  moreover have "queue_ok ?t" using assms by (auto simp: engine_inv_def queue_ok_def ins)
  ultimately show ?thesis by (simp add: engine_inv_def)
qed

text \<open>A pending call is taken out of the map; its sender is used up.\<close>

lemma settle_pending_inv:
  assumes "engine_inv s" "i \<in> pr_id ` set (es_pending s)"
    and f: "\<And>c. ca_id (f c) = ca_id c" "\<And>c. ca_class (f c) = ca_class c" "\<And>c. ca_outcome (f c) = ca_outcome c"
      "\<And>c. \<not> ca_tx (f c)"
    and ok: "\<And>c. c \<in> set (es_calls s) \<Longrightarrow> ca_id c = i \<Longrightarrow> call_ok (set (es_handed s)) (set (es_lines t)) (f c)"
    and lines: "set (es_lines s) \<subseteq> set (es_lines t)"
    and t: "es_calls t = upd_call i f (es_calls s)" "es_pending t = pending_remove i (es_pending s)"
      "es_handed t = es_handed s" "es_next t = es_next s" "es_cancels t = es_cancels s"
      "request_ids (es_commands t) = request_ids (es_commands s)" "set (es_commands t) \<subseteq> set (es_commands s)"
      "set (cancel_ids (es_commands t)) \<subseteq> set (cancel_ids (es_commands s))"
      "length (es_commands t) \<le> length (es_commands s)" "es_frames t = es_frames s" "es_status t = es_status s"
      "es_actor s \<noteq> Gone" "es_actor t \<noteq> Gone" "es_actor t \<noteq> Broken StateRunning"
  shows "engine_inv t"
proof -
  have place: "place_ok s" using assms(1) by (simp add: engine_inv_def)
  have ids: "map ca_id (es_calls t) = map ca_id (es_calls s)" using f(1) by (simp add: t(1) upd_call_ids)
  have ids': "ca_id ` set (es_calls t) = ca_id ` set (es_calls s)" using ids by (metis list.set_map)
  have "set (request_ids (es_commands s)) \<inter> set (es_handed s) = {}" "pr_id ` set (es_pending s) \<subseteq> set (es_handed s)"
    using place by (simp_all add: place_ok_def)
  then have req: "i \<notin> set (request_ids (es_commands s))" using assms(2) by blast
  have pend: "pr_id ` set (es_pending t) = pr_id ` set (es_pending s) - {i}"
    by (auto simp: t(2) pending_remove_def)
  have "place_ok t"
  proof (rule place_ok_settle [OF place ids t(4,3)])
    fix c' assume "c' \<in> set (es_calls t)"
    then have "c' \<in> set (upd_call i f (es_calls s))" using t(1) by simp
    from tx_settle [OF place this f(1,4), of "set (request_ids (es_commands t))" "pr_id ` set (es_pending t)"]
    show "ca_tx c' \<longleftrightarrow> ca_id c' \<in> set (request_ids (es_commands t)) \<or> ca_id c' \<in> pr_id ` set (es_pending t)"
      using req pend t(6) by auto
  qed (use place pend t(2,6) in \<open>simp_all add: place_ok_def pending_remove_def distinct_map_filter\<close>)
  moreover have "class_ok t"
    by (rule class_ok_mono [of s])
      (use assms(1) t(1,2,7) f(1,2) in \<open>auto simp: engine_inv_def pending_remove_def dest!: upd_call_same\<close>)
  moreover have "cancel_ok t"
    by (rule cancel_ok_mono [of s]) (use assms(1) ids' t(1,5,8) f(1,3) in \<open>auto simp: engine_inv_def dest!: upd_call_outcome\<close>)
  moreover have "calls_ok t"
    unfolding calls_ok_def
  proof
    fix c' assume "c' \<in> set (es_calls t)"
    then obtain c where c: "c \<in> set (es_calls s)" "c' = (if ca_id c = i then f c else c)"
      using t(1) by (auto simp: upd_call_mem)
    have "call_ok (set (es_handed s)) (set (es_lines t)) c" by (rule call_ok_lines [OF inv_callE [OF assms(1) c(1)] lines])
    then show "call_ok (set (es_handed t)) (set (es_lines t)) c'" using ok [OF c(1)] c(2) t(3) by simp
  qed
  moreover have "queue_ok t"
  proof -
    have "length (es_pending t) \<le> length (es_pending s)" by (simp add: t(2) pending_remove_def)
    then show ?thesis using assms(1) t(9-14) by (auto simp: engine_inv_def queue_ok_def)
  qed
  ultimately show ?thesis by (simp add: engine_inv_def)
qed

lemma cancel_command_inv:
  assumes "engine_inv s" "es_commands s = CmdCancel i # cmds" "es_actor s = Looping"
  shows "engine_inv (s\<lparr>es_commands := cmds, es_pending := pending_remove i (es_pending s),
    es_calls := (if i \<in> pr_id ` set (es_pending s) then upd_call i oneshot_drop (es_calls s) else es_calls s)\<rparr>)"
proof (cases "i \<in> pr_id ` set (es_pending s)")
  case False
  then have rem: "pending_remove i (es_pending s) = es_pending s" by (auto simp: pending_remove_def filter_id_conv)
  let ?t = "s\<lparr>es_commands := cmds\<rparr>"
  have "place_ok ?t" "calls_ok ?t" "queue_ok ?t"
    using assms(1,2) by (simp_all add: engine_inv_def place_ok_def calls_ok_def queue_ok_def)
  moreover have "class_ok ?t" by (rule class_ok_mono [of s]) (use assms in \<open>auto simp: engine_inv_def\<close>)
  moreover have "cancel_ok ?t" by (rule cancel_ok_mono [of s]) (use assms in \<open>auto simp: engine_inv_def\<close>)
  ultimately have "engine_inv ?t" by (simp add: engine_inv_def)
  moreover have "s\<lparr>es_commands := cmds, es_pending := es_pending s, es_calls := es_calls s\<rparr> = ?t" by (cases s) simp
  ultimately show ?thesis using False by (simp add: rem)
next
  case True
  have out: "ca_outcome c \<noteq> None" if "c \<in> set (es_calls s)" "ca_id c = i" for c
    using that assms(1,2) by (auto simp: engine_inv_def cancel_ok_def)
  show ?thesis
    by (rule settle_pending_inv [OF assms(1) True, where f = oneshot_drop])
      (use True assms out inv_callE [OF assms(1)] in \<open>auto intro: call_ok_drop\<close>)
qed

lemma command_inv:
  assumes "engine_inv s"
  shows "engine_inv (actor_command enc_ok s)"
proof (cases "es_actor s = Looping \<and> es_commands s \<noteq> []")
  case True
  then obtain cmd cmds where cs: "es_commands s = cmd # cmds" by (cases "es_commands s") auto
  have L: "es_actor s = Looping" using True by simp
  show ?thesis
  proof (cases cmd)
    case (CmdRequest i m p cl)
    have r: "es_commands s = CmdRequest i m p cl # cmds" using cs CmdRequest by simp
    have same: "s\<lparr>es_commands := cmds, es_calls := x, es_actor := Looping\<rparr> = s\<lparr>es_commands := cmds, es_calls := x\<rparr>" for x
      using L by (cases s) simp
    show ?thesis
      using reply_inv [OF assms r, of Looping] reply_inv [OF assms r, of "Broken StateExited"] hand_inv [OF assms r] L
      by (simp add: actor_command_def r actor_request_def Let_def same)
  next
    case (CmdCancel i)
    then show ?thesis using cancel_command_inv [OF assms] cs L by (simp add: actor_command_def)
  next
    case CmdShutdown
    let ?t = "s\<lparr>es_commands := cmds, es_writer := False, es_actor := Broken StateStopped\<rparr>"
    have c: "es_commands s = CmdShutdown # cmds" using cs CmdShutdown by simp
    have "place_ok ?t" "calls_ok ?t" "queue_ok ?t"
      using assms c L by (simp_all add: engine_inv_def place_ok_def calls_ok_def queue_ok_def)
    moreover have "class_ok ?t" by (rule class_ok_mono [of s]) (use assms c in \<open>auto simp: engine_inv_def\<close>)
    moreover have "cancel_ok ?t" by (rule cancel_ok_mono [of s]) (use assms c in \<open>auto simp: engine_inv_def\<close>)
    ultimately have "engine_inv ?t" by (simp add: engine_inv_def)
    then show ?thesis using c L by (simp add: actor_command_def)
  qed
qed (use assms in \<open>auto simp: actor_command_def split: list.split\<close>)

lemma line_effect_cases:
  assumes "e = handle_upstream_line message adm pending degraded"
  shows "le_answers e = [] \<and> le_pending e = pending \<or>
    (\<exists>m p r. message = Some m \<and> p \<in> set pending \<and> response_of m (pr_id p) \<and> le_answers e = [(pr_id p, r)] \<and>
       le_pending e = pending_remove (pr_id p) pending \<and>
       (case r of
          Inr v \<Rightarrow> json_get m ''result'' = Some v
        | Inl er \<Rightarrow> pr_class p = Mutating \<longrightarrow>
            er = UnknownOutcome \<or> engine_answer_error er \<and> json_get m ''error'' \<noteq> None))"
proof -
  have resp: "le_answers (handle_response m pending degraded) = [] \<and> le_pending (handle_response m pending degraded) = pending \<or>
    (\<exists>p r. p \<in> set pending \<and> response_of m (pr_id p) \<and> le_answers (handle_response m pending degraded) = [(pr_id p, r)] \<and>
       le_pending (handle_response m pending degraded) = pending_remove (pr_id p) pending \<and>
       (case r of
          Inr v \<Rightarrow> json_get m ''result'' = Some v
        | Inl er \<Rightarrow> pr_class p = Mutating \<longrightarrow>
            er = UnknownOutcome \<or> engine_answer_error er \<and> json_get m ''error'' \<noteq> None))" for m
  proof (cases "get_str (Some m) ''id''")
    case (Some i)
    show ?thesis
    proof (cases "find (\<lambda>p. pr_id p = i) pending")
      case (Some p)
      then have p: "p \<in> set pending" "pr_id p = i" by (auto dest: find_Some_in)
      have "response_of m (pr_id p)" using \<open>get_str (Some m) ''id'' = _\<close> p(2) by (simp add: response_of_def)
      then show ?thesis
        using Some p \<open>get_str (Some m) ''id'' = _\<close> classify_is_engine_answer [of "json_get m ''error''"]
        by (intro disjI2 exI [of _ p])
          (auto simp: handle_response_def Let_def split: prod.split option.split call_class.split)
    qed (simp add: handle_response_def \<open>get_str (Some m) ''id'' = _\<close>)
  qed (simp add: handle_response_def)
  show ?thesis
  proof (cases message)
    case (Some m)
    then show ?thesis using resp [of m] unfolding assms
      by (auto simp: handle_upstream_line_def Let_def split: option.split sum.split prod.split)
  qed (simp add: assms handle_upstream_line_def)
qed

lemma line_inv:
  assumes "engine_inv s"
  shows "engine_inv (actor_line message adm s)"
proof (cases "es_actor s = Looping")
  case True
  define e where "e = handle_upstream_line message adm (es_pending s) (es_degraded s)"
  let ?t = "s\<lparr>es_pending := le_pending e, es_degraded := le_degraded e, es_events := es_events s @ le_events e,
      es_calls := apply_answers (le_answers e) (es_calls s),
      es_lines := es_lines s @ (case message of None \<Rightarrow> [] | Some m \<Rightarrow> [m]),
      es_actor := (if le_ok e then Looping else Broken StateFaulted)\<rparr>"
  have step: "actor_line message adm s = ?t" using True by (simp add: actor_line_def e_def Let_def)
  from line_effect_cases [OF e_def] show ?thesis
  proof
    assume "le_answers e = [] \<and> le_pending e = es_pending s"
    then have n: "le_answers e = []" "le_pending e = es_pending s" by simp_all
    have "place_ok ?t" "class_ok ?t" "cancel_ok ?t" "queue_ok ?t"
      using assms True by (simp_all add: n apply_answers_def engine_inv_def place_ok_def class_ok_def cancel_ok_def queue_ok_def)
    moreover have "calls_ok ?t"
      using assms call_ok_lines by (auto simp: n apply_answers_def engine_inv_def calls_ok_def)
    ultimately show ?thesis by (simp add: step engine_inv_def)
  next
    assume "\<exists>m p r. message = Some m \<and> p \<in> set (es_pending s) \<and> response_of m (pr_id p) \<and> le_answers e = [(pr_id p, r)] \<and>
       le_pending e = pending_remove (pr_id p) (es_pending s) \<and>
       (case r of
          Inr v \<Rightarrow> json_get m ''result'' = Some v
        | Inl er \<Rightarrow> pr_class p = Mutating \<longrightarrow>
            er = UnknownOutcome \<or> engine_answer_error er \<and> json_get m ''error'' \<noteq> None)"
    then obtain m p r where m: "message = Some m" and p: "p \<in> set (es_pending s)" and re: "response_of m (pr_id p)"
      and e: "le_answers e = [(pr_id p, r)]" "le_pending e = pending_remove (pr_id p) (es_pending s)"
      and r: "case r of
          Inr v \<Rightarrow> json_get m ''result'' = Some v
        | Inl er \<Rightarrow> pr_class p = Mutating \<longrightarrow>
            er = UnknownOutcome \<or> engine_answer_error er \<and> json_get m ''error'' \<noteq> None" by blast
    have h: "pr_id p \<in> set (es_handed s)" using assms p by (auto simp: engine_inv_def place_ok_def)
    show ?thesis unfolding step
    proof (rule settle_pending_inv [OF assms imageI [OF p], where f = "oneshot_send r"])
      fix c assume c: "c \<in> set (es_calls s)" "ca_id c = pr_id p"
      have cl: "ca_class c = pr_class p" using assms p c by (simp add: engine_inv_def class_ok_def)
      have "call_ok (set (es_handed s)) (insert m (set (es_lines s))) c"
        by (rule call_ok_lines [OF inv_callE [OF assms c(1)]]) blast
      moreover have "result_ok (set (es_handed s)) (insert m (set (es_lines s))) c r"
        using r re h cl c(2) by (auto simp: result_ok_def split: sum.splits)
      ultimately show "call_ok (set (es_handed s)) (set (es_lines ?t)) (oneshot_send r c)"
        using call_ok_send by (simp add: m)
    qed (use True m e in \<open>auto simp: apply_answers_def\<close>)
  qed
qed (use assms in \<open>simp add: actor_line_def\<close>)

lemma finish_inv:
  assumes "engine_inv s"
  shows "engine_inv (actor_finish s)"
proof (cases "es_actor s")
  case (Broken st)
  define ro where "ro = (if st = StateFaulted then Protocol else Exited)"
  define ans where "ans = map (\<lambda>p. (pr_id p, Inl (class_failure ro (pr_class p)) :: engine_error + json)) (es_pending s)"
  let ?R = "set (request_ids (es_commands s))"
  let ?g = "\<lambda>c. case map_of ans (ca_id c) of None \<Rightarrow> c | Some r \<Rightarrow> oneshot_send r c"
  define h where "h = (\<lambda>c. if ca_id c \<in> ?R then oneshot_drop (?g c) else ?g c)"
  have ids: "map fst ans = map pr_id (es_pending s)" by (simp add: ans_def)
  have inv: "place_ok s" "class_ok s" "cancel_ok s" "calls_ok s" "queue_ok s" using assms by (simp_all add: engine_inv_def)
  have fold: "fold (\<lambda>i. upd_call i oneshot_drop) (request_ids (es_commands s)) (apply_answers ans (es_calls s)) =
      map h (es_calls s)"
  proof -
    have "distinct (map fst ans)" unfolding ids using inv(1) by (simp add: place_ok_def)
    then have "apply_answers ans (es_calls s) = map ?g (es_calls s)"
      unfolding apply_answers_def by (intro fold_upd_call) simp_all
    moreover have "ca_id (?g c) = ca_id c" for c by (simp split: option.split)
    ultimately show ?thesis by (simp add: fold_drop o_def h_def)
  qed
  define t where "t = s\<lparr>es_status := st, es_actor := Gone, es_writer := False, es_frames := [],
      es_events := es_events s @ [StateChanged st], es_calls := map h (es_calls s), es_pending := [], es_commands := []\<rparr>"
  have step: "actor_finish s = t"
    using fold by (simp add: actor_finish_def Broken Let_def t_def ans_def ro_def)
  have hid: "ca_id (h c) = ca_id c" "ca_class (h c) = ca_class c" "ca_outcome (h c) = ca_outcome c" for c
    by (simp_all add: h_def split: option.split)
  have none: "map_of ans i = None \<longleftrightarrow> i \<notin> pr_id ` set (es_pending s)" for i
    unfolding map_of_eq_None_iff by (metis ids list.set_map)
  have tids: "map ca_id (es_calls t) = map ca_id (es_calls s)" using hid(1) by (simp add: t_def o_def)
  have "place_ok t"
  proof (rule place_ok_settle [OF inv(1) tids])
    fix c' assume "c' \<in> set (es_calls t)"
    then obtain c where c: "c \<in> set (es_calls s)" "c' = h c" by (auto simp: t_def)
    then have "ca_tx c \<longleftrightarrow> ca_id c \<in> ?R \<or> ca_id c \<in> pr_id ` set (es_pending s)" using inv(1) by (simp add: place_ok_def)
    then have "\<not> ca_tx (h c)" using none [of "ca_id c"] by (cases "map_of ans (ca_id c)") (auto simp: h_def)
    then show "ca_tx c' \<longleftrightarrow> ca_id c' \<in> set (request_ids (es_commands t)) \<or> ca_id c' \<in> pr_id ` set (es_pending t)"
      using c(2) by (simp add: t_def)
  qed (simp_all add: t_def)
  moreover have "class_ok t" by (simp add: class_ok_def t_def)
  moreover have "cancel_ok t"
  proof (rule cancel_ok_mono [OF inv(3)])
    show "ca_id ` set (es_calls t) = ca_id ` set (es_calls s)" using tids by (metis list.set_map)
    fix c' assume "c' \<in> set (es_calls t)"
    then obtain c where "c \<in> set (es_calls s)" "c' = h c" by (auto simp: t_def)
    then show "\<exists>c \<in> set (es_calls s). ca_id c = ca_id c' \<and> ca_outcome c = ca_outcome c'" using hid(1,3) [of c] by (intro bexI [of _ c]) simp_all
  qed (simp add: t_def)
  moreover have "calls_ok t"
    unfolding calls_ok_def
  proof
    fix c' assume "c' \<in> set (es_calls t)"
    then obtain c where c: "c \<in> set (es_calls s)" "c' = h c" by (auto simp: t_def)
    let ?H = "set (es_handed s)" and ?L = "set (es_lines s)"
    have ok: "call_ok ?H ?L c" using inv(4) c(1) by (simp add: calls_ok_def)
    have "call_ok ?H ?L (h c)"
    proof (cases "ca_id c \<in> ?R")
      case True
      then have "ca_id c \<notin> ?H" "ca_id c \<notin> pr_id ` set (es_pending s)" using inv(1) by (auto simp: place_ok_def)
      then show ?thesis using True none [of "ca_id c"] call_ok_drop [OF ok] by (simp add: h_def)
    next
      case False
      show ?thesis
      proof (cases "map_of ans (ca_id c)")
        case (Some r)
        then obtain p where p: "p \<in> set (es_pending s)" "pr_id p = ca_id c" "r = Inl (class_failure ro (pr_class p))"
          by (auto simp: ans_def dest!: map_of_SomeD)
        have "ca_class c = pr_class p" using inv(2) p(1,2) c(1) by (simp add: class_ok_def)
        then have "result_ok ?H ?L c r" by (simp add: p(3) result_ok_def class_failure_def)
        then show ?thesis using Some False call_ok_send [OF ok] by (simp add: h_def)
      qed (use False ok in \<open>simp add: h_def\<close>)
    qed
    then show "call_ok (set (es_handed t)) (set (es_lines t)) c'" using c(2) by (simp add: t_def)
  qed
  moreover have "queue_ok t" using inv(5) Broken by (auto simp: queue_ok_def t_def)
  ultimately show ?thesis by (simp add: step engine_inv_def)
qed (use assms in \<open>simp_all add: actor_finish_def\<close>)

lemma engine_reach_inv: "engine_reach s \<Longrightarrow> engine_inv s"
proof (induction rule: engine_reach.induct)
  case er_start
  show ?case
    by (simp add: engine_started_def engine_inv_def place_ok_def class_ok_def cancel_ok_def calls_ok_def queue_ok_def)
next
  case (er_step s t)
  from er_step(2) er_step(3) show ?case
    by (cases rule: engine_step.cases)
      (simp_all add: dispatch_inv recv_inv timeout_inv abandon_inv cancel_send_inv shutdown_send_inv writer_inv
        command_inv break_inv line_inv finish_inv)
qed

section \<open>Properties\<close>

text \<open>
  C2. A mutating call is never reported as safe to repeat once it was handed to the engine. Whatever the
  interleaving of callers, timeouts, cancels, writer failures, shutdowns and engine output: when a mutating
  call ends in an error and its request had been queued for the engine's input, the error is the unknown
  outcome, or one the engine itself sent in a response with the id of that call.
\<close>
theorem mutating_failures_honest:
  assumes "engine_reach s" "c \<in> set (es_calls s)" "ca_class c = Mutating"
    "ca_outcome c = Some (Answered (Inl e))" "ca_id c \<in> set (es_handed s)"
  shows "e = UnknownOutcome \<or>
    engine_answer_error e \<and> (\<exists>l \<in> set (es_lines s). response_of l (ca_id c) \<and> json_get l ''error'' \<noteq> None)"
  using inv_callE [OF engine_reach_inv [OF assms(1)] assms(2)] assms(3-5)
  by (auto simp: call_ok_def result_ok_def)

text \<open>
  C3. Answers are never mixed up and never invented. A call that returns a value returns the result of a
  response line the engine sent with exactly that call's id, after the call was handed over; and no two calls
  have the same id.
\<close>
theorem engine_answers_routed:
  assumes "engine_reach s" "c \<in> set (es_calls s)" "ca_outcome c = Some (Answered (Inr v))"
  shows "ca_id c \<in> set (es_handed s) \<and>
    (\<exists>l \<in> set (es_lines s). response_of l (ca_id c) \<and> json_get l ''result'' = Some v) \<and>
    distinct (map ca_id (es_calls s))"
proof -
  have inv: "engine_inv s" by (rule engine_reach_inv [OF assms(1)])
  have "result_ok (set (es_handed s)) (set (es_lines s)) c (Inr v)"
    using inv_callE [OF inv assms(2)] assms(3) unfolding call_ok_def by blast
  then show ?thesis using inv by (simp add: result_ok_def engine_inv_def place_ok_def)
qed

text \<open>
  C26. No caller waits for an engine that is gone. Once the actor has ended, every call has been settled: its
  channel holds an answer or is closed, so the caller's next look at it ends the call, within the queue bounds
  that hold all along (128 commands, 16 frames, 128 pending requests).
\<close>
theorem no_call_outlives_the_engine:
  assumes "engine_reach s"
  shows "(es_actor s = Gone \<longrightarrow> (\<forall>c \<in> set (es_calls s). ca_outcome (caller_recv c) \<noteq> None)) \<and>
    length (es_commands s) \<le> 128 \<and> length (es_frames s) \<le> 16 \<and> length (es_pending s) \<le> 128"
proof -
  have inv: "engine_inv s" by (rule engine_reach_inv [OF assms])
  have "ca_outcome (caller_recv c) \<noteq> None" if g: "es_actor s = Gone" and c: "c \<in> set (es_calls s)" for c
  proof -
    have "\<not> ca_tx c" using inv g c by (auto simp: engine_inv_def queue_ok_def place_ok_def)
    then show ?thesis by (auto simp: caller_recv_def split: option.split)
  qed
  then show ?thesis using inv
    by (auto simp: engine_inv_def queue_ok_def COMMAND_QUEUE_CAPACITY_def STDIN_WRITE_QUEUE_CAPACITY_def
        MAX_PENDING_UPSTREAM_REQUESTS_def)
qed

text \<open>A send that is handed over, and an engine that dies before it answers.\<close>

definition demo_sent :: engine_sys where
  "demo_sent = actor_command True (snd (dispatch_call ''send'' (JObj []) Mutating engine_started))"

definition demo_died :: engine_sys where
  "demo_died = (let s = actor_finish (actor_break StateExited demo_sent)
                in s\<lparr>es_calls := upd_call ''kt-1'' caller_recv (es_calls s)\<rparr>)"

definition demo_call :: engine_call where
  "demo_call = \<lparr>ca_id = ''kt-1'', ca_class = Mutating, ca_slot = Some (Inl UnknownOutcome), ca_tx = False,
     ca_outcome = Some (Answered (Inl UnknownOutcome))\<rparr>"

definition demo_reply :: json where
  "demo_reply = JObj [(''id'', JStr ''kt-1''), (''jsonrpc'', JStr ''2.0''), (''result'', JBool True)]"

definition demo_answered :: engine_sys where
  "demo_answered = (let s = actor_line (Some demo_reply) (Inr None) demo_sent
                    in s\<lparr>es_calls := upd_call ''kt-1'' caller_recv (es_calls s)\<rparr>)"

lemma demo_engine_reach: "engine_reach demo_sent" "engine_reach demo_died" "engine_reach demo_answered"
proof -
  have "es_next engine_started < u64_max" by (simp add: engine_started_def u64_max_def)
  then have "engine_reach (snd (dispatch_call ''send'' (JObj []) Mutating engine_started))"
    by (intro er_step [OF er_start] ek_dispatch)
  then show sent: "engine_reach demo_sent" unfolding demo_sent_def by (rule er_step [OF _ ek_command])
  have "engine_reach (actor_finish (actor_break StateExited demo_sent))"
    by (rule er_step [OF er_step [OF sent ek_eof] ek_finish])
  then show "engine_reach demo_died" unfolding demo_died_def Let_def by (rule er_step [OF _ ek_recv])
  have "engine_reach (actor_line (Some demo_reply) (Inr None) demo_sent)" by (rule er_step [OF sent ek_line])
  then show "engine_reach demo_answered" unfolding demo_answered_def Let_def by (rule er_step [OF _ ek_recv])
qed

lemma call_id_1: "call_id (Suc 0) = ''kt-1''"
  by (simp add: call_id_def show_nat.simps [of "Suc 0"] char_of_def bit_Suc_0_iff)

lemma demo_sent_eq:
  "demo_sent = engine_started\<lparr>es_next := 2, es_frames := [''kt-1''], es_handed := [''kt-1''],
     es_pending := [\<lparr>pr_id = ''kt-1'', pr_class = Mutating, pr_account = None\<rparr>],
     es_calls := [\<lparr>ca_id = ''kt-1'', ca_class = Mutating, ca_slot = None, ca_tx = True, ca_outcome = None\<rparr>]\<rparr>"
  by (simp add: demo_sent_def dispatch_call_def engine_started_def is_terminal_def Let_def call_id_1 wrap_add64_def
      COMMAND_QUEUE_CAPACITY_def actor_command_def actor_request_def MAX_PENDING_UPSTREAM_REQUESTS_def
      STDIN_WRITE_QUEUE_CAPACITY_def pending_insert_def get_str_def json_get_def)

lemma demo_died_facts:
  "es_calls demo_died = [demo_call]" "es_handed demo_died = [''kt-1'']" "es_actor demo_died = Gone"
  by (simp_all add: demo_died_def demo_sent_eq engine_started_def actor_break_def actor_finish_def Let_def
      apply_answers_def class_failure_def upd_call_def sql_update_def oneshot_send_def caller_recv_def demo_call_def)

theorem mutating_failures_honest_witness:
  "es_calls demo_died = [demo_call] \<and> es_handed demo_died = [ca_id demo_call] \<and>
   (UnknownOutcome = UnknownOutcome \<or> engine_answer_error UnknownOutcome)"
proof -
  have "demo_call \<in> set (es_calls demo_died)" "ca_id demo_call \<in> set (es_handed demo_died)"
    by (simp_all add: demo_died_facts) (simp add: demo_call_def)
  moreover have "ca_class demo_call = Mutating" "ca_outcome demo_call = Some (Answered (Inl UnknownOutcome))"
    by (simp_all add: demo_call_def)
  ultimately show ?thesis
    using mutating_failures_honest [OF demo_engine_reach(2), of demo_call UnknownOutcome] demo_died_facts
    by (simp add: demo_call_def)
qed

theorem engine_answers_routed_witness:
  "\<exists>l \<in> set (es_lines demo_answered). response_of l ''kt-1'' \<and> json_get l ''result'' = Some (JBool True)"
proof -
  let ?c = "\<lparr>ca_id = ''kt-1'', ca_class = Mutating, ca_slot = Some (Inr (JBool True)), ca_tx = False,
     ca_outcome = Some (Answered (Inr (JBool True)))\<rparr>"
  have "es_calls demo_answered = [?c]"
    by (simp add: demo_answered_def demo_sent_eq engine_started_def actor_line_def Let_def handle_upstream_line_def
        handle_response_def get_str_def json_get_def is_object_def demo_reply_def
        apply_answers_def upd_call_def sql_update_def oneshot_send_def caller_recv_def)
  then have "?c \<in> set (es_calls demo_answered)" by simp
  from engine_answers_routed [OF demo_engine_reach(3) this] show ?thesis by simp
qed

theorem no_call_outlives_the_engine_witness:
  "es_actor demo_died = Gone \<and> ca_outcome (caller_recv demo_call) \<noteq> None \<and> length (es_pending demo_died) \<le> 128"
  using no_call_outlives_the_engine [OF demo_engine_reach(2)] demo_died_facts by simp

end
