(* ===== verification/Receive_Ingress.thy ===== *)
theory Receive_Ingress
  imports Receive_Weight Engine_Calls "HOL-Library.Multiset"
begin

text \<open>
  The receive queue of \<open>src/engine.rs\<close> (\<open>ReceiveIngress\<close>, \<open>receive_channel\<close>): per-account shares, the global byte budget
  and the bounded channel. A semaphore is the number of its free permits, and a queued receive holds its permits until
  the consumer drops it. \<open>enqueue\<close> is cut at its two waits, so the admission of several engines, the consumer and the
  timeouts interleave freely. The last section puts the receive ladder, the queue and the engine actor together.
\<close>

definition RECEIVE_QUEUE_CAPACITY :: nat where "RECEIVE_QUEUE_CAPACITY = 256"
definition RECEIVE_QUEUE_BYTE_CAPACITY :: nat where "RECEIVE_QUEUE_BYTE_CAPACITY = 2 * 1024 * 1024"
definition RECEIVE_QUEUE_PER_ACCOUNT_CAPACITY :: nat where "RECEIVE_QUEUE_PER_ACCOUNT_CAPACITY = 64"
definition RECEIVE_QUEUE_PER_ACCOUNT_BYTE_CAPACITY :: nat where "RECEIVE_QUEUE_PER_ACCOUNT_BYTE_CAPACITY = 512 * 1024"

lemmas queue_caps =
  RECEIVE_QUEUE_CAPACITY_def RECEIVE_QUEUE_BYTE_CAPACITY_def RECEIVE_QUEUE_PER_ACCOUNT_CAPACITY_def
  RECEIVE_QUEUE_PER_ACCOUNT_BYTE_CAPACITY_def

record account_share =
  sh_slots :: nat
  sh_bytes :: nat

record queued_receive =
  q_key :: string
  q_weight :: nat
  q_receive :: normalized_receive

datatype park_stage = AwaitBytes | AwaitSlot

record ingress =
  ri_byte_budget :: nat
  ri_accounts :: "(string \<times> account_share) list"
  ri_queue :: "queued_receive list"
  ri_held :: "queued_receive list"
  ri_parked :: "(park_stage \<times> queued_receive) list"

definition receive_channel :: ingress where
  "receive_channel =
     \<lparr>ri_byte_budget = RECEIVE_QUEUE_BYTE_CAPACITY, ri_accounts = [], ri_queue = [], ri_held = [], ri_parked = []\<rparr>"

definition new_share :: account_share where
  "new_share = \<lparr>sh_slots = RECEIVE_QUEUE_PER_ACCOUNT_CAPACITY, sh_bytes = RECEIVE_QUEUE_PER_ACCOUNT_BYTE_CAPACITY\<rparr>"

text \<open>\<open>account_budget\<close>: the key of the share used, the share, and the map after a possible insertion.\<close>

definition account_budget :: "string \<Rightarrow> ingress \<Rightarrow> string \<times> account_share \<times> ingress" where
  "account_budget key st =
     (case map_of (ri_accounts st) key of
        Some sh \<Rightarrow> (key, sh, st)
      | None \<Rightarrow>
          (let key' = (if length (ri_accounts st) < MAX_ACCOUNTS_PER_ENGINE + 1 then key else [])
           in case map_of (ri_accounts st) key' of
                Some sh \<Rightarrow> (key', sh, st)
              | None \<Rightarrow> (key', new_share, st\<lparr>ri_accounts := ri_accounts st @ [(key', new_share)]\<rparr>)))"

definition upd_share ::
    "string \<Rightarrow> (account_share \<Rightarrow> account_share) \<Rightarrow> (string \<times> account_share) list \<Rightarrow> (string \<times> account_share) list" where
  "upd_share key f accts = map (\<lambda>(k, sh). (k, if k = key then f sh else sh)) accts"

definition release_share :: "queued_receive \<Rightarrow> ingress \<Rightarrow> ingress" where
  "release_share q st =
     st\<lparr>ri_accounts :=
          upd_share (q_key q) (\<lambda>sh. \<lparr>sh_slots = sh_slots sh + 1, sh_bytes = sh_bytes sh + q_weight q\<rparr>) (ri_accounts st)\<rparr>"

text \<open>
  \<open>enqueue\<close> up to its first wait: \<open>Some\<close> is its answer, \<open>None\<close> that the receive now waits for the global budget with its
  account's permits in hand.
\<close>

definition enqueue_begin ::
    "(sized \<Rightarrow> nat) \<Rightarrow> (json \<Rightarrow> nat) \<Rightarrow> normalized_receive \<Rightarrow> ingress \<Rightarrow>
     (engine_error + enqueue_outcome) option \<times> ingress" where
  "enqueue_begin sz ser r st =
     (let weight = max (estimated_bytes sz ser r) 1
      in if weight > RECEIVE_QUEUE_BYTE_CAPACITY then (Some (Inl Protocol), st)
         else if weight > RECEIVE_QUEUE_PER_ACCOUNT_BYTE_CAPACITY then (Some (Inr Dropped), st)
         else
           (case account_budget (opt_default [] (nr_account r)) st of
              (key, sh, st') \<Rightarrow>
                if sh_slots sh = 0 \<or> sh_bytes sh < weight then (Some (Inr Dropped), st')
                else (None,
                      st'\<lparr>ri_accounts :=
                            upd_share key (\<lambda>sh. \<lparr>sh_slots = sh_slots sh - 1, sh_bytes = sh_bytes sh - weight\<rparr>)
                              (ri_accounts st'),
                          ri_parked := ri_parked st' @ [(AwaitBytes, \<lparr>q_key = key, q_weight = weight, q_receive = r\<rparr>)]\<rparr>)))"

text \<open>The global byte permits arrive, the send completes, or one of the two waits times out.\<close>

definition enqueue_bytes :: "queued_receive \<Rightarrow> ingress \<Rightarrow> ingress" where
  "enqueue_bytes q st =
     st\<lparr>ri_byte_budget := ri_byte_budget st - q_weight q,
        ri_parked := remove1 (AwaitBytes, q) (ri_parked st) @ [(AwaitSlot, q)]\<rparr>"

definition enqueue_push :: "queued_receive \<Rightarrow> ingress \<Rightarrow> ingress" where
  "enqueue_push q st =
     st\<lparr>ri_queue := ri_queue st @ [q], ri_parked := remove1 (AwaitSlot, q) (ri_parked st)\<rparr>"

definition enqueue_drop :: "park_stage \<Rightarrow> queued_receive \<Rightarrow> ingress \<Rightarrow> ingress" where
  "enqueue_drop stage q st =
     (let st' = release_share q st
      in st'\<lparr>ri_byte_budget := (if stage = AwaitSlot then ri_byte_budget st + q_weight q else ri_byte_budget st),
             ri_parked := remove1 (stage, q) (ri_parked st)\<rparr>)"

definition consumer_recv :: "ingress \<Rightarrow> ingress" where
  "consumer_recv st =
     (case ri_queue st of
        [] \<Rightarrow> st
      | q # qs \<Rightarrow> st\<lparr>ri_queue := qs, ri_held := ri_held st @ [q]\<rparr>)"

definition consumer_done :: "queued_receive \<Rightarrow> ingress \<Rightarrow> ingress" where
  "consumer_done q st =
     (let st' = release_share q st
      in st'\<lparr>ri_byte_budget := ri_byte_budget st + q_weight q, ri_held := remove1 q (ri_held st)\<rparr>)"

inductive ingress_step :: "ingress \<Rightarrow> ingress \<Rightarrow> bool" where
  is_begin: "ingress_step st (snd (enqueue_begin sz ser r st))"
| is_bytes: "(AwaitBytes, q) \<in> set (ri_parked st) \<Longrightarrow> q_weight q \<le> ri_byte_budget st \<Longrightarrow>
             ingress_step st (enqueue_bytes q st)"
| is_push: "(AwaitSlot, q) \<in> set (ri_parked st) \<Longrightarrow> length (ri_queue st) < RECEIVE_QUEUE_CAPACITY \<Longrightarrow>
            ingress_step st (enqueue_push q st)"
| is_drop: "(stage, q) \<in> set (ri_parked st) \<Longrightarrow> ingress_step st (enqueue_drop stage q st)"
| is_recv: "ri_queue st \<noteq> [] \<Longrightarrow> ingress_step st (consumer_recv st)"
| is_done: "q \<in> set (ri_held st) \<Longrightarrow> ingress_step st (consumer_done q st)"

inductive ingress_reach :: "ingress \<Rightarrow> bool" where
  ir_start: "ingress_reach receive_channel"
| ir_step: "ingress_reach st \<Longrightarrow> ingress_step st st' \<Longrightarrow> ingress_reach st'"

section \<open>Permits are exactly the receives that hold them\<close>

definition items :: "ingress \<Rightarrow> queued_receive multiset" where
  "items st = mset (ri_queue st) + mset (ri_held st) + mset (map snd (ri_parked st))"

definition byte_holders :: "ingress \<Rightarrow> queued_receive multiset" where
  "byte_holders st =
     mset (ri_queue st) + mset (ri_held st) + mset (map snd (filter (\<lambda>p. fst p = AwaitSlot) (ri_parked st)))"

definition wsum :: "queued_receive multiset \<Rightarrow> nat" where
  "wsum m = sum_mset (image_mset q_weight m)"

definition of_key :: "string \<Rightarrow> queued_receive multiset \<Rightarrow> queued_receive multiset" where
  "of_key k m = filter_mset (\<lambda>q. q_key q = k) m"

definition share_exact :: "queued_receive multiset \<Rightarrow> string \<times> account_share \<Rightarrow> bool" where
  "share_exact m ks \<longleftrightarrow>
     sh_slots (snd ks) + size (of_key (fst ks) m) = RECEIVE_QUEUE_PER_ACCOUNT_CAPACITY \<and>
     sh_bytes (snd ks) + wsum (of_key (fst ks) m) = RECEIVE_QUEUE_PER_ACCOUNT_BYTE_CAPACITY"

definition ingress_inv :: "ingress \<Rightarrow> bool" where
  "ingress_inv st \<longleftrightarrow>
     ri_byte_budget st + wsum (byte_holders st) = RECEIVE_QUEUE_BYTE_CAPACITY \<and>
     list_all (share_exact (items st)) (ri_accounts st) \<and>
     distinct (map fst (ri_accounts st)) \<and>
     (\<forall>q \<in># items st. q_key q \<in> fst ` set (ri_accounts st)) \<and>
     length (ri_queue st) \<le> RECEIVE_QUEUE_CAPACITY \<and>
     (length (ri_accounts st) \<le> MAX_ACCOUNTS_PER_ENGINE + 1 \<or>
      length (ri_accounts st) = MAX_ACCOUNTS_PER_ENGINE + 2 \<and> [] \<in> fst ` set (ri_accounts st))"

lemma wsum_simps [simp]: "wsum {#} = 0" "wsum (add_mset q m) = q_weight q + wsum m" "wsum (m + n) = wsum m + wsum n"
  by (simp_all add: wsum_def)

lemma of_key_simps [simp]:
  "of_key k {#} = {#}" "of_key k (add_mset q m) = (if q_key q = k then add_mset q (of_key k m) else of_key k m)"
  "of_key k (m + n) = of_key k m + of_key k n"
  by (simp_all add: of_key_def)

lemma upd_share_keys [simp]: "map fst (upd_share k f accts) = map fst accts" "length (upd_share k f accts) = length accts"
  by (induction accts) (auto simp: upd_share_def)

lemma upd_share_fst [simp]: "fst ` set (upd_share k f accts) = fst ` set accts"
  by (metis upd_share_keys(1) list.set_map)

lemma remove1_mset: "x \<in> set xs \<Longrightarrow> mset xs = add_mset x (mset (remove1 x xs))"
  by simp

lemma parked_remove:
  assumes "(stage, q) \<in> set ps"
  shows "mset (map snd ps) = add_mset q (mset (map snd (remove1 (stage, q) ps)))"
    and "mset (map snd (filter (\<lambda>p. fst p = AwaitSlot) ps)) =
         (if stage = AwaitSlot then {#q#} else {#}) +
         mset (map snd (filter (\<lambda>p. fst p = AwaitSlot) (remove1 (stage, q) ps)))"
  using assms by (induction ps) auto

text \<open>An item leaves and its share is released; an item enters and its share is taken.\<close>

lemma release_exact:
  assumes "list_all (share_exact (add_mset q m)) accts"
  shows "list_all (share_exact m)
           (upd_share (q_key q) (\<lambda>sh. \<lparr>sh_slots = sh_slots sh + 1, sh_bytes = sh_bytes sh + q_weight q\<rparr>) accts)"
  using assms by (induction accts) (auto simp: upd_share_def share_exact_def)

lemma take_exact:
  assumes "list_all (share_exact m) accts" and "distinct (map fst accts)" and "map_of accts (q_key q) = Some sh"
    and "sh_slots sh \<noteq> 0" and "q_weight q \<le> sh_bytes sh"
  shows "list_all (share_exact (add_mset q m))
           (upd_share (q_key q) (\<lambda>sh. \<lparr>sh_slots = sh_slots sh - 1, sh_bytes = sh_bytes sh - q_weight q\<rparr>) accts)"
proof -
  have "share_exact (add_mset q m) (k, if k = q_key q then \<lparr>sh_slots = sh_slots s - 1, sh_bytes = sh_bytes s - q_weight q\<rparr> else s)"
    if "(k, s) \<in> set accts" for k s
  proof -
    have ex: "share_exact m (k, s)" using assms(1) that by (simp add: list_all_iff)
    show ?thesis
    proof (cases "k = q_key q")
      case True
      then have "s = sh" using that assms(2,3) by simp
      then show ?thesis using True ex assms(4,5) by (auto simp: share_exact_def)
    qed (use ex in \<open>simp add: share_exact_def\<close>)
  qed
  then show ?thesis by (auto simp: upd_share_def list_all_iff simp del: One_nat_def split del: if_split)
qed

lemma mset_in_remove: "q \<in> set xs \<Longrightarrow> mset xs = add_mset q (mset (remove1 q xs))"
  by simp

text \<open>What the share lookup leaves: the key has a share, every share is still exact, the map is within its cap.\<close>

lemma account_budget_keeps:
  assumes inv: "ingress_inv st" and ab: "account_budget key st = (key', sh, st')"
  shows "ingress_inv st'" and "map_of (ri_accounts st') key' = Some sh"
    and "st'\<lparr>ri_accounts := x\<rparr> = st\<lparr>ri_accounts := x\<rparr>"
proof -
  consider (same) "st' = st" "map_of (ri_accounts st) key' = Some sh"
    | (added) "st' = st\<lparr>ri_accounts := ri_accounts st @ [(key', new_share)]\<rparr>" "map_of (ri_accounts st) key' = None"
        "sh = new_share" "length (ri_accounts st) < MAX_ACCOUNTS_PER_ENGINE + 1 \<or> key' = []"
    using ab by (auto simp: account_budget_def Let_def split: option.splits if_splits)
  then have "ingress_inv st' \<and> map_of (ri_accounts st') key' = Some sh \<and> st'\<lparr>ri_accounts := x\<rparr> = st\<lparr>ri_accounts := x\<rparr>"
  proof cases
    case added
    have absent: "key' \<notin> fst ` set (ri_accounts st)" using added(2) by (simp add: map_of_eq_None_iff)
    then have empty: "of_key key' (items st) = {#}"
      using inv by (auto simp: ingress_inv_def of_key_def filter_mset_eq_mempty_iff)
    have len: "length (ri_accounts st) < MAX_ACCOUNTS_PER_ENGINE + 1 \<or>
               length (ri_accounts st) = MAX_ACCOUNTS_PER_ENGINE + 1 \<and> key' = []"
      using added(4) absent inv by (auto simp: ingress_inv_def)
    have "list_all (share_exact (items st)) (ri_accounts st')"
      using inv empty by (simp add: ingress_inv_def added(1) share_exact_def new_share_def)
    moreover have "items st' = items st" "byte_holders st' = byte_holders st"
      by (simp_all add: added(1) items_def byte_holders_def)
    ultimately have "ingress_inv st'"
      using inv absent len by (auto simp: ingress_inv_def added(1))
    then show ?thesis using added absent by (simp add: map_add_def)
  qed (use inv in simp)
  then show "ingress_inv st'" "map_of (ri_accounts st') key' = Some sh"
    "st'\<lparr>ri_accounts := x\<rparr> = st\<lparr>ri_accounts := x\<rparr>" by simp_all
qed

lemma enqueue_begin_keeps:
  assumes inv: "ingress_inv st"
  shows "ingress_inv (snd (enqueue_begin sz ser r st))"
proof -
  define w where "w = max (estimated_bytes sz ser r) 1"
  obtain key sh st' where ab: "account_budget (opt_default [] (nr_account r)) st = (key, sh, st')"
    by (cases "account_budget (opt_default [] (nr_account r)) st")
  note k = account_budget_keeps(1,2) [OF inv ab]
  define q where "q = \<lparr>q_key = key, q_weight = w, q_receive = r\<rparr>"
  define t where "t = st'\<lparr>ri_accounts :=
      upd_share key (\<lambda>sh. \<lparr>sh_slots = sh_slots sh - 1, sh_bytes = sh_bytes sh - w\<rparr>) (ri_accounts st'),
      ri_parked := ri_parked st' @ [(AwaitBytes, q)]\<rparr>"
  have taken: "ingress_inv t" if room: "sh_slots sh \<noteq> 0" "w \<le> sh_bytes sh"
  proof -
    have its: "items t = add_mset q (items st')" "byte_holders t = byte_holders st'"
      by (simp_all add: t_def items_def byte_holders_def)
    have "list_all (share_exact (add_mset q (items st'))) (ri_accounts t)"
      using take_exact [of "items st'" "ri_accounts st'" q sh] k room
      by (simp add: q_def t_def ingress_inv_def)
    moreover have "key \<in> fst ` set (ri_accounts st')"
      using k(2) by (metis map_of_eq_None_iff option.distinct(1))
    ultimately show ?thesis using k(1) its by (auto simp: ingress_inv_def t_def q_def)
  qed
  have "snd (enqueue_begin sz ser r st) \<in> {st, st'} \<or>
        snd (enqueue_begin sz ser r st) = t \<and> sh_slots sh \<noteq> 0 \<and> w \<le> sh_bytes sh"
    by (auto simp: enqueue_begin_def ab Let_def t_def q_def w_def)
  then show ?thesis using inv k(1) taken by auto
qed

lemma release_keeps:
  assumes inv: "ingress_inv st" and its: "items st = add_mset q (items t)"
    and bytes: "ri_byte_budget t + wsum (byte_holders t) = RECEIVE_QUEUE_BYTE_CAPACITY"
    and accts: "ri_accounts t = ri_accounts (release_share q st)" and qu: "length (ri_queue t) \<le> length (ri_queue st)"
  shows "ingress_inv t"
  using inv its bytes accts qu release_exact [of q "items t" "ri_accounts st"]
  by (auto simp: ingress_inv_def release_share_def)

lemma ingress_step_keeps:
  assumes step: "ingress_step st st'" and inv: "ingress_inv st"
  shows "ingress_inv st'"
  using step inv
proof cases
  case (is_begin sz ser r)
  then show ?thesis using enqueue_begin_keeps [OF inv] by simp
next
  case (is_bytes q)
  have "items st' = items st" "byte_holders st' = add_mset q (byte_holders st)"
    using parked_remove [OF is_bytes(2)] by (simp_all add: is_bytes(1) enqueue_bytes_def items_def byte_holders_def)
  then show ?thesis using inv is_bytes(3) by (auto simp: ingress_inv_def is_bytes(1) enqueue_bytes_def)
next
  case (is_push q)
  have "items st' = items st" "byte_holders st' = byte_holders st"
    using parked_remove [OF is_push(2)] by (simp_all add: is_push(1) enqueue_push_def items_def byte_holders_def)
  then show ?thesis using inv is_push(3) by (auto simp: ingress_inv_def is_push(1) enqueue_push_def)
next
  case (is_drop stage q)
  have "items st = add_mset q (items st')"
    "byte_holders st = (if stage = AwaitSlot then {#q#} else {#}) + byte_holders st'"
    using parked_remove [OF is_drop(2)]
    by (simp_all add: is_drop(1) enqueue_drop_def Let_def release_share_def items_def byte_holders_def)
  then show ?thesis using inv
    by (intro release_keeps [OF inv, of q])
      (auto simp: ingress_inv_def is_drop(1) enqueue_drop_def Let_def release_share_def)
next
  case is_recv
  then obtain q qs where "ri_queue st = q # qs" by (cases "ri_queue st") auto
  then have "items st' = items st" "byte_holders st' = byte_holders st" "ri_accounts st' = ri_accounts st"
    "ri_byte_budget st' = ri_byte_budget st" "length (ri_queue st') \<le> length (ri_queue st)"
    by (simp_all add: is_recv(1) consumer_recv_def items_def byte_holders_def)
  then show ?thesis using inv by (auto simp: ingress_inv_def)
next
  case (is_done q)
  have "items st = add_mset q (items st')" "byte_holders st = add_mset q (byte_holders st')"
    using is_done(2)
    by (simp_all add: is_done(1) consumer_done_def Let_def release_share_def items_def byte_holders_def)
  then show ?thesis using inv
    by (intro release_keeps [OF inv, of q])
      (auto simp: ingress_inv_def is_done(1) consumer_done_def Let_def release_share_def)
qed

lemma ingress_reach_inv: "ingress_reach st \<Longrightarrow> ingress_inv st"
proof (induction rule: ingress_reach.induct)
  case ir_start
  then show ?case by (simp add: ingress_inv_def receive_channel_def items_def byte_holders_def)
qed (rule ingress_step_keeps)


section \<open>The admission of a receive line\<close>

text \<open>
  \<open>normalize_receive(params)?\<close> followed by \<open>enqueue(normalized)\<close> up to its first wait: the answer \<open>handle_receive\<close> goes
  on with, or \<open>None\<close> while the receive is parked. A parked receive is answered \<open>Enqueued\<close> or \<open>Dropped\<close>.
\<close>

definition receive_admission ::
    "(sized \<Rightarrow> nat) \<Rightarrow> (json \<Rightarrow> nat) \<Rightarrow> json \<Rightarrow> ingress \<Rightarrow>
     (engine_error + enqueue_outcome option) option \<times> ingress" where
  "receive_admission sz ser params st =
     (case normalize_receive ser params of
        None \<Rightarrow> (Some (Inl Protocol), st)
      | Some None \<Rightarrow> (Some (Inr None), st)
      | Some (Some r) \<Rightarrow>
          (case enqueue_begin sz ser r st of
             (None, st') \<Rightarrow> (None, st')
           | (Some (Inl e), st') \<Rightarrow> (Some (Inl e), st')
           | (Some (Inr out), st') \<Rightarrow> (Some (Inr (Some out)), st')))"

fun parked_answer :: "(engine_error + enqueue_outcome option) option \<Rightarrow> engine_error + enqueue_outcome option \<Rightarrow> bool" where
  "parked_answer (Some a) b \<longleftrightarrow> b = a"
| "parked_answer None b \<longleftrightarrow> b = Inr (Some Enqueued) \<or> b = Inr (Some Dropped)"

definition receive_line :: "json \<Rightarrow> json" where
  "receive_line params =
     JObj [(''jsonrpc'', JStr ''2.0''), (''method'', JStr ''receive''), (''params'', params)]"

lemma id_bytes:
  assumes "pred_option str_ok x" and "\<And>i. x = Some i \<Longrightarrow> char_count i \<le> MAX_RECEIVE_ID_CHARS"
  shows "len_opt x \<le> 512"
proof (cases x)
  case (Some i)
  then show ?thesis
    using str_ok_length [of i] assms by (simp add: len_opt_def MAX_RECEIVE_ID_CHARS_def)
qed (simp add: len_opt_def)

lemma normalize_receive_ids:
  assumes "normalize_receive ser params = Some (Some r)"
  shows "normalize_receive_fields ser params = Some r" and "\<not> oversized_id r"
  using assms by (auto simp: normalize_receive_def split: option.splits if_splits)

lemma weight_bound:
  assumes "json_ok params" and "layout_ok sz" and norm: "normalize_receive ser params = Some (Some r)"
    and "\<And>c. nr_control r = Some c \<Longrightarrow> \<not> unbounded_face c"
  shows "estimated_bytes sz ser r \<le>
           (case nr_control r of Some c \<Rightarrow> if is_contact_list c then 1000000 else 460000 | None \<Rightarrow> 460000)"
proof -
  note n = normalize_receive_ids [OF norm]
  have sh: "shape_ok sz ser r" by (rule normalize_fields_shape [OF assms(1,2) n(1)])
  have ids: "len_opt (nr_account r) \<le> 512" "len_opt (nr_source r) \<le> 512" "len_opt (nr_source_uuid r) \<le> 512"
    "len_opt (nr_group_id r) \<le> 512"
    using sh n(2) by (auto simp: shape_ok_def oversized_id_def intro!: id_bytes)
  have "sz SzReceive \<le> 4096" by (rule layout_bound [OF assms(2)])
  then show ?thesis
    using ids sh assms(4)
    by (cases "nr_control r") (auto simp: shape_ok_def estimated_bytes_def control_fits_def split: if_splits)
qed


lemma receive_line_effect:
  "handle_receive params adm d = Inr x \<Longrightarrow> le_ok (handle_upstream_line (Some (receive_line params)) adm p d)"
  "handle_receive params adm d = Inl e \<Longrightarrow> \<not> le_ok (handle_upstream_line (Some (receive_line params)) adm p d)"
  by (cases x) (simp_all add: handle_upstream_line_def receive_line_def get_str_def get_field_def json_get_def is_object_def)

lemma map_filter_replicate: "f x = Some y \<Longrightarrow> List.map_filter f (replicate n x) = replicate n y"
  by (induction n) simp_all

lemma delete_sync_weight:
  assumes "nr_control r = Some (SyncDeleteForMe d)"
  shows "256 * sum_list (map (\<lambda>g. length (sdg_messages g)) (dfm_groups d)) \<le> estimated_bytes sz ser r"
proof -
  have "256 * sum_list (map (\<lambda>g. length (sdg_messages g)) gs) \<le>
        sum_list (map (\<lambda>g. sz SzDeleteGroup + len_opt (sdg_conversation_id g) +
                          length (sdg_messages g) * (2 * MAX_RECEIVE_ID_CHARS + sz SzDeleteEntry)) gs)" for gs
    by (induction gs) (auto simp: MAX_RECEIVE_ID_CHARS_def algebra_simps)
  from this [of "dfm_groups d"] show ?thesis
    unfolding estimated_bytes_def assms by (simp add: budget_bytes_def Let_def)
qed

section \<open>Properties\<close>

text \<open>
  C7. The caps of the receive ladder bound the weight of what it normalises. A receive that the queue refuses as a
  protocol error (heavier than the whole byte capacity) is a delete-for-me sync, a story recipient update or a story
  sync; one that it drops outright (heavier than one account's share) is one of these or a contact list.
\<close>

theorem receive_weight_classes:
  assumes "json_ok params" and "layout_ok sz" and "normalize_receive ser params = Some (Some r)"
  shows "(estimated_bytes sz ser r > RECEIVE_QUEUE_BYTE_CAPACITY \<longrightarrow>
           (\<exists>c. nr_control r = Some c \<and> unbounded_face c)) \<and>
         (estimated_bytes sz ser r > RECEIVE_QUEUE_PER_ACCOUNT_BYTE_CAPACITY \<longrightarrow>
           (\<exists>c. nr_control r = Some c \<and> (unbounded_face c \<or> is_contact_list c)))"
proof (cases "\<exists>c. nr_control r = Some c \<and> unbounded_face c")
  case False
  then have "estimated_bytes sz ser r \<le>
      (case nr_control r of Some c \<Rightarrow> if is_contact_list c then 1000000 else 460000 | None \<Rightarrow> 460000)"
    by (intro weight_bound [OF assms]) auto
  then show ?thesis by (cases "nr_control r") (auto simp: queue_caps split: if_splits)
qed auto

definition plain_params :: json where
  "plain_params = JObj [(''account'', JStr ''+1''), (''envelope'', JObj [(''timestamp'', JNum (PosInt 7))])]"

definition plain_receive :: normalized_receive where
  "plain_receive =
     \<lparr>nr_required_protocol_version = None, nr_timestamp = Some 7, nr_content_kind = ''other'', nr_direction = ''skip'',
      nr_account_present = True, nr_account = Some ''+1'', nr_source = None, nr_source_uuid = None, nr_peer_name = None,
      nr_group_id = None, nr_text = None, nr_text_bytes = None, nr_text_truncated = False, nr_quote = None,
      nr_attachments = [], nr_rich = None, nr_sticker = None, nr_control = None, nr_expire_seconds = None,
      nr_expire_start_at = None, nr_server_guid = None, nr_server_timestamp = None, nr_reporting_token = None\<rparr>"

lemma plain_normalized: "normalize_receive ser plain_params = Some (Some plain_receive)"
  by code_simp

text \<open>
  C5. The permits of the receive queue are exactly the receives that hold them, in every interleaving of the engines'
  admissions, the consumer and the timeouts: the free bytes and the weights of the receives that hold global bytes make
  up the capacity, every account's free slots and bytes and its receives make up its share. So at most 256 receives are
  queued, at most 2 MiB are admitted, no key holds more than 64 receives or 512 KiB, and there are at most ten shares.
\<close>

theorem receive_queue_permits_exact:
  assumes "ingress_reach st"
  shows "ri_byte_budget st + wsum (byte_holders st) = RECEIVE_QUEUE_BYTE_CAPACITY \<and>
         list_all (share_exact (items st)) (ri_accounts st) \<and>
         length (ri_queue st) \<le> RECEIVE_QUEUE_CAPACITY \<and>
         (\<forall>k. size (of_key k (items st)) \<le> RECEIVE_QUEUE_PER_ACCOUNT_CAPACITY \<and>
              wsum (of_key k (items st)) \<le> RECEIVE_QUEUE_PER_ACCOUNT_BYTE_CAPACITY) \<and>
         length (ri_accounts st) \<le> MAX_ACCOUNTS_PER_ENGINE + 2"
proof -
  have inv: "ingress_inv st" by (rule ingress_reach_inv [OF assms])
  have "size (of_key k (items st)) \<le> RECEIVE_QUEUE_PER_ACCOUNT_CAPACITY \<and>
        wsum (of_key k (items st)) \<le> RECEIVE_QUEUE_PER_ACCOUNT_BYTE_CAPACITY" for k
  proof (cases "k \<in> fst ` set (ri_accounts st)")
    case True
    then obtain sh where "(k, sh) \<in> set (ri_accounts st)" by auto
    then have "share_exact (items st) (k, sh)" using inv by (simp add: ingress_inv_def list_all_iff)
    then show ?thesis by (auto simp: share_exact_def)
  next
    case False
    then have "of_key k (items st) = {#}"
      using inv by (auto simp: ingress_inv_def of_key_def filter_mset_eq_mempty_iff)
    then show ?thesis by simp
  qed
  then show ?thesis using inv by (auto simp: ingress_inv_def)
qed

text \<open>
  An account that keeps within its own share is never refused because of another one: in every reachable state a
  receive that fits the share of its account passes to the wait for the global budget, whatever the other accounts hold.
\<close>

lemma flooded_account_stands_alone:
  assumes "ingress_reach st" and "nr_account r = Some a" and "a \<in> fst ` set (ri_accounts st)"
    and "size (of_key a (items st)) < RECEIVE_QUEUE_PER_ACCOUNT_CAPACITY"
    and "max (estimated_bytes sz ser r) 1 + wsum (of_key a (items st)) \<le> RECEIVE_QUEUE_PER_ACCOUNT_BYTE_CAPACITY"
  shows "fst (enqueue_begin sz ser r st) = None"
proof -
  have inv: "ingress_inv st" by (rule ingress_reach_inv [OF assms(1)])
  obtain sh where sh: "map_of (ri_accounts st) a = Some sh"
    using assms(3) by (metis map_of_eq_None_iff not_None_eq)
  then have "share_exact (items st) (a, sh)"
    using inv by (auto simp: ingress_inv_def list_all_iff dest: map_of_SomeD)
  then have "sh_slots sh \<noteq> 0" "max (estimated_bytes sz ser r) 1 \<le> sh_bytes sh"
    using assms(4,5) by (auto simp: share_exact_def)
  moreover have "max (estimated_bytes sz ser r) 1 \<le> RECEIVE_QUEUE_PER_ACCOUNT_BYTE_CAPACITY" using assms(5) by linarith
  ultimately show ?thesis
    using sh assms(2) by (auto simp: enqueue_begin_def account_budget_def Let_def opt_default_def queue_caps)
qed

text \<open>
  C20. No wait of the receive queue is a deadlock: in every reachable state with a parked receive some step other than a
  timeout is enabled. The consumer has a receive to take or to finish, or a parked receive gets its bytes or its slot.
\<close>

theorem parked_receive_can_move:
  assumes "ingress_reach st" and "ri_parked st \<noteq> []"
  shows "ri_queue st \<noteq> [] \<or> ri_held st \<noteq> [] \<or>
         (\<exists>q. (AwaitBytes, q) \<in> set (ri_parked st) \<and> q_weight q \<le> ri_byte_budget st) \<or>
         (\<exists>q. (AwaitSlot, q) \<in> set (ri_parked st) \<and> length (ri_queue st) < RECEIVE_QUEUE_CAPACITY)"
proof (rule ccontr)
  assume stuck: "\<not> ?thesis"
  have inv: "ingress_inv st" by (rule ingress_reach_inv [OF assms(1)])
  have none: "\<forall>p \<in> set (ri_parked st). fst p \<noteq> AwaitSlot" using stuck by (auto simp: queue_caps)
  obtain q where q: "(AwaitBytes, q) \<in> set (ri_parked st)"
    using assms(2) none by (cases "ri_parked st") (auto, metis park_stage.exhaust)
  have "byte_holders st = {#}" using stuck none by (simp add: byte_holders_def filter_False)
  then have "ri_byte_budget st = RECEIVE_QUEUE_BYTE_CAPACITY" using inv by (simp add: ingress_inv_def)
  moreover have "q_weight q \<le> RECEIVE_QUEUE_PER_ACCOUNT_BYTE_CAPACITY"
  proof -
    have mem: "q \<in># items st" using q by (force simp: items_def)
    then obtain sh where "(q_key q, sh) \<in> set (ri_accounts st)" using inv by (auto simp: ingress_inv_def)
    then have "wsum (of_key (q_key q) (items st)) \<le> RECEIVE_QUEUE_PER_ACCOUNT_BYTE_CAPACITY"
      using inv by (auto simp: ingress_inv_def list_all_iff share_exact_def)
    moreover obtain m where "items st = add_mset q m" using mem by (metis multi_member_split)
    ultimately show ?thesis by simp
  qed
  ultimately show False using stuck q by (auto simp: queue_caps)
qed


text \<open>
  C8. A delete-for-me sync that passes every cap of the ladder (at most 64 groups of at most 256 messages) but keeps more
  than 8192 messages weighs more than the queue's byte capacity: the admission is a protocol error and the line breaks
  the engine's actor as faulted, which the guard on oversized identifiers is there to prevent for other receives.
\<close>

theorem delete_sync_faults_engine:
  assumes "normalize_receive ser params = Some (Some r)" and "nr_control r = Some (SyncDeleteForMe d)"
    and "8192 < sum_list (map (\<lambda>g. length (sdg_messages g)) (dfm_groups d))"
    and "get_field (get_field (Some params) ''envelope'') ''identityChanged'' = None"
    and "get_field (get_field (Some params) ''envelope'') ''decryptionError'' = None"
    and "es_actor s = Looping"
  shows "receive_admission sz ser params st = (Some (Inl Protocol), st) \<and>
         es_actor (actor_line (Some (receive_line params)) (Inl Protocol) s) = Broken StateFaulted"
proof -
  have "RECEIVE_QUEUE_BYTE_CAPACITY < max (estimated_bytes sz ser r) 1"
    using delete_sync_weight [OF assms(2), of sz ser] assms(3) by (simp add: queue_caps)
  then have "receive_admission sz ser params st = (Some (Inl Protocol), st)"
    by (simp add: receive_admission_def assms(1) enqueue_begin_def)
  moreover have "handle_receive params (Inl Protocol) d = Inl Protocol" for d
    using assms(4,5) by (simp add: handle_receive_def)
  then have "\<not> le_ok (handle_upstream_line (Some (receive_line params)) (Inl Protocol) p d)" for p d
    by (rule receive_line_effect(2))
  ultimately show ?thesis using assms(6) by (simp add: actor_line_def Let_def)
qed

section \<open>Witnesses\<close>

lemma plain_json_ok: "json_ok plain_params"
  by code_simp

theorem receive_weight_classes_witness:
  "json_ok plain_params \<and> layout_ok (\<lambda>_. 512) \<and> normalize_receive (\<lambda>_. 0) plain_params = Some (Some plain_receive) \<and>
   estimated_bytes (\<lambda>_. 512) (\<lambda>_. 0) plain_receive \<le> RECEIVE_QUEUE_PER_ACCOUNT_BYTE_CAPACITY"
proof -
  have lay: "layout_ok (\<lambda>_. 512)" by (simp add: layout_ok_def)
  have "nr_control plain_receive = None" by (simp add: plain_receive_def)
  then show ?thesis
    using receive_weight_classes [OF plain_json_ok lay plain_normalized [of "\<lambda>_. 0"]] plain_json_ok lay plain_normalized
    by (auto simp: not_less)
qed

text \<open>One receive of account \<open>+1\<close> that waits for the global budget.\<close>

definition plain_queued :: queued_receive where
  "plain_queued = \<lparr>q_key = ''+1'', q_weight = 2, q_receive = plain_receive\<rparr>"

definition one_parked :: ingress where
  "one_parked =
     \<lparr>ri_byte_budget = 2 * 1024 * 1024, ri_accounts = [(''+1'', \<lparr>sh_slots = 63, sh_bytes = 512 * 1024 - 2\<rparr>)],
      ri_queue = [], ri_held = [], ri_parked = [(AwaitBytes, plain_queued)]\<rparr>"

lemma plain_weight: "estimated_bytes (\<lambda>_. 0) ser plain_receive = 2"
  by (simp add: estimated_bytes_def body_bytes_def plain_receive_def len_opt_def)

lemma one_parked_begin: "snd (enqueue_begin (\<lambda>_. 0) (\<lambda>_. 0) plain_receive receive_channel) = one_parked"
  by (simp add: enqueue_begin_def plain_weight Let_def account_budget_def receive_channel_def queue_caps new_share_def
      upd_share_def one_parked_def plain_queued_def opt_default_def MAX_ACCOUNTS_PER_ENGINE_def)
    (simp add: plain_receive_def)

lemma one_parked_step: "ingress_step receive_channel one_parked"
  using is_begin [of receive_channel "\<lambda>_. 0" "\<lambda>_. 0" plain_receive] by (simp add: one_parked_begin)

lemma one_parked_reach: "ingress_reach one_parked"
  by (rule ir_step [OF ir_start one_parked_step])

lemma one_parked_items: "items one_parked = {#plain_queued#}" "byte_holders one_parked = {#}"
  by (simp_all add: items_def byte_holders_def one_parked_def)

theorem receive_queue_permits_exact_witness:
  "ingress_reach one_parked \<and> items one_parked = {#plain_queued#} \<and>
   list_all (share_exact (items one_parked)) (ri_accounts one_parked)"
  using receive_queue_permits_exact [OF one_parked_reach] one_parked_reach one_parked_items by blast

theorem parked_receive_can_move_witness:
  "ingress_reach one_parked \<and> (AwaitBytes, plain_queued) \<in> set (ri_parked one_parked) \<and>
   q_weight plain_queued \<le> ri_byte_budget one_parked"
  using parked_receive_can_move [OF one_parked_reach] one_parked_reach by (auto simp: one_parked_def)


text \<open>A delete-for-me sync of 64 groups with 256 messages each.\<close>

definition delete_message :: json where
  "delete_message = JObj [(''author'', JStr ''a''), (''timestamp'', JNum (PosInt 1))]"

definition delete_group :: json where
  "delete_group = JObj [(''messages'', JArr (replicate 256 delete_message))]"

definition delete_face :: json where
  "delete_face = JObj [(''messageDeletes'', JArr (replicate 64 delete_group))]"

definition delete_params :: json where
  "delete_params = JObj [(''envelope'', JObj [(''syncMessage'', JObj [(''deleteForMe'', delete_face)])])]"

definition deleted_groups :: "sync_delete_group list" where
  "deleted_groups =
     replicate 64 \<lparr>sdg_conversation_id = None, sdg_messages = replicate 256 \<lparr>sde_author = ''a'', sde_timestamp = 1\<rparr>\<rparr>"

lemma delete_group_kept:
  "sync_delete_group_of delete_group =
     Some \<lparr>sdg_conversation_id = None, sdg_messages = replicate 256 \<lparr>sde_author = ''a'', sde_timestamp = 1\<rparr>\<rparr>"
proof -
  have "sync_delete_entry_of delete_message = Some \<lparr>sde_author = ''a'', sde_timestamp = 1\<rparr>" by code_simp
  then show ?thesis
    by (simp add: sync_delete_group_of_def delete_group_def normalized_sync_delete_entries_def map_filter_replicate
        MAX_SYNC_DELETE_GROUP_MESSAGES_def bounded_id_def o_str_def bounded_def trimmed_def opt_filter_def)
qed

lemma delete_face_kept:
  "normalized_sync_delete_for_me (Some delete_face) =
     \<lparr>dfm_groups = deleted_groups, dfm_conversations = [], dfm_local_only_conversations = [], dfm_attachments = []\<rparr>"
  by (simp add: normalized_sync_delete_for_me_def normalized_sync_delete_groups_def face_array_def delete_face_def
      json_get_def opt_default_def MAX_SYNC_DELETE_GROUPS_def map_filter_replicate delete_group_kept deleted_groups_def
      normalized_sync_delete_conversations_def normalized_sync_local_only_conversations_def
      normalized_sync_delete_attachments_def)

lemma delete_routed:
  "control_routing_of ser [(''syncMessage'', JObj [(''deleteForMe'', delete_face)])] =
     Some (routed None None (SyncDeleteForMe
       \<lparr>dfm_groups = deleted_groups, dfm_conversations = [], dfm_local_only_conversations = [], dfm_attachments = []\<rparr>))"
  by (simp add: control_routing_of_def o_obj_def group_rungs_def sync_rungs_def Let_def rung_def delete_face_kept
      normalized_sync_read_entries_def delete_for_me_is_empty_def deleted_groups_def)


lemma delete_normalized:
  "\<exists>r. normalize_receive ser delete_params = Some (Some r) \<and>
       nr_control r = Some (SyncDeleteForMe
         \<lparr>dfm_groups = deleted_groups, dfm_conversations = [], dfm_local_only_conversations = [], dfm_attachments = []\<rparr>)"
  by (simp add: normalize_receive_def normalize_receive_fields_def delete_params_def json_get_def opt_default_def Let_def
      delete_routed oversized_id_def make_receive_def receive_base_def routed_def o_str_def trimmed_def opt_filter_def)

theorem delete_sync_faults_engine_witness:
  "receive_admission (\<lambda>_. 0) (\<lambda>_. 0) delete_params receive_channel = (Some (Inl Protocol), receive_channel) \<and>
   es_actor (actor_line (Some (receive_line delete_params)) (Inl Protocol) engine_started) = Broken StateFaulted"
proof -
  obtain r where r: "normalize_receive (\<lambda>_. 0) delete_params = Some (Some r)"
    "nr_control r = Some (SyncDeleteForMe
       \<lparr>dfm_groups = deleted_groups, dfm_conversations = [], dfm_local_only_conversations = [], dfm_attachments = []\<rparr>)"
    using delete_normalized by blast
  show ?thesis
    by (rule delete_sync_faults_engine [OF r])
      (simp_all add: deleted_groups_def sum_list_replicate get_field_def delete_params_def json_get_def engine_started_def)
qed

end
