(* ===== verification/Receive_Persist.thy ===== *)
theory Receive_Persist
  imports Receive_Ingress
begin

text \<open>
  The consumer of the receive queue, \<open>receive_persistence_loop\<close> of \<open>src/supervisor.rs\<close>, together with the queue. The store
  transaction of one attempt (\<open>ingest_receive\<close>) answers as an argument: an error, or the host events of the landed
  receive. \<open>ps_pushed\<close> and \<open>ps_landed\<close> record the receives in the order they entered the queue and in the order they were
  stored.
\<close>

definition RECEIVE_STORE_RETRY_MIN :: nat where "RECEIVE_STORE_RETRY_MIN = 100"
definition RECEIVE_STORE_RETRY_MAX :: nat where "RECEIVE_STORE_RETRY_MAX = 5000"
definition GOVERNOR_INBOUND_MESSAGE_INTERVAL :: nat where "GOVERNOR_INBOUND_MESSAGE_INTERVAL = 200"
definition DELIVERY_RECEIPT_QUEUE_CAP :: nat where "DELIVERY_RECEIPT_QUEUE_CAP = 512"

text \<open>The host events the loop looks at or sends: an upserted message by its direction, the storage state, the rest.\<close>

datatype host_event = MessageUpserted string | StorageState string | OtherHostEvent string

record delivery_receipt_job =
  dj_account :: string
  dj_recipient :: string
  dj_timestamp :: nat

definition delivery_receipt_job_of :: "normalized_receive \<Rightarrow> host_event list \<Rightarrow> delivery_receipt_job option" where
  "delivery_receipt_job_of r events =
     (if nr_direction r \<noteq> ''incoming'' \<or> nr_content_kind r \<noteq> ''dataMessage'' then None
      else if \<not> list_ex (\<lambda>e. e = MessageUpserted ''incoming'') events then None
      else do {
        account \<leftarrow> nr_account r;
        recipient \<leftarrow> nr_source r;
        timestamp \<leftarrow> nr_timestamp r;
        Some \<lparr>dj_account = account, dj_recipient = recipient, dj_timestamp = timestamp\<rparr>
      })"

record persist =
  ps_ingress :: ingress
  ps_current :: "(queued_receive \<times> nat) option"
  ps_unavailable :: bool
  ps_inbound :: nat
  ps_governor_passes :: nat
  ps_evidence :: nat
  ps_host :: "host_event list"
  ps_receipts :: "delivery_receipt_job list"
  ps_pushed :: "queued_receive list"
  ps_landed :: "queued_receive list"

definition persist_started :: persist where
  "persist_started =
     \<lparr>ps_ingress = receive_channel, ps_current = None, ps_unavailable = False, ps_inbound = 0, ps_governor_passes = 0,
      ps_evidence = 0, ps_host = [], ps_receipts = [], ps_pushed = [], ps_landed = []\<rparr>"

text \<open>\<open>receives.recv()\<close>: the loop takes the head of the queue when it is done with the one before.\<close>

definition persist_recv :: "persist \<Rightarrow> persist" where
  "persist_recv s =
     (case (ps_current s, ri_queue (ps_ingress s)) of
        (None, q # _) \<Rightarrow>
          s\<lparr>ps_ingress := consumer_recv (ps_ingress s), ps_current := Some (q, RECEIVE_STORE_RETRY_MIN),
            ps_evidence := ps_evidence s + 1\<rparr>
      | _ \<Rightarrow> s)"

text \<open>An attempt fails: the outage is reported once and the delay doubles up to its cap.\<close>

definition persist_failed :: "persist \<Rightarrow> persist" where
  "persist_failed s =
     (case ps_current s of
        None \<Rightarrow> s
      | Some (q, delay) \<Rightarrow>
          s\<lparr>ps_host := ps_host s @ (if ps_unavailable s then [] else [StorageState ''unavailable'']),
            ps_unavailable := True, ps_current := Some (q, min (delay * 2) RECEIVE_STORE_RETRY_MAX)\<rparr>)"

text \<open>The governor's counter: \<open>governed\<close> says whether the loop has a governor.\<close>

definition count_inbound :: "bool \<Rightarrow> normalized_receive \<Rightarrow> persist \<Rightarrow> persist" where
  "count_inbound governed r s =
     (if governed \<and> nr_direction r = ''incoming'' then
        if ps_inbound s + 1 \<ge> GOVERNOR_INBOUND_MESSAGE_INTERVAL
        then s\<lparr>ps_inbound := 0, ps_governor_passes := ps_governor_passes s + 1\<rparr>
        else s\<lparr>ps_inbound := ps_inbound s + 1\<rparr>
      else s)"

definition try_send_receipt :: "delivery_receipt_job option \<Rightarrow> persist \<Rightarrow> persist" where
  "try_send_receipt job s =
     (case job of
        Some j \<Rightarrow> if length (ps_receipts s) < DELIVERY_RECEIPT_QUEUE_CAP then s\<lparr>ps_receipts := ps_receipts s @ [j]\<rparr> else s
      | None \<Rightarrow> s)"

definition persist_landed :: "bool \<Rightarrow> host_event list \<Rightarrow> persist \<Rightarrow> persist" where
  "persist_landed governed events s =
     (case ps_current s of
        None \<Rightarrow> s
      | Some (q, delay) \<Rightarrow>
          let s1 = s\<lparr>ps_host := ps_host s @ events @ (if ps_unavailable s then [StorageState ''recovered''] else []),
                     ps_unavailable := False\<rparr>;
              s2 = count_inbound governed (q_receive q) s1;
              s3 = try_send_receipt (delivery_receipt_job_of (q_receive q) events) s2
          in s3\<lparr>ps_ingress := consumer_done q (ps_ingress s3), ps_current := None, ps_landed := ps_landed s3 @ [q]\<rparr>)"

text \<open>
  The engines' side of the queue is every step of \<open>ingress_step\<close> that leaves what the consumer holds alone and only adds
  to the queue; the receipt worker takes jobs from the front.
\<close>

inductive persist_step :: "bool \<Rightarrow> persist \<Rightarrow> persist \<Rightarrow> bool" for governed where
  pk_engine: "ingress_step (ps_ingress s) i \<Longrightarrow> ri_held i = ri_held (ps_ingress s) \<Longrightarrow> ri_queue i = ri_queue (ps_ingress s) @ qs \<Longrightarrow>
              persist_step governed s (s\<lparr>ps_ingress := i, ps_pushed := ps_pushed s @ qs\<rparr>)"
| pk_recv: "persist_step governed s (persist_recv s)"
| pk_failed: "persist_step governed s (persist_failed s)"
| pk_landed: "list_all (\<lambda>e. \<forall>st. e \<noteq> StorageState st) events \<Longrightarrow> persist_step governed s (persist_landed governed events s)"
| pk_receipt: "persist_step governed s (s\<lparr>ps_receipts := tl (ps_receipts s)\<rparr>)"

inductive persist_reach :: "bool \<Rightarrow> persist \<Rightarrow> bool" for governed where
  pr_start: "persist_reach governed persist_started"
| pr_step: "persist_reach governed s \<Longrightarrow> persist_step governed s s' \<Longrightarrow> persist_reach governed s'"

section \<open>Invariant\<close>

definition current_list :: "persist \<Rightarrow> queued_receive list" where
  "current_list s = (case ps_current s of None \<Rightarrow> [] | Some (q, _) \<Rightarrow> [q])"

definition delay_ok :: "persist \<Rightarrow> bool" where
  "delay_ok s \<longleftrightarrow>
     (case ps_current s of None \<Rightarrow> True | Some (_, d) \<Rightarrow> RECEIVE_STORE_RETRY_MIN \<le> d \<and> d \<le> RECEIVE_STORE_RETRY_MAX)"

text \<open>The storage states the host sees: \<open>unavailable\<close> first, then alternating.\<close>

fun storage_word :: "host_event list \<Rightarrow> string list" where
  "storage_word [] = []"
| "storage_word (StorageState st # es) = st # storage_word es"
| "storage_word (_ # es) = storage_word es"

definition alternates :: "nat \<Rightarrow> string list" where
  "alternates n = map (\<lambda>i. if even i then ''unavailable'' else ''recovered'') [0 ..< n]"

definition persist_inv :: "persist \<Rightarrow> bool" where
  "persist_inv s \<longleftrightarrow>
     ingress_reach (ps_ingress s) \<and> ri_held (ps_ingress s) = current_list s \<and>
     ps_pushed s = ps_landed s @ current_list s @ ri_queue (ps_ingress s) \<and> delay_ok s \<and>
     (\<exists>n. storage_word (ps_host s) = alternates n \<and> odd n = ps_unavailable s) \<and>
     length (ps_receipts s) \<le> DELIVERY_RECEIPT_QUEUE_CAP \<and> ps_inbound s < GOVERNOR_INBOUND_MESSAGE_INTERVAL"

lemma storage_word_append [simp]: "storage_word (xs @ ys) = storage_word xs @ storage_word ys"
  by (induction xs rule: storage_word.induct) simp_all

lemma storage_word_quiet: "list_all (\<lambda>e. \<forall>st. e \<noteq> StorageState st) es \<Longrightarrow> storage_word es = []"
  by (induction es rule: storage_word.induct) auto

lemma alternates_Suc: "alternates (Suc n) = alternates n @ [if even n then ''unavailable'' else ''recovered'']"
  by (simp add: alternates_def)

lemma ingress_effects [simp]:
  "ri_queue (consumer_done q i) = ri_queue i" "ri_held (consumer_done q i) = remove1 q (ri_held i)"
  "ri_queue i = q # qs \<Longrightarrow> ri_queue (consumer_recv i) = qs" "ri_queue i = q # qs \<Longrightarrow> ri_held (consumer_recv i) = ri_held i @ [q]"
  by (simp_all add: consumer_done_def consumer_recv_def release_share_def Let_def)

lemma persist_failed_keeps: "persist_inv s \<Longrightarrow> persist_inv (persist_failed s)"
proof (cases "ps_current s")
  case (Some c)
  assume inv: "persist_inv s"
  obtain q d where c: "ps_current s = Some (q, d)" using Some by (cases c) auto
  obtain n where n: "storage_word (ps_host s) = alternates n" "odd n = ps_unavailable s" using inv by (auto simp: persist_inv_def)
  have "\<exists>n. storage_word (ps_host (persist_failed s)) = alternates n \<and> odd n"
  proof (cases "ps_unavailable s")
    case False
    then have "storage_word (ps_host (persist_failed s)) = alternates (Suc n) \<and> odd (Suc n)"
      using n by (simp add: persist_failed_def c alternates_Suc)
    then show ?thesis by blast
  qed (use n c in \<open>auto simp: persist_failed_def\<close>)
  then show ?thesis
    using inv c
    by (auto simp: persist_inv_def persist_failed_def current_list_def delay_ok_def RECEIVE_STORE_RETRY_MIN_def RECEIVE_STORE_RETRY_MAX_def)
qed (simp add: persist_failed_def)

lemma persist_recv_keeps: "persist_inv s \<Longrightarrow> persist_inv (persist_recv s)"
proof (cases "ps_current s = None \<and> ri_queue (ps_ingress s) \<noteq> []")
  case True
  assume inv: "persist_inv s"
  obtain q qs where q: "ri_queue (ps_ingress s) = q # qs" using True by (cases "ri_queue (ps_ingress s)") auto
  have "ingress_reach (consumer_recv (ps_ingress s))"
    using inv True by (auto simp: persist_inv_def intro: ir_step is_recv)
  then show ?thesis
    using inv True q
    by (auto simp: persist_inv_def persist_recv_def current_list_def delay_ok_def RECEIVE_STORE_RETRY_MIN_def RECEIVE_STORE_RETRY_MAX_def)
qed (auto simp: persist_recv_def split: option.splits list.splits)

lemma count_inbound_fields:
  "ps_ingress (count_inbound g r s) = ps_ingress s" "ps_host (count_inbound g r s) = ps_host s"
  "ps_unavailable (count_inbound g r s) = ps_unavailable s" "ps_receipts (count_inbound g r s) = ps_receipts s"
  "ps_pushed (count_inbound g r s) = ps_pushed s" "ps_landed (count_inbound g r s) = ps_landed s"
  "ps_inbound s < GOVERNOR_INBOUND_MESSAGE_INTERVAL \<Longrightarrow> ps_inbound (count_inbound g r s) < GOVERNOR_INBOUND_MESSAGE_INTERVAL"
  by (simp_all add: count_inbound_def GOVERNOR_INBOUND_MESSAGE_INTERVAL_def)

lemma try_send_fields:
  "ps_ingress (try_send_receipt j s) = ps_ingress s" "ps_host (try_send_receipt j s) = ps_host s"
  "ps_unavailable (try_send_receipt j s) = ps_unavailable s" "ps_inbound (try_send_receipt j s) = ps_inbound s"
  "ps_pushed (try_send_receipt j s) = ps_pushed s" "ps_landed (try_send_receipt j s) = ps_landed s"
  "length (ps_receipts s) \<le> DELIVERY_RECEIPT_QUEUE_CAP \<Longrightarrow> length (ps_receipts (try_send_receipt j s)) \<le> DELIVERY_RECEIPT_QUEUE_CAP"
  by (simp_all add: try_send_receipt_def split: option.split)

lemma persist_landed_keeps:
  assumes inv: "persist_inv s" and quiet: "list_all (\<lambda>e. \<forall>st. e \<noteq> StorageState st) events"
  shows "persist_inv (persist_landed governed events s)"
proof (cases "ps_current s")
  case (Some c)
  obtain q d where c: "ps_current s = Some (q, d)" using Some by (cases c) auto
  have held: "ri_held (ps_ingress s) = [q]" using inv c by (simp add: persist_inv_def current_list_def)
  have reach: "ingress_reach (consumer_done q (ps_ingress s))"
    by (rule ir_step [OF _ is_done]) (use inv in \<open>simp_all add: persist_inv_def current_list_def c\<close>)
  obtain n where n: "storage_word (ps_host s) = alternates n" "odd n = ps_unavailable s" using inv by (auto simp: persist_inv_def)
  have "\<exists>n. storage_word (ps_host s @ events @ (if ps_unavailable s then [StorageState ''recovered''] else [])) = alternates n \<and> even n"
  proof (cases "ps_unavailable s")
    case True
    then have "storage_word (ps_host s @ events @ [StorageState ''recovered'']) = alternates (Suc n) \<and> even (Suc n)"
      using n storage_word_quiet [OF quiet] by (simp add: alternates_Suc)
    then show ?thesis using True by (intro exI [of _ "Suc n"]) simp
  qed (use n storage_word_quiet [OF quiet] in \<open>auto\<close>)
  then show ?thesis
    using inv c reach held
    by (simp add: persist_inv_def persist_landed_def Let_def count_inbound_fields try_send_fields current_list_def delay_ok_def)
qed (use inv in \<open>simp add: persist_landed_def\<close>)

lemma persist_reach_inv: "persist_reach governed s \<Longrightarrow> persist_inv s"
proof (induction rule: persist_reach.induct)
  case pr_start
  have "storage_word [] = alternates 0" by (simp add: alternates_def)
  then show ?case
    by (auto simp: persist_inv_def persist_started_def current_list_def delay_ok_def receive_channel_def ir_start [unfolded receive_channel_def]
        GOVERNOR_INBOUND_MESSAGE_INTERVAL_def intro: exI [of _ 0])
next
  case (pr_step s s')
  from pr_step(2) show ?case
  proof cases
    case (pk_engine i qs)
    then have "ingress_reach i" using pr_step(3) by (auto simp: persist_inv_def intro: ir_step)
    then show ?thesis using pk_engine pr_step(3) by (simp add: persist_inv_def current_list_def delay_ok_def)
  next
    case pk_receipt
    have "length (ps_receipts s) \<le> DELIVERY_RECEIPT_QUEUE_CAP" using pr_step(3) by (simp add: persist_inv_def)
    then have "length (tl (ps_receipts s)) \<le> DELIVERY_RECEIPT_QUEUE_CAP" by simp
    then show ?thesis using pk_receipt pr_step(3) by (simp add: persist_inv_def current_list_def delay_ok_def)
  qed (use pr_step(3) in \<open>simp_all add: persist_recv_keeps persist_failed_keeps persist_landed_keeps\<close>)
qed

section \<open>Properties\<close>

text \<open>
  C6. No receive that entered the queue is lost, repeated or overtaken: in every interleaving of the engines, the store
  outages and the consumer, the receives ever queued are the stored ones, then the one being stored, then the queued
  ones, in that order. The receive being stored is the only one whose permits the consumer holds, and its retry delay
  stays between a tenth of a second and five seconds.
\<close>

theorem receives_land_in_order:
  assumes "persist_reach governed s"
  shows "ps_pushed s = ps_landed s @ current_list s @ ri_queue (ps_ingress s) \<and> ri_held (ps_ingress s) = current_list s \<and>
         ingress_reach (ps_ingress s) \<and> delay_ok s"
  using persist_reach_inv [OF assms] by (simp add: persist_inv_def)

text \<open>
  The host sees every outage of the store once and its end once: the storage states it is sent alternate, starting
  with \<open>unavailable\<close>, and the last one is the current state. The receipt queue and the governor's counter stay in bounds.
\<close>

lemma storage_notices_alternate:
  assumes "persist_reach governed s"
  shows "(\<exists>n. storage_word (ps_host s) = alternates n \<and> odd n = ps_unavailable s) \<and>
         length (ps_receipts s) \<le> DELIVERY_RECEIPT_QUEUE_CAP \<and> ps_inbound s < GOVERNOR_INBOUND_MESSAGE_INTERVAL"
  using persist_reach_inv [OF assms] by (simp add: persist_inv_def)


section \<open>Witnesses\<close>

text \<open>One receive is queued, and the first attempt to store it fails.\<close>

definition one_awaiting :: ingress where
  "one_awaiting = enqueue_bytes plain_queued one_parked"

definition one_queued :: ingress where
  "one_queued = enqueue_push plain_queued one_awaiting"

definition demo_persist :: persist where
  "demo_persist =
     persist_failed (persist_recv (persist_started\<lparr>ps_ingress := one_queued, ps_pushed := [plain_queued]\<rparr>))"

lemma demo_persist_reach: "persist_reach True demo_persist"
proof -
  have bytes: "ingress_step one_parked one_awaiting"
    unfolding one_awaiting_def by (rule is_bytes) (simp_all add: one_parked_def plain_queued_def)
  have push: "ingress_step one_awaiting one_queued"
    unfolding one_queued_def
    by (rule is_push) (simp_all add: one_awaiting_def enqueue_bytes_def one_parked_def queue_caps)
  have s1: "persist_reach True (persist_started\<lparr>ps_ingress := one_parked\<rparr>)"
    using pr_step [OF pr_start pk_engine [of persist_started one_parked "[]"]] one_parked_step
    by (simp add: persist_started_def receive_channel_def one_parked_def)
  have s2: "persist_reach True (persist_started\<lparr>ps_ingress := one_awaiting\<rparr>)"
    using pr_step [OF s1 pk_engine [of _ one_awaiting "[]"]] bytes
    by (simp add: persist_started_def one_awaiting_def enqueue_bytes_def one_parked_def)
  have "persist_reach True (persist_started\<lparr>ps_ingress := one_queued, ps_pushed := [plain_queued]\<rparr>)"
    using pr_step [OF s2 pk_engine [of _ one_queued "[plain_queued]"]] push
    by (simp add: persist_started_def one_queued_def enqueue_push_def one_awaiting_def enqueue_bytes_def one_parked_def)
  then show ?thesis unfolding demo_persist_def by (intro pr_step [OF pr_step [OF _ pk_recv] pk_failed])
qed

theorem receives_land_in_order_witness:
  "persist_reach True demo_persist \<and> ps_landed demo_persist @ current_list demo_persist @ ri_queue (ps_ingress demo_persist) = [plain_queued]"
proof -
  have "ps_pushed demo_persist = [plain_queued]"
    by (simp add: demo_persist_def persist_failed_def persist_recv_def persist_started_def split: option.split list.split)
  then show ?thesis using receives_land_in_order [OF demo_persist_reach] demo_persist_reach by simp
qed

end
