(* ===== verification/Runtime_Manifest.thy ===== *)
theory Runtime_Manifest
  imports Bootstrap_Auth "HOL-Library.Multiset"
begin

text \<open>
  The signed runtime manifest of \<open>src/manifest.rs\<close>. A bundle on disk is a tree: a file has its content, or \<open>None\<close> when
  reading it fails; a symbolic link has the node it leads to, or \<open>None\<close> when it dangles. Directory entries are in the
  order \<open>read_dir\<close> yields them. SHA-256 (as lowercase hex), serde, the hex crate and ed25519 are arguments; paths are
  those of a unix host.
\<close>

section \<open>Files\<close>

datatype fs_node =
    FFile "string option"
  | FDir "(string \<times> fs_node) list"
  | FLink "fs_node option"
  | FOther

datatype component = RootDir | CurDir | ParentDir | Normal string

text \<open>\<open>Path::components\<close>: empty parts vanish, and so does a dot that is not the first part.\<close>

definition path_components :: "string \<Rightarrow> component list" where
  "path_components v =
     (let parts = split_on CHR ''/'' v
      in (if starts_with ''/'' v then [RootDir] else if hd parts = ''.'' then [CurDir] else []) @
         map (\<lambda>p. if p = ''..'' then ParentDir else Normal p) (filter (\<lambda>p. p \<noteq> [] \<and> p \<noteq> ''.'') parts))"

definition validate_relative_path :: "string \<Rightarrow> bool" where
  "validate_relative_path v \<longleftrightarrow>
     \<not> (v = [] \<or> CHR 0x5C \<in> set v \<or> starts_with ''/'' v \<or>
        list_ex (\<lambda>c. case c of Normal _ \<Rightarrow> False | _ \<Rightarrow> True) (path_components v))"

fun follow :: "fs_node \<Rightarrow> fs_node option" where
  "follow (FLink t) = (case t of None \<Rightarrow> None | Some n \<Rightarrow> follow n)"
| "follow n = Some n"

text \<open>\<open>symlink_metadata(root.join(path))\<close>: links on the way are followed, the last one is not.\<close>

fun resolve :: "fs_node \<Rightarrow> string list \<Rightarrow> fs_node option" where
  "resolve n [] = Some n"
| "resolve n (c # cs) =
     (case follow n of
        Some (FDir es) \<Rightarrow> Option.bind (map_of es c) (\<lambda>m. resolve m cs)
      | _ \<Rightarrow> None)"

definition joined :: "string \<Rightarrow> string list" where
  "joined v = map (\<lambda>c. case c of Normal p \<Rightarrow> p | _ \<Rightarrow> ''..'') (path_components v)"

section \<open>The manifest\<close>

record artifact_ref =
  ar_path :: string
  ar_sha256 :: string
  ar_size_bytes :: nat

record component_ref =
  co_name :: string
  co_version :: string
  co_artifact :: artifact_ref

record license_ref =
  li_component :: string
  li_spdx :: string
  li_path :: string

record signature_ref =
  si_scheme :: string
  si_key_id :: "string option"
  si_value :: string

record component_set =
  cs_connector :: component_ref
  cs_signal_cli :: "component_ref option"
  cs_jre :: "component_ref option"

record runtime_manifest =
  rm_manifest_version :: string
  rm_bundle_id :: string
  rm_created_at_unix_ms :: nat
  rm_platform :: string
  rm_components :: component_set
  rm_artifacts :: "artifact_ref list"
  rm_licenses :: "license_ref list"
  rm_sbom_path :: "string option"
  rm_source_archive :: "artifact_ref option"
  rm_build_record_path :: "string option"
  rm_signature :: "signature_ref option"

datatype manifest_error =
    ManifestIo | Invalid | TooLarge | HashMismatch string | MissingArtifact string | SignatureRequired
  | InvalidSignature | IncompleteProductionBundle | InvalidKey

text \<open>What the code uses of other crates.\<close>

record crates =
  cr_sha256 :: "string \<Rightarrow> string"
  cr_hex_encode :: "string \<Rightarrow> string"
  cr_hex_decode :: "string \<Rightarrow> string option"
  cr_from_str :: "string \<Rightarrow> runtime_manifest option"
  cr_is_utf8 :: "string \<Rightarrow> bool"
  cr_to_vec :: "runtime_manifest \<Rightarrow> string option"

definition MANIFEST_VERSION :: string where "MANIFEST_VERSION = ''1.0''"
definition MAX_MANIFEST_BYTES :: nat where "MAX_MANIFEST_BYTES = 1024 * 1024"

fun check_all :: "('a \<Rightarrow> 'e + unit) \<Rightarrow> 'a list \<Rightarrow> 'e + unit" where
  "check_all f [] = Inr ()"
| "check_all f (x # xs) = (case f x of Inl e \<Rightarrow> Inl e | Inr _ \<Rightarrow> check_all f xs)"

definition ensure :: "'e \<Rightarrow> bool \<Rightarrow> 'e + unit" where
  "ensure e b = (if b then Inr () else Inl e)"

definition valid_key_id :: "string \<Rightarrow> bool" where
  "valid_key_id v \<longleftrightarrow>
     v \<noteq> [] \<and> length v \<le> 64 \<and> list_all (\<lambda>c. is_ascii_alphanumeric c \<or> c \<in> set ''._-'') v"

definition decode_exact_hex :: "crates \<Rightarrow> nat \<Rightarrow> string \<Rightarrow> string option" where
  "decode_exact_hex cr n v =
     (if length v \<noteq> n * 2 \<or> list_ex (\<lambda>c. \<not> is_lower_hex c) v then None
      else case cr_hex_decode cr v of
             None \<Rightarrow> None
           | Some bs \<Rightarrow> if length bs = n then Some bs else None)"

definition validate_artifact :: "crates \<Rightarrow> artifact_ref \<Rightarrow> manifest_error + unit" where
  "validate_artifact cr a =
     (if \<not> validate_relative_path (ar_path a) then Inl Invalid
      else ensure Invalid (decode_exact_hex cr 32 (ar_sha256 a) \<noteq> None))"

definition component_refs :: "runtime_manifest \<Rightarrow> component_ref list" where
  "component_refs m =
     cs_connector (rm_components m) #
     (case cs_signal_cli (rm_components m) of Some c \<Rightarrow> [c] | None \<Rightarrow> []) @
     (case cs_jre (rm_components m) of Some c \<Rightarrow> [c] | None \<Rightarrow> [])"

definition opt_list :: "'a option \<Rightarrow> 'a list" where
  "opt_list x = (case x of Some v \<Rightarrow> [v] | None \<Rightarrow> [])"

definition named_paths :: "runtime_manifest \<Rightarrow> string list" where
  "named_paths m = map li_path (rm_licenses m) @ opt_list (rm_sbom_path m) @ opt_list (rm_build_record_path m)"

definition validate_signature :: "crates \<Rightarrow> signature_ref \<Rightarrow> manifest_error + unit" where
  "validate_signature cr s =
     (if si_scheme s = ''ed25519'' then
        ensure InvalidSignature
          ((case si_key_id s of Some k \<Rightarrow> valid_key_id k | None \<Rightarrow> False) \<and> decode_exact_hex cr 64 (si_value s) \<noteq> None)
      else ensure InvalidSignature (si_scheme s = ''unsigned-local'' \<and> si_key_id s = None))"

definition validate :: "crates \<Rightarrow> runtime_manifest \<Rightarrow> manifest_error + unit" where
  "validate cr m =
     result_bind
       (ensure Invalid
          (rm_manifest_version m = MANIFEST_VERSION \<and> rm_bundle_id m \<noteq> [] \<and> length (rm_bundle_id m) \<le> 128 \<and>
           rm_created_at_unix_ms m \<le> 9007199254740991 \<and> rm_licenses m \<noteq> [])) (\<lambda>_.
     result_bind
       (check_all (validate_artifact cr)
          (rm_artifacts m @ map co_artifact (component_refs m) @ opt_list (rm_source_archive m))) (\<lambda>_.
     result_bind (check_all (\<lambda>p. ensure Invalid (validate_relative_path p)) (named_paths m)) (\<lambda>_.
     result_bind
       (ensure Invalid
          (list_all (\<lambda>l. li_component l \<noteq> [] \<and> length (li_component l) \<le> 128 \<and> li_spdx l \<noteq> [] \<and> length (li_spdx l) \<le> 128)
             (rm_licenses m))) (\<lambda>_.
     case rm_signature m of None \<Rightarrow> Inr () | Some s \<Rightarrow> validate_signature cr s))))"

section \<open>Verification against a bundle\<close>

definition hash_file :: "crates \<Rightarrow> fs_node \<Rightarrow> manifest_error + string \<times> nat" where
  "hash_file cr n =
     (case n of
        FFile (Some c) \<Rightarrow> Inr (cr_sha256 cr c, length c)
      | _ \<Rightarrow> Inl ManifestIo)"

definition verify_artifact :: "crates \<Rightarrow> fs_node \<Rightarrow> artifact_ref \<Rightarrow> manifest_error + unit" where
  "verify_artifact cr root a =
     result_bind (validate_artifact cr a) (\<lambda>_.
     case resolve root (joined (ar_path a)) of
       Some (FFile c) \<Rightarrow>
         result_bind (hash_file cr (FFile c)) (\<lambda>(sha, size_bytes).
           ensure (HashMismatch (ar_path a)) (sha = ar_sha256 a \<and> size_bytes = ar_size_bytes a))
     | _ \<Rightarrow> Inl (MissingArtifact (ar_path a)))"

definition backslash_to_slash :: "string \<Rightarrow> string" where
  "backslash_to_slash = map (\<lambda>c. if c = CHR 0x5C then CHR ''/'' else c)"

text \<open>\<open>prefix\<close> is the relative path of the directory with its slash.\<close>

function collect_bundle_files :: "string \<Rightarrow> (string \<times> fs_node) list \<Rightarrow> manifest_error + string list" where
  "collect_bundle_files prefix [] = Inr []"
| "collect_bundle_files prefix ((name, FLink t) # es) = Inl Invalid"
| "collect_bundle_files prefix ((name, FDir ds) # es) =
     result_bind (collect_bundle_files (prefix @ name @ ''/'') ds) (\<lambda>inner.
     result_bind (collect_bundle_files prefix es) (\<lambda>rest. Inr (inner @ rest)))"
| "collect_bundle_files prefix ((name, FFile c) # es) =
     (let relative = backslash_to_slash (prefix @ name)
      in if relative = ''manifest.json'' then collect_bundle_files prefix es
         else if \<not> validate_relative_path relative then Inl Invalid
         else result_bind (collect_bundle_files prefix es) (\<lambda>rest. Inr (relative # rest)))"
| "collect_bundle_files prefix ((name, FOther) # es) = Inl Invalid"
  by pat_completeness auto
termination
  by (relation "measure (\<lambda>(p, es). size_list (size_prod (\<lambda>_. 0) size) es)") auto

definition list_bundle_files :: "fs_node \<Rightarrow> manifest_error + string list" where
  "list_bundle_files root =
     (case root of
        FDir es \<Rightarrow> result_bind (collect_bundle_files [] es) (\<lambda>files. Inr (sort files))
      | _ \<Rightarrow> Inl ManifestIo)"

definition verify_artifacts :: "crates \<Rightarrow> runtime_manifest \<Rightarrow> fs_node \<Rightarrow> manifest_error + unit" where
  "verify_artifacts cr m root =
     result_bind (validate cr m) (\<lambda>_.
     if rm_artifacts m = [] then
       result_bind (check_all (\<lambda>c. verify_artifact cr root (co_artifact c)) (component_refs m)) (\<lambda>_.
       check_all (verify_artifact cr root) (opt_list (rm_source_archive m)))
     else
       let declared = sort (map ar_path (rm_artifacts m))
       in if \<not> distinct_adj declared then Inl Invalid
          else
            result_bind (check_all (verify_artifact cr root) (rm_artifacts m)) (\<lambda>_.
            result_bind (list_bundle_files root) (\<lambda>discovered.
            if declared \<noteq> discovered then Inl Invalid
            else if list_ex (\<lambda>c. ar_path (co_artifact c) \<notin> set declared) (component_refs m) then Inl Invalid
            else ensure Invalid (list_all (\<lambda>s. ar_path s \<in> set declared) (opt_list (rm_source_archive m))))))"

definition signing_payload :: "crates \<Rightarrow> runtime_manifest \<Rightarrow> manifest_error + string" where
  "signing_payload cr m = ok_or Invalid (cr_to_vec cr (m\<lparr>rm_signature := None\<rparr>))"

definition sign_ed25519 ::
    "crates \<Rightarrow> (string \<Rightarrow> string) \<Rightarrow> string \<Rightarrow> runtime_manifest \<Rightarrow> manifest_error + runtime_manifest" where
  "sign_ed25519 cr sign key_id m =
     (if \<not> valid_key_id key_id then Inl InvalidKey
      else
        result_bind (signing_payload cr (m\<lparr>rm_signature := None\<rparr>)) (\<lambda>payload.
          Inr (m\<lparr>rm_signature :=
                  Some \<lparr>si_scheme = ''ed25519'', si_key_id = Some key_id, si_value = cr_hex_encode cr (sign payload)\<rparr>\<rparr>)))"

definition required_licenses :: "runtime_manifest \<Rightarrow> (string \<times> string option) list" where
  "required_licenses m =
     [(''kt-signal-connector'', Some ''AGPL-3.0-only''), (''libsignal'', Some ''AGPL-3.0-only'')] @
     (if cs_signal_cli (rm_components m) \<noteq> None then [(''signal-cli'', Some ''GPL-3.0-only'')] else []) @
     (if cs_jre (rm_components m) \<noteq> None then [(''jre'', None)] else [])"

definition production_complete :: "runtime_manifest \<Rightarrow> bool" where
  "production_complete m \<longleftrightarrow>
     rm_platform m \<in> set [''macos-arm64'', ''macos-x64'', ''windows-x64''] \<and>
     co_name (cs_connector (rm_components m)) = ''kt-signal-connector'' \<and>
     list_all (\<lambda>c. co_name c = ''signal-cli'') (opt_list (cs_signal_cli (rm_components m))) \<and>
     list_all (\<lambda>c. co_name c = ''jre'') (opt_list (cs_jre (rm_components m))) \<and>
     rm_artifacts m \<noteq> [] \<and> rm_source_archive m \<noteq> None \<and> rm_sbom_path m \<noteq> None \<and> rm_build_record_path m \<noteq> None"

definition license_held :: "runtime_manifest \<Rightarrow> string \<times> string option \<Rightarrow> bool" where
  "license_held m req \<longleftrightarrow>
     list_ex (\<lambda>l. li_component l = fst req \<and> (case snd req of None \<Rightarrow> True | Some x \<Rightarrow> li_spdx l = x)) (rm_licenses m)"

definition trusted_signature :: "runtime_manifest \<Rightarrow> string \<Rightarrow> signature_ref option" where
  "trusted_signature m key_id =
     (case rm_signature m of
        Some s \<Rightarrow> if si_scheme s = ''ed25519'' \<and> si_key_id s = Some key_id then Some s else None
      | None \<Rightarrow> None)"

text \<open>\<open>verify_strict\<close> is the trusted key's check of a payload and a signature.\<close>

definition verify_production ::
    "crates \<Rightarrow> runtime_manifest \<Rightarrow> fs_node \<Rightarrow> string \<Rightarrow> (string \<Rightarrow> string \<Rightarrow> bool) \<Rightarrow> manifest_error + unit" where
  "verify_production cr m root trusted_key_id verify_strict =
     result_bind (verify_artifacts cr m root) (\<lambda>_.
     result_bind (ensure IncompleteProductionBundle (production_complete m)) (\<lambda>_.
     result_bind (check_all (\<lambda>req. ensure IncompleteProductionBundle (license_held m req)) (required_licenses m)) (\<lambda>_.
     result_bind
       (ensure IncompleteProductionBundle
          (list_all (\<lambda>p. p \<in> set (map ar_path (rm_artifacts m))) (named_paths m))) (\<lambda>_.
     result_bind (ok_or SignatureRequired (trusted_signature m trusted_key_id)) (\<lambda>s.
     result_bind (ok_or InvalidSignature (decode_exact_hex cr 64 (si_value s))) (\<lambda>signature.
     result_bind (signing_payload cr m) (\<lambda>payload.
     ensure InvalidSignature (verify_strict payload signature))))))))"

definition load :: "crates \<Rightarrow> fs_node option \<Rightarrow> manifest_error + runtime_manifest" where
  "load cr file =
     (case Option.bind file follow of
        Some (FFile (Some c)) \<Rightarrow>
          if length c > MAX_MANIFEST_BYTES then Inl TooLarge
          else if \<not> cr_is_utf8 cr c then Inl ManifestIo
          else result_bind (ok_or Invalid (cr_from_str cr c)) (\<lambda>m. result_bind (validate cr m) (\<lambda>_. Inr m))
      | _ \<Rightarrow> Inl ManifestIo)"

section \<open>Building a manifest\<close>

definition artifact_for_file :: "crates \<Rightarrow> fs_node \<Rightarrow> string \<Rightarrow> manifest_error + artifact_ref" where
  "artifact_for_file cr root relative =
     (if \<not> validate_relative_path relative then Inl Invalid
      else case Option.bind (resolve root (joined relative)) follow of
             Some n \<Rightarrow>
               result_bind (hash_file cr n) (\<lambda>(sha, size_bytes).
                 Inr \<lparr>ar_path = backslash_to_slash relative, ar_sha256 = sha, ar_size_bytes = size_bytes\<rparr>)
           | None \<Rightarrow> Inl ManifestIo)"

fun collect_results :: "('a \<Rightarrow> 'e + 'b) \<Rightarrow> 'a list \<Rightarrow> 'e + 'b list" where
  "collect_results f [] = Inr []"
| "collect_results f (x # xs) = result_bind (f x) (\<lambda>y. result_bind (collect_results f xs) (\<lambda>ys. Inr (y # ys)))"

definition artifacts_for_bundle :: "crates \<Rightarrow> fs_node \<Rightarrow> manifest_error + artifact_ref list" where
  "artifacts_for_bundle cr root = result_bind (list_bundle_files root) (collect_results (artifact_for_file cr root))"

definition build_local_unsigned_manifest ::
    "crates \<Rightarrow> nat \<Rightarrow> string \<Rightarrow> fs_node \<Rightarrow> string \<Rightarrow> string \<Rightarrow> string \<Rightarrow> manifest_error + runtime_manifest" where
  "build_local_unsigned_manifest cr now platform root bundle_id connector_version connector_rel =
     result_bind (artifact_for_file cr root connector_rel) (\<lambda>connector.
     result_bind (artifacts_for_bundle cr root) (\<lambda>artifacts.
       Inr \<lparr>rm_manifest_version = MANIFEST_VERSION, rm_bundle_id = bundle_id, rm_created_at_unix_ms = now,
            rm_platform = platform,
            rm_components =
              \<lparr>cs_connector =
                 \<lparr>co_name = ''kt-signal-connector'', co_version = connector_version, co_artifact = connector\<rparr>,
               cs_signal_cli = None, cs_jre = None\<rparr>,
            rm_artifacts = artifacts,
            rm_licenses =
              [\<lparr>li_component = ''kt-signal-connector'', li_spdx = ''AGPL-3.0-only'',
                li_path = ''licenses/kt-signal-connector.AGPL-3.0-only.txt''\<rparr>],
            rm_sbom_path = Some ''sbom.cdx.json'', rm_source_archive = None,
            rm_build_record_path = Some ''build-record.json'',
            rm_signature =
              Some \<lparr>si_scheme = ''unsigned-local'', si_key_id = None, si_value = ''local-dev-not-for-production''\<rparr>\<rparr>))"


section \<open>The files of a bundle\<close>

text \<open>
  The reference view of a bundle: its regular files by the names on their paths. \<open>name_ok\<close> is what a file system grants
  of a name, and that no name has a backslash (Windows forbids it; elsewhere \<open>replace\<close> would let two files share a
  relative path).
\<close>

definition name_ok :: "string \<Rightarrow> bool" where
  "name_ok n \<longleftrightarrow> n \<noteq> [] \<and> n \<noteq> ''.'' \<and> n \<noteq> ''..'' \<and> CHR ''/'' \<notin> set n \<and> CHR 0x5C \<notin> set n"

function entries_ok :: "(string \<times> fs_node) list \<Rightarrow> bool" where
  "entries_ok [] \<longleftrightarrow> True"
| "entries_ok ((n, FDir ds) # es) \<longleftrightarrow> name_ok n \<and> n \<notin> fst ` set es \<and> entries_ok ds \<and> entries_ok es"
| "entries_ok ((n, FFile c) # es) \<longleftrightarrow> name_ok n \<and> n \<notin> fst ` set es \<and> entries_ok es"
| "entries_ok ((n, FLink t) # es) \<longleftrightarrow> name_ok n \<and> n \<notin> fst ` set es \<and> entries_ok es"
| "entries_ok ((n, FOther) # es) \<longleftrightarrow> name_ok n \<and> n \<notin> fst ` set es \<and> entries_ok es"
  by pat_completeness auto
termination
  by (relation "measure (size_list (size_prod (\<lambda>_. 0) size))") auto

function plain_entries :: "(string \<times> fs_node) list \<Rightarrow> bool" where
  "plain_entries [] \<longleftrightarrow> True"
| "plain_entries ((n, FDir ds) # es) \<longleftrightarrow> plain_entries ds \<and> plain_entries es"
| "plain_entries ((n, FFile c) # es) \<longleftrightarrow> plain_entries es"
| "plain_entries ((n, FLink t) # es) \<longleftrightarrow> False"
| "plain_entries ((n, FOther) # es) \<longleftrightarrow> False"
  by pat_completeness auto
termination
  by (relation "measure (size_list (size_prod (\<lambda>_. 0) size))") auto

function tree_files :: "string list \<Rightarrow> (string \<times> fs_node) list \<Rightarrow> (string list \<times> string option) list" where
  "tree_files pre [] = []"
| "tree_files pre ((n, FDir ds) # es) = tree_files (pre @ [n]) ds @ tree_files pre es"
| "tree_files pre ((n, FFile c) # es) = (pre @ [n], c) # tree_files pre es"
| "tree_files pre ((n, FLink t) # es) = tree_files pre es"
| "tree_files pre ((n, FOther) # es) = tree_files pre es"
  by pat_completeness auto
termination
  by (relation "measure (\<lambda>(p, es). size_list (size_prod (\<lambda>_. 0) size) es)") auto

definition slashed :: "string list \<Rightarrow> string" where
  "slashed pre = concat (map (\<lambda>n. n @ ''/'') pre)"

definition rel_path :: "string list \<Rightarrow> string" where
  "rel_path ns = slashed (butlast ns) @ last ns"

definition bundle_files :: "(string \<times> fs_node) list \<Rightarrow> (string list \<times> string option) list" where
  "bundle_files es = filter (\<lambda>f. fst f \<noteq> [''manifest.json'']) (tree_files [] es)"

lemma slashed_simps [simp]: "slashed [] = []" "slashed (n # ns) = n @ ''/'' @ slashed ns"
  "slashed (ms @ ns) = slashed ms @ slashed ns"
  by (simp_all add: slashed_def)

lemma split_on_plain: "d \<notin> set s \<Longrightarrow> split_on d s = [s]"
  by (induction s) auto

lemma split_on_Cons: "d \<notin> set s \<Longrightarrow> split_on d (s @ d # t) = s # split_on d t"
  by (induction s) auto

lemma split_rel_path: "list_all name_ok ns \<Longrightarrow> ns \<noteq> [] \<Longrightarrow> split_on CHR ''/'' (rel_path ns) = ns"
  by (induction ns) (auto simp: rel_path_def name_ok_def split_on_plain split_on_Cons)

lemma rel_path_head: "list_all name_ok ns \<Longrightarrow> ns \<noteq> [] \<Longrightarrow> \<exists>c cs. rel_path ns = c # cs \<and> c \<noteq> CHR ''/''"
  by (cases ns; cases "hd ns") (auto simp: rel_path_def name_ok_def)

lemma joined_rel_path:
  assumes "list_all name_ok ns" and "ns \<noteq> []"
  shows "joined (rel_path ns) = ns"
proof -
  obtain c cs where c: "rel_path ns = c # cs" "c \<noteq> CHR ''/''" using rel_path_head [OF assms] by blast
  have keep: "filter (\<lambda>p. p \<noteq> [] \<and> p \<noteq> ''.'') ns = ns"
    using assms(1) by (intro filter_True) (auto simp: list_all_iff name_ok_def)
  have "hd ns \<in> set ns" using assms(2) by simp
  then have hd: "hd ns \<noteq> ''.''" using assms(1) unfolding list_all_iff name_ok_def by blast
  have "\<not> starts_with ''/'' (rel_path ns)" using c by (simp add: starts_with_def)
  then have "path_components (rel_path ns) = map (\<lambda>p. if p = ''..'' then ParentDir else Normal p) ns"
    unfolding path_components_def Let_def split_rel_path [OF assms] keep using hd by simp
  then show ?thesis unfolding joined_def by (simp add: comp_def) (rule map_idI, simp)
qed

lemma rel_path_inj:
  assumes "list_all name_ok ns" and "list_all name_ok ms" and "ns \<noteq> []" and "ms \<noteq> []" and "rel_path ns = rel_path ms"
  shows "ns = ms"
proof -
  have "joined (rel_path ns) = joined (rel_path ms)" by (rule arg_cong [OF assms(5)])
  then show ?thesis unfolding joined_rel_path [OF assms(1,3)] joined_rel_path [OF assms(2,4)] .
qed

lemma rel_path_no_backslash: "list_all name_ok ns \<Longrightarrow> ns \<noteq> [] \<Longrightarrow> backslash_to_slash (rel_path ns) = rel_path ns"
proof -
  assume ok: "list_all name_ok ns" and ne: "ns \<noteq> []"
  have "CHR 0x5C \<notin> set n" if "n \<in> set ns" for n using ok that by (auto simp: list_all_iff name_ok_def)
  then have "CHR 0x5C \<notin> set (rel_path ns)"
    using last_in_set [OF ne] by (auto simp: rel_path_def slashed_def dest: in_set_butlastD)
  then show ?thesis by (auto simp: backslash_to_slash_def intro!: map_idI)
qed

lemma tree_files_names:
  "entries_ok es \<Longrightarrow> list_all name_ok pre \<Longrightarrow> (ns, c) \<in> set (tree_files pre es) \<Longrightarrow> list_all name_ok ns \<and> ns \<noteq> []"
  by (induction pre es arbitrary: ns rule: tree_files.induct) auto

lemma tree_files_prefix: "(ns, c) \<in> set (tree_files pre es) \<Longrightarrow> \<exists>n ms. ns = pre @ n # ms \<and> n \<in> fst ` set es"
proof (induction pre es arbitrary: ns rule: tree_files.induct)
  case (2 pre n ds es)
  then consider "(ns, c) \<in> set (tree_files (pre @ [n]) ds)" | "(ns, c) \<in> set (tree_files pre es)" by auto
  then show ?case
  proof cases
    case 1
    then obtain k ks where "ns = (pre @ [n]) @ k # ks" using 2(1) by blast
    then have "ns = pre @ n # k # ks" by simp
    then show ?thesis by (intro exI conjI) (assumption, simp)
  next
    case 2
    then show ?thesis using "2.IH"(2) by force
  qed
next
  case (3 pre n d es)
  then show ?case by (cases "ns = pre @ [n]") force+
qed force+

text \<open>A file below the later entries is not reached through the first one.\<close>

lemma resolve_later:
  assumes "n \<notin> fst ` set es" and "(pre @ ms, c) \<in> set (tree_files pre es)" and "resolve (FDir es) ms = Some (FFile c)"
  shows "resolve (FDir ((n, t) # es)) ms = Some (FFile c)"
proof -
  obtain k ks where ms: "ms = k # ks" "k \<in> fst ` set es" using tree_files_prefix [OF assms(2)] by auto
  then have "k \<noteq> n" using assms(1) by auto
  then show ?thesis using assms(3) ms(1) by simp
qed

lemma tree_files_resolve:
  "entries_ok es \<Longrightarrow> (pre @ ms, c) \<in> set (tree_files pre es) \<Longrightarrow> resolve (FDir es) ms = Some (FFile c)"
proof (induction pre es arbitrary: ms rule: tree_files.induct)
  case (2 pre n ds es)
  consider (inner) "(pre @ ms, c) \<in> set (tree_files (pre @ [n]) ds)" | (rest) "(pre @ ms, c) \<in> set (tree_files pre es)"
    using 2(4) by auto
  then show ?case
  proof cases
    case inner
    then obtain ks where ms: "ms = n # ks" using tree_files_prefix [OF inner] by auto
    then have "resolve (FDir ds) ks = Some (FFile c)" using 2(1) [of ks] 2(3) inner by simp
    then show ?thesis by (simp add: ms)
  next
    case rest
    then show ?thesis using 2(2) [OF _ rest] 2(3) by (intro resolve_later) auto
  qed
next
  case (3 pre n d es)
  show ?case
  proof (cases "ms = [n] \<and> c = d")
    case False
    then have rest: "(pre @ ms, c) \<in> set (tree_files pre es)" using 3(3) by auto
    then show ?thesis using 3(1) [OF _ rest] 3(2) by (intro resolve_later) auto
  qed simp
qed (auto intro!: resolve_later)


section \<open>What the checks accept\<close>

lemma check_all_iff: "check_all f xs = Inr () \<longleftrightarrow> (\<forall>x \<in> set xs. f x = Inr ())"
  by (induction xs) (auto split: sum.split)

lemma distinct_adj_distinct: "distinct xs \<Longrightarrow> distinct_adj xs"
  by (induction xs rule: induct_list012) auto

lemma ensure_iff [simp]: "ensure e b = Inr u \<longleftrightarrow> b"
  by (simp add: ensure_def)

lemma rel_manifest:
  assumes "list_all name_ok ns" and "ns \<noteq> []"
  shows "rel_path ns = ''manifest.json'' \<longleftrightarrow> ns = [''manifest.json'']"
proof
  assume "rel_path ns = ''manifest.json''"
  then have "rel_path ns = rel_path [''manifest.json'']" by (simp add: rel_path_def)
  moreover have "list_all name_ok [''manifest.json'']" by (simp add: name_ok_def)
  ultimately show "ns = [''manifest.json'']" using rel_path_inj [OF assms(1) _ assms(2)] by blast
qed (simp add: rel_path_def)

lemma collect_exact:
  "entries_ok es \<Longrightarrow> list_all name_ok pre \<Longrightarrow> collect_bundle_files (slashed pre) es = Inr fs \<Longrightarrow>
   plain_entries es \<and> fs = map (rel_path \<circ> fst) (filter (\<lambda>f. fst f \<noteq> [''manifest.json'']) (tree_files pre es)) \<and>
   list_all validate_relative_path fs"
proof (induction pre es arbitrary: fs rule: tree_files.induct)
  case (2 pre n ds es)
  then obtain f1 f2 where f: "collect_bundle_files (slashed (pre @ [n])) ds = Inr f1" "collect_bundle_files (slashed pre) es = Inr f2"
    "fs = f1 @ f2"
    by (auto simp: result_bind_eq_Inr_iff)
  have "list_all name_ok (pre @ [n])" using 2(3,4) by simp
  then show ?case using 2(1) [OF _ _ f(1)] 2(2) [OF _ 2(4) f(2)] 2(3) by (auto simp: f(3))
next
  case (3 pre n c es)
  have ok: "list_all name_ok (pre @ [n])" using 3(2,3) by simp
  have rel: "backslash_to_slash (slashed pre @ n) = rel_path (pre @ [n])"
    using rel_path_no_backslash [OF ok] by (simp add: rel_path_def)
  have man: "rel_path (pre @ [n]) = ''manifest.json'' \<longleftrightarrow> pre @ [n] = [''manifest.json'']"
    by (rule rel_manifest [OF ok]) simp
  show ?case
  proof (cases "pre @ [n] = [''manifest.json'']")
    case True
    then have "collect_bundle_files (slashed pre) es = Inr fs" using 3(4) rel man by (simp add: Let_def)
    then show ?thesis using 3(1) [of fs] 3(2,3) True by auto
  next
    case False
    then obtain f2 where f2: "collect_bundle_files (slashed pre) es = Inr f2" "fs = rel_path (pre @ [n]) # f2"
      "validate_relative_path (rel_path (pre @ [n]))"
      using 3(4) rel man by (auto simp: Let_def result_bind_eq_Inr_iff split: if_splits)
    then show ?thesis using 3(1) [OF _ 3(3) f2(1)] 3(2) False by auto
  qed
qed simp_all

lemma list_bundle_exact:
  assumes "entries_ok es" and "list_bundle_files (FDir es) = Inr files"
  shows "plain_entries es" and "mset files = mset (map (rel_path \<circ> fst) (bundle_files es))" and "sorted files"
    and "list_all validate_relative_path files"
proof -
  obtain fs where fs: "collect_bundle_files (slashed []) es = Inr fs" "files = sort fs"
    using assms(2) by (auto simp: list_bundle_files_def result_bind_eq_Inr_iff)
  note c = collect_exact [OF assms(1) _ fs(1)]
  show "plain_entries es" "mset files = mset (map (rel_path \<circ> fst) (bundle_files es))" "sorted files"
    "list_all validate_relative_path files"
    using c by (simp_all add: fs(2) bundle_files_def list_all_iff)
qed

lemma bundle_file_ok:
  assumes "entries_ok es" and "(ns, c) \<in> set (bundle_files es)"
  shows "list_all name_ok ns" and "ns \<noteq> []" and "joined (rel_path ns) = ns" and "resolve (FDir es) ns = Some (FFile c)"
proof -
  have mem: "([] @ ns, c) \<in> set (tree_files [] es)" using assms(2) by (simp add: bundle_files_def)
  then show ok: "list_all name_ok ns" "ns \<noteq> []" using tree_files_names [OF assms(1), of "[]" ns c] by simp_all
  show "joined (rel_path ns) = ns" by (rule joined_rel_path [OF ok])
  show "resolve (FDir es) ns = Some (FFile c)" by (rule tree_files_resolve [OF assms(1) mem])
qed

lemma verify_artifact_iff:
  "verify_artifact cr root a = Inr () \<longleftrightarrow>
     validate_artifact cr a = Inr () \<and>
     (\<exists>b. resolve root (joined (ar_path a)) = Some (FFile (Some b)) \<and> cr_sha256 cr b = ar_sha256 a \<and>
          length b = ar_size_bytes a)"
  by (auto simp: verify_artifact_def hash_file_def result_bind_eq_Inr_iff split: option.splits fs_node.splits)

lemma verify_artifacts_listed:
  assumes "rm_artifacts m \<noteq> []"
  shows "verify_artifacts cr m root = Inr () \<longleftrightarrow>
     validate cr m = Inr () \<and> distinct_adj (sort (map ar_path (rm_artifacts m))) \<and>
     (\<forall>a \<in> set (rm_artifacts m). verify_artifact cr root a = Inr ()) \<and>
     list_bundle_files root = Inr (sort (map ar_path (rm_artifacts m))) \<and>
     (\<forall>c \<in> set (component_refs m). ar_path (co_artifact c) \<in> ar_path ` set (rm_artifacts m)) \<and>
     (\<forall>s \<in> set (opt_list (rm_source_archive m)). ar_path s \<in> ar_path ` set (rm_artifacts m))"
  using assms
  by (auto simp: verify_artifacts_def Let_def result_bind_eq_Inr_iff check_all_iff list_ex_iff list_all_iff split: if_splits)

lemma listed_bundle_exact:
  assumes "entries_ok es" and "rm_artifacts m \<noteq> []" and "verify_artifacts cr m (FDir es) = Inr ()"
  shows "plain_entries es" and "ar_path ` set (rm_artifacts m) = (rel_path \<circ> fst) ` set (bundle_files es)"
    and "\<And>ns c. (ns, c) \<in> set (bundle_files es) \<Longrightarrow>
           \<exists>a \<in> set (rm_artifacts m). \<exists>b. ar_path a = rel_path ns \<and> c = Some b \<and> cr_sha256 cr b = ar_sha256 a \<and>
                                           length b = ar_size_bytes a"
proof -
  note v = iffD1 [OF verify_artifacts_listed [OF assms(2)] assms(3)]
  note l = list_bundle_exact [OF assms(1) conjunct1 [OF conjunct2 [OF conjunct2 [OF conjunct2 [OF v]]]]]
  show "plain_entries es" by (rule l(1))
  have "set (sort (map ar_path (rm_artifacts m))) = set (map (rel_path \<circ> fst) (bundle_files es))"
    using l(2) by (metis set_mset_mset)
  then show paths: "ar_path ` set (rm_artifacts m) = (rel_path \<circ> fst) ` set (bundle_files es)" by simp
  fix ns c assume f: "(ns, c) \<in> set (bundle_files es)"
  then have "rel_path ns \<in> ar_path ` set (rm_artifacts m)" using paths by (metis comp_apply fst_conv imageI)
  then obtain a where a: "a \<in> set (rm_artifacts m)" "ar_path a = rel_path ns" by auto
  then have "verify_artifact cr (FDir es) a = Inr ()" using v by blast
  then show "\<exists>a \<in> set (rm_artifacts m). \<exists>b. ar_path a = rel_path ns \<and> c = Some b \<and> cr_sha256 cr b = ar_sha256 a \<and>
      length b = ar_size_bytes a"
    using bundle_file_ok(3,4) [OF assms(1) f] a by (auto simp: verify_artifact_iff)
qed


lemma verify_production_iff:
  "verify_production cr m root key_id verify_strict = Inr () \<longleftrightarrow>
     verify_artifacts cr m root = Inr () \<and> production_complete m \<and> list_all (license_held m) (required_licenses m) \<and>
     set (named_paths m) \<subseteq> ar_path ` set (rm_artifacts m) \<and>
     (\<exists>s signature payload. trusted_signature m key_id = Some s \<and> decode_exact_hex cr 64 (si_value s) = Some signature \<and>
        signing_payload cr m = Inr payload \<and> verify_strict payload signature)"
  by (auto simp: verify_production_def result_bind_eq_Inr_iff check_all_iff list_all_iff)

text \<open>A path the listing found is hashed by \<open>artifact_for_file\<close> under its own name.\<close>

lemma artifact_for_file_exact:
  assumes "entries_ok es" and "(ns, c) \<in> set (bundle_files es)" and "artifact_for_file cr (FDir es) (rel_path ns) = Inr a"
    and "\<And>b. decode_exact_hex cr 32 (cr_sha256 cr b) \<noteq> None"
  shows "ar_path a = rel_path ns \<and> verify_artifact cr (FDir es) a = Inr ()"
proof -
  note f = bundle_file_ok [OF assms(1,2)]
  have "backslash_to_slash (rel_path ns) = rel_path ns" by (rule rel_path_no_backslash [OF f(1,2)])
  then obtain b where b: "c = Some b" "a = \<lparr>ar_path = rel_path ns, ar_sha256 = cr_sha256 cr b, ar_size_bytes = length b\<rparr>"
    "validate_relative_path (rel_path ns)"
    using assms(3) f(3,4) by (cases c) (auto simp: artifact_for_file_def hash_file_def split: if_splits)
  then show ?thesis using f(3,4) assms(4) by (auto simp: verify_artifact_iff validate_artifact_def)
qed

lemma collect_results_SomeD:
  "collect_results f xs = Inr ys \<Longrightarrow> length ys = length xs \<and> (\<forall>i < length xs. f (xs ! i) = Inr (ys ! i))"
  by (induction xs arbitrary: ys) (auto simp: result_bind_eq_Inr_iff less_Suc_eq_0_disj)

lemma artifacts_for_bundle_exact:
  assumes "entries_ok es" and "artifacts_for_bundle cr (FDir es) = Inr arts"
    and "\<And>b. decode_exact_hex cr 32 (cr_sha256 cr b) \<noteq> None"
  shows "list_bundle_files (FDir es) = Inr (map ar_path arts)" and "\<forall>a \<in> set arts. verify_artifact cr (FDir es) a = Inr ()"
proof -
  obtain files where files: "list_bundle_files (FDir es) = Inr files"
    "collect_results (artifact_for_file cr (FDir es)) files = Inr arts"
    using assms(2) by (auto simp: artifacts_for_bundle_def result_bind_eq_Inr_iff)
  note l = list_bundle_exact [OF assms(1) files(1)] and r = collect_results_SomeD [OF files(2)]
  have one: "ar_path (arts ! i) = files ! i \<and> verify_artifact cr (FDir es) (arts ! i) = Inr ()" if "i < length files" for i
  proof -
    have "files ! i \<in> set (map (rel_path \<circ> fst) (bundle_files es))"
      using l(2) that by (metis nth_mem set_mset_mset)
    then obtain ns c where f: "(ns, c) \<in> set (bundle_files es)" "files ! i = rel_path ns" by auto
    have "artifact_for_file cr (FDir es) (rel_path ns) = Inr (arts ! i)" using r that by (metis f(2))
    then show ?thesis using artifact_for_file_exact [OF assms(1) f(1) _ assms(3)] f(2) by simp
  qed
  have "map ar_path arts = files" using r one by (intro nth_equalityI) auto
  then show "list_bundle_files (FDir es) = Inr (map ar_path arts)" using files(1) by simp
  show "\<forall>a \<in> set arts. verify_artifact cr (FDir es) a = Inr ()" using r one by (auto simp: in_set_conv_nth)
qed

lemma bundle_paths_distinct:
  assumes "entries_ok es" shows "distinct (map (rel_path \<circ> fst) (bundle_files es))"
proof -
  have "distinct (map fst (tree_files pre es))" for pre
    using assms
  proof (induction pre es rule: tree_files.induct)
    case (2 pre n ds es)
    have "fst ` set (tree_files (pre @ [n]) ds) \<inter> fst ` set (tree_files pre es) = {}"
    proof -
      have "\<not> (\<exists>ns. ns \<in> fst ` set (tree_files (pre @ [n]) ds) \<and> ns \<in> fst ` set (tree_files pre es))"
        using 2(3) by (force dest: tree_files_prefix)
      then show ?thesis by blast
    qed
    then show ?case using 2 by simp
  next
    case (3 pre n c es)
    have "pre @ [n] \<notin> fst ` set (tree_files pre es)" using 3(2) by (force dest: tree_files_prefix)
    then show ?case using 3 by simp
  qed simp_all
  then have "distinct (map fst (bundle_files es))" by (simp add: bundle_files_def distinct_map_filter)
  moreover have "inj_on rel_path (fst ` set (bundle_files es))"
    using bundle_file_ok(1,2) [OF assms] by (intro inj_onI) (auto intro: rel_path_inj)
  ultimately show ?thesis by (simp add: distinct_map comp_inj_on)
qed


lemma unsigned_fields [simp]:
  "component_refs (m\<lparr>rm_signature := s\<rparr>) = component_refs m" "named_paths (m\<lparr>rm_signature := s\<rparr>) = named_paths m"
  "production_complete (m\<lparr>rm_signature := s\<rparr>) = production_complete m"
  "required_licenses (m\<lparr>rm_signature := s\<rparr>) = required_licenses m"
  "license_held (m\<lparr>rm_signature := s\<rparr>) = license_held m"
  "signing_payload cr (m\<lparr>rm_signature := s\<rparr>) = signing_payload cr m"
  by (simp_all add: component_refs_def named_paths_def production_complete_def required_licenses_def license_held_def
      signing_payload_def fun_eq_iff)

lemma validate_signed:
  assumes "validate cr (m\<lparr>rm_signature := None\<rparr>) = Inr ()" and "validate_signature cr s = Inr ()"
  shows "validate cr (m\<lparr>rm_signature := Some s\<rparr>) = Inr ()"
  using assms by (simp add: validate_def result_bind_eq_Inr_iff)

lemma verify_artifacts_signed:
  assumes "verify_artifacts cr (m\<lparr>rm_signature := None\<rparr>) root = Inr ()" and "validate_signature cr s = Inr ()"
  shows "verify_artifacts cr (m\<lparr>rm_signature := Some s\<rparr>) root = Inr ()"
proof -
  have v: "validate cr (m\<lparr>rm_signature := None\<rparr>) = Inr ()"
    using assms(1) by (auto simp: verify_artifacts_def result_bind_eq_Inr_iff)
  note w = validate_signed [OF v assms(2)]
  show ?thesis
    using assms(1) [unfolded verify_artifacts_def v result_bind_simps]
    unfolding verify_artifacts_def w result_bind_simps by (simp add: Let_def cong: if_cong split del: if_split)
qed

lemma decode_encoded:
  assumes "hex_laws (cr_hex_encode cr) (cr_hex_decode cr)" and "length bs = n"
  shows "decode_exact_hex cr n (cr_hex_encode cr bs) = Some bs"
  using hex_laws_encode [OF assms(1), of bs] assms(2)
  by (simp add: decode_exact_hex_def list_ex_not_iff)

section \<open>Properties\<close>

text \<open>
  C16. What the production check accepts is exactly what was signed: the bundle has no link and no special file, its
  regular files other than the root manifest are exactly the declared artifacts, each file has the declared SHA-256 and
  size, and the trusted key verifies the signature over the manifest without its signature.
\<close>

theorem production_bundle_exact:
  assumes "entries_ok es" and "verify_production cr m (FDir es) key_id verify_strict = Inr ()"
  shows "plain_entries es \<and> ar_path ` set (rm_artifacts m) = (rel_path \<circ> fst) ` set (bundle_files es) \<and>
         list_all (\<lambda>(ns, c). \<exists>a b. a \<in> set (rm_artifacts m) \<and> ar_path a = rel_path ns \<and> c = Some b \<and>
                                    cr_sha256 cr b = ar_sha256 a \<and> length b = ar_size_bytes a) (bundle_files es) \<and>
         (\<exists>s signature payload. rm_signature m = Some s \<and> si_key_id s = Some key_id \<and>
            decode_exact_hex cr 64 (si_value s) = Some signature \<and>
            cr_to_vec cr (m\<lparr>rm_signature := None\<rparr>) = Some payload \<and> verify_strict payload signature)"
proof -
  note v = iffD1 [OF verify_production_iff assms(2)]
  have ne: "rm_artifacts m \<noteq> []" using v by (simp add: production_complete_def)
  note e = listed_bundle_exact [OF assms(1) ne conjunct1 [OF v]]
  have "list_all (\<lambda>(ns, c). \<exists>a b. a \<in> set (rm_artifacts m) \<and> ar_path a = rel_path ns \<and> c = Some b \<and>
      cr_sha256 cr b = ar_sha256 a \<and> length b = ar_size_bytes a) (bundle_files es)"
    using e(3) by (fastforce simp: list_all_iff)
  moreover obtain s signature payload where "trusted_signature m key_id = Some s"
    "decode_exact_hex cr 64 (si_value s) = Some signature" "signing_payload cr m = Inr payload" "verify_strict payload signature"
    using v by blast
  then have "\<exists>s signature payload. rm_signature m = Some s \<and> si_key_id s = Some key_id \<and>
      decode_exact_hex cr 64 (si_value s) = Some signature \<and>
      cr_to_vec cr (m\<lparr>rm_signature := None\<rparr>) = Some payload \<and> verify_strict payload signature"
    by (auto simp: trusted_signature_def signing_payload_def split: option.splits if_splits)
  ultimately show ?thesis using e(1,2) by blast
qed

text \<open>
  C19. One manifest admits one bundle: two directories that pass the check of the same listed manifest hold the same
  files with the same contents, the manifest file itself aside, unless SHA-256 collides on their contents. A file added,
  removed, renamed or changed is therefore always noticed.
\<close>

theorem one_manifest_one_bundle:
  assumes "entries_ok es" and "entries_ok es'" and "rm_artifacts m \<noteq> []"
    and "verify_artifacts cr m (FDir es) = Inr ()" and "verify_artifacts cr m (FDir es') = Inr ()"
    and "inj_on (cr_sha256 cr) {b. Some b \<in> snd ` set (bundle_files es @ bundle_files es')}"
  shows "set (bundle_files es) = set (bundle_files es')"
proof -
  have sub: "f \<in> set (bundle_files ys)"
    if ok: "entries_ok xs" "entries_ok ys" "verify_artifacts cr m (FDir xs) = Inr ()" "verify_artifacts cr m (FDir ys) = Inr ()"
      and inj: "inj_on (cr_sha256 cr) {b. Some b \<in> snd ` set (bundle_files xs @ bundle_files ys)}"
      and f: "f \<in> set (bundle_files xs)" for xs ys f
  proof -
    obtain ns c where nc: "f = (ns, c)" by (cases f)
    obtain a b where a: "a \<in> set (rm_artifacts m)" "ar_path a = rel_path ns" "c = Some b" "cr_sha256 cr b = ar_sha256 a"
      using listed_bundle_exact(3) [OF ok(1) assms(3) ok(3)] f nc by blast
    have "rel_path ns \<in> (rel_path \<circ> fst) ` set (bundle_files ys)"
      using listed_bundle_exact(2) [OF ok(2) assms(3) ok(4)] a(1,2) by (metis imageI)
    then obtain ms d where g: "(ms, d) \<in> set (bundle_files ys)" "rel_path ns = rel_path ms" by auto
    have fx: "(ns, c) \<in> set (bundle_files xs)" using f nc by simp
    have same: "ns = ms"
      by (rule rel_path_inj [OF bundle_file_ok(1) [OF ok(1) fx] bundle_file_ok(1) [OF ok(2) g(1)]
            bundle_file_ok(2) [OF ok(1) fx] bundle_file_ok(2) [OF ok(2) g(1)] g(2)])
    have "verify_artifact cr (FDir ys) a = Inr ()"
      using iffD1 [OF verify_artifacts_listed [OF assms(3)] ok(4)] a(1) by blast
    then obtain e where e: "d = Some e" "cr_sha256 cr e = ar_sha256 a"
      using bundle_file_ok(3,4) [OF ok(2) g(1)] a(2) g(2) by (auto simp: verify_artifact_iff)
    have "snd (ns, c) \<in> snd ` set (bundle_files xs @ bundle_files ys)" using fx by (intro imageI) simp
    then have "b \<in> {b. Some b \<in> snd ` set (bundle_files xs @ bundle_files ys)}" unfolding a(3) snd_conv by (rule CollectI)
    moreover have "snd (ms, d) \<in> snd ` set (bundle_files xs @ bundle_files ys)" using g(1) by (intro imageI) simp
    then have "e \<in> {b. Some b \<in> snd ` set (bundle_files xs @ bundle_files ys)}" unfolding e(1) snd_conv by (rule CollectI)
    ultimately have "b = e" by (rule inj_onD [OF inj trans [OF a(4) e(2) [symmetric]]])
    then show ?thesis using g(1) nc same a(3) e(1) by simp
  qed
  have inj': "inj_on (cr_sha256 cr) {b. Some b \<in> snd ` set (bundle_files es' @ bundle_files es)}"
    using assms(6) by (simp add: Un_commute image_Un)
  show ?thesis using sub [OF assms(1,2,4,5,6)] sub [OF assms(2,1,5,4) inj'] by blast
qed

text \<open>
  A manifest built from a bundle verifies that bundle.
\<close>

lemma local_manifest_verifies:
  assumes "entries_ok es" and "\<And>b. decode_exact_hex cr 32 (cr_sha256 cr b) \<noteq> None"
    and "build_local_unsigned_manifest cr now platform (FDir es) bundle_id version connector = Inr m"
    and "bundle_id \<noteq> []" and "length bundle_id \<le> 128" and "now \<le> 9007199254740991"
    and "connector \<in> (rel_path \<circ> fst) ` set (bundle_files es)"
  shows "verify_artifacts cr m (FDir es) = Inr ()"
proof -
  obtain con arts where m: "artifact_for_file cr (FDir es) connector = Inr con" "artifacts_for_bundle cr (FDir es) = Inr arts"
    "rm_artifacts m = arts" "component_refs m = [\<lparr>co_name = ''kt-signal-connector'', co_version = version, co_artifact = con\<rparr>]"
    "rm_source_archive m = None" "rm_manifest_version m = MANIFEST_VERSION" "rm_bundle_id m = bundle_id"
    "rm_created_at_unix_ms m = now"
    "rm_licenses m = [\<lparr>li_component = ''kt-signal-connector'', li_spdx = ''AGPL-3.0-only'',
                       li_path = ''licenses/kt-signal-connector.AGPL-3.0-only.txt''\<rparr>]"
    "named_paths m = [''licenses/kt-signal-connector.AGPL-3.0-only.txt'', ''sbom.cdx.json'', ''build-record.json'']"
    "rm_signature m = Some \<lparr>si_scheme = ''unsigned-local'', si_key_id = None, si_value = ''local-dev-not-for-production''\<rparr>"
    using assms(3)
    by (auto simp: build_local_unsigned_manifest_def result_bind_eq_Inr_iff component_refs_def named_paths_def opt_list_def)
  obtain ns c where con: "(ns, c) \<in> set (bundle_files es)" "connector = rel_path ns" using assms(7) by auto
  have conn: "ar_path con = rel_path ns \<and> verify_artifact cr (FDir es) con = Inr ()"
    using artifact_for_file_exact [OF assms(1) con(1) _ assms(2)] m(1) con(2) by simp
  note arts = artifacts_for_bundle_exact [OF assms(1) m(2) assms(2)]
  note l = list_bundle_exact [OF assms(1) arts(1)]
  have paths: "ar_path ` set arts = (rel_path \<circ> fst) ` set (bundle_files es)" using l(2) by (metis list.set_map set_mset_mset)
  then have mem: "ar_path con \<in> ar_path ` set arts" using con(1) conn by force
  have dis: "distinct (map ar_path arts)"
    using bundle_paths_distinct [OF assms(1)] l(2) by (metis mset_eq_imp_distinct_iff)
  have srt: "sort (map ar_path arts) = map ar_path arts" using l(3) by (rule sorted_sort_id)
  have val: "\<forall>a \<in> set (con # arts). validate_artifact cr a = Inr ()"
    using arts(2) conn by (auto simp: verify_artifact_iff)
  have named: "list_all validate_relative_path (named_paths m)" unfolding m(10) by code_simp
  have "validate cr m = Inr ()"
    using val named assms(4-6)
    by (simp add: validate_def m result_bind_eq_Inr_iff check_all_iff list_all_iff opt_list_def validate_signature_def ensure_def)
  moreover have "rm_artifacts m \<noteq> []" using mem m(3) by auto
  moreover have "distinct_adj (map ar_path arts)" using dis by (rule distinct_adj_distinct)
  ultimately show ?thesis
    using arts mem by (simp add: verify_artifacts_listed m srt opt_list_def)
qed

text \<open>
  Signing round trip: a manifest that meets the other production rules is accepted by the production check once it
  is signed, under the key it was signed with.
\<close>

lemma signed_manifest_verifies:
  assumes "hex_laws (cr_hex_encode cr) (cr_hex_decode cr)" and "\<And>p. length (sign p) = 64 \<and> verify_strict p (sign p)"
    and "verify_artifacts cr (m\<lparr>rm_signature := None\<rparr>) root = Inr ()" and "production_complete m"
    and "list_all (license_held m) (required_licenses m)" and "set (named_paths m) \<subseteq> ar_path ` set (rm_artifacts m)"
    and "sign_ed25519 cr sign key_id m = Inr signed"
  shows "verify_production cr signed root key_id verify_strict = Inr ()"
proof -
  obtain payload where key: "valid_key_id key_id" and pay: "signing_payload cr m = Inr payload"
    and signed: "signed = m\<lparr>rm_signature :=
      Some \<lparr>si_scheme = ''ed25519'', si_key_id = Some key_id, si_value = cr_hex_encode cr (sign payload)\<rparr>\<rparr>"
    using assms(7) by (auto simp: sign_ed25519_def result_bind_eq_Inr_iff split: if_splits)
  have dec: "decode_exact_hex cr 64 (cr_hex_encode cr (sign payload)) = Some (sign payload)"
    using assms(2) by (intro decode_encoded [OF assms(1)]) simp
  have "verify_artifacts cr signed root = Inr ()"
    unfolding signed by (rule verify_artifacts_signed [OF assms(3)]) (simp add: validate_signature_def key dec)
  then show ?thesis
    using assms(2,4-6) pay dec by (simp add: verify_production_iff signed trusted_signature_def)
qed


section \<open>Witnesses\<close>

definition demo_sha :: "string \<Rightarrow> string" where
  "demo_sha c = ref_hex_encode (replicate 31 CHR 0x00 @ [if c = [] then CHR 0x00 else CHR 0x01])"

definition demo_bundle :: "(string \<times> fs_node) list" where
  "demo_bundle = [(''manifest.json'', FFile (Some [])), (''bin'', FDir [(''kt'', FFile (Some ''x''))])]"

definition demo_artifact :: artifact_ref where
  "demo_artifact = \<lparr>ar_path = ''bin/kt'', ar_sha256 = demo_sha ''x'', ar_size_bytes = 1\<rparr>"

definition demo_license :: "string \<Rightarrow> license_ref" where
  "demo_license c = \<lparr>li_component = c, li_spdx = ''AGPL-3.0-only'', li_path = ''bin/kt''\<rparr>"

definition demo_manifest :: runtime_manifest where
  "demo_manifest =
     \<lparr>rm_manifest_version = ''1.0'', rm_bundle_id = ''b'', rm_created_at_unix_ms = 1, rm_platform = ''macos-x64'',
      rm_components =
        \<lparr>cs_connector = \<lparr>co_name = ''kt-signal-connector'', co_version = ''1'', co_artifact = demo_artifact\<rparr>,
         cs_signal_cli = None, cs_jre = None\<rparr>,
      rm_artifacts = [demo_artifact], rm_licenses = [demo_license ''kt-signal-connector'', demo_license ''libsignal''],
      rm_sbom_path = Some ''bin/kt'', rm_source_archive = Some demo_artifact, rm_build_record_path = Some ''bin/kt'',
      rm_signature = None\<rparr>"

definition demo_sign :: "string \<Rightarrow> string" where
  "demo_sign p = replicate 64 (hd (p @ ''a''))"

definition demo_signed :: runtime_manifest where
  "demo_signed =
     demo_manifest\<lparr>rm_signature :=
       Some \<lparr>si_scheme = ''ed25519'', si_key_id = Some ''k'', si_value = ref_hex_encode (demo_sign ''b'')\<rparr>\<rparr>"

definition demo_crates :: crates where
  "demo_crates =
     \<lparr>cr_sha256 = demo_sha, cr_hex_encode = ref_hex_encode, cr_hex_decode = ref_hex_decode, cr_from_str = (\<lambda>_. Some demo_signed),
      cr_is_utf8 = (\<lambda>_. True), cr_to_vec = (\<lambda>m. Some (rm_bundle_id m))\<rparr>"

lemma demo_entries_ok: "entries_ok demo_bundle"
  by code_simp

lemma demo_hash_ok: "decode_exact_hex demo_crates 32 (demo_sha b) \<noteq> None"
  using decode_encoded [of demo_crates "replicate 31 CHR 0x00 @ [if b = [] then CHR 0x00 else CHR 0x01]" 32] ref_hex_laws
  by (simp add: demo_crates_def demo_sha_def)

lemma demo_path: "validate_relative_path ''bin/kt''" "joined ''bin/kt'' = [''bin'', ''kt'']"
  by code_simp+

lemma demo_artifact_ok: "validate_artifact demo_crates demo_artifact = Inr ()"
  "verify_artifact demo_crates (FDir demo_bundle) demo_artifact = Inr ()"
  using demo_hash_ok
  by (simp_all add: verify_artifact_iff validate_artifact_def demo_artifact_def demo_path demo_bundle_def demo_crates_def)

lemma demo_listed: "list_bundle_files (FDir demo_bundle) = Inr [''bin/kt'']"
  by code_simp

lemma demo_validate: "validate demo_crates demo_manifest = Inr ()"
  by (simp add: validate_def demo_manifest_def component_refs_def opt_list_def check_all_iff result_bind_eq_Inr_iff
      demo_artifact_ok named_paths_def demo_license_def demo_path MANIFEST_VERSION_def ensure_def)

lemma demo_verifies: "verify_artifacts demo_crates demo_manifest (FDir demo_bundle) = Inr ()"
proof -
  have "rm_artifacts demo_manifest \<noteq> []" by (simp add: demo_manifest_def)
  then show ?thesis
    using demo_validate demo_artifact_ok demo_listed
    by (simp add: verify_artifacts_listed) (simp add: demo_manifest_def component_refs_def opt_list_def demo_artifact_def)
qed

lemma demo_complete: "production_complete demo_manifest" "list_all (license_held demo_manifest) (required_licenses demo_manifest)"
  "set (named_paths demo_manifest) \<subseteq> ar_path ` set (rm_artifacts demo_manifest)"
  by (simp_all add: production_complete_def license_held_def required_licenses_def named_paths_def opt_list_def
      demo_manifest_def demo_license_def demo_artifact_def)

lemma demo_signs: "sign_ed25519 demo_crates demo_sign ''k'' demo_manifest = Inr demo_signed"
  by (simp add: sign_ed25519_def signing_payload_def demo_signed_def valid_key_id_def ascii_defs demo_crates_def)
    (simp add: demo_manifest_def)


lemma demo_unsigned: "demo_manifest\<lparr>rm_signature := None\<rparr> = demo_manifest"
  by (simp add: demo_manifest_def)

lemma demo_production: "verify_production demo_crates demo_signed (FDir demo_bundle) ''k'' (\<lambda>p s. s = demo_sign p) = Inr ()"
proof -
  have dec: "decode_exact_hex demo_crates 64 (ref_hex_encode (demo_sign ''b'')) = Some (demo_sign ''b'')"
    using decode_encoded [of demo_crates "demo_sign ''b''" 64] ref_hex_laws by (simp add: demo_crates_def demo_sign_def)
  have "verify_artifacts demo_crates demo_signed (FDir demo_bundle) = Inr ()"
    unfolding demo_signed_def
    by (rule verify_artifacts_signed)
      (simp_all add: demo_unsigned demo_verifies validate_signature_def dec valid_key_id_def ascii_defs)
  then show ?thesis
    using demo_complete(1-3) dec
    by (simp add: verify_production_iff demo_signed_def trusted_signature_def signing_payload_def)
      (simp add: demo_crates_def demo_manifest_def)
qed

theorem production_bundle_exact_witness:
  "entries_ok demo_bundle \<and> plain_entries demo_bundle \<and> ar_path ` set (rm_artifacts demo_signed) = {''bin/kt''}"
  using production_bundle_exact [OF demo_entries_ok demo_production] demo_entries_ok
  by (simp add: demo_signed_def demo_manifest_def demo_artifact_def)

theorem one_manifest_one_bundle_witness:
  "verify_artifacts demo_crates demo_manifest (FDir demo_bundle) = Inr () \<and>
   set (bundle_files (rev demo_bundle)) = set (bundle_files demo_bundle)"
proof -
  have rev_ok: "entries_ok (rev demo_bundle)" by code_simp
  have "list_bundle_files (FDir (rev demo_bundle)) = Inr [''bin/kt'']" by code_simp
  moreover have "verify_artifact demo_crates (FDir (rev demo_bundle)) demo_artifact = Inr ()"
    using demo_hash_ok
    by (simp add: verify_artifact_iff validate_artifact_def demo_artifact_def demo_path demo_bundle_def demo_crates_def)
  ultimately have rev_verifies: "verify_artifacts demo_crates demo_manifest (FDir (rev demo_bundle)) = Inr ()"
    using demo_validate
    by (simp add: verify_artifacts_listed demo_manifest_def component_refs_def opt_list_def) (simp add: demo_artifact_def)
  have files: "bundle_files demo_bundle = [([''bin'', ''kt''], Some ''x'')]"
    "bundle_files (rev demo_bundle) = [([''bin'', ''kt''], Some ''x'')]" by code_simp+
  have "rm_artifacts demo_manifest \<noteq> []" by (simp add: demo_manifest_def)
  then have "set (bundle_files (rev demo_bundle)) = set (bundle_files demo_bundle)"
    by (rule one_manifest_one_bundle [OF rev_ok demo_entries_ok _ rev_verifies demo_verifies]) (simp add: files)
  then show ?thesis using demo_verifies by blast
qed

end
