(* ===== verification/Runtime_Lkg.thy ===== *)
theory Runtime_Lkg
  imports Runtime_Manifest
begin

text \<open>
  The staged, active and last-known-good runtimes of \<open>src/lkg.rs\<close>. A layout is the entries of \<open>versions/\<close>, the three
  pointer files and the temporary files that \<open>write_pointer\<close> may leave behind. An operation reads first and then makes a
  fixed sequence of disk operations, each of which happens or does not: a crash, or an error that ends the operation,
  leaves the layout after a prefix of the sequence. \<open>plen\<close> is the length of the JSON text of a pointer, and \<open>now\<close> gives
  the clock reading of each pointer write.
\<close>

datatype lkg_error =
    LkgIo | LkgManifest manifest_error | InvalidLayout | NotStaged string | VersionExists string | NoActive | NoLkg

record runtime_pointer =
  rp_version_id :: string
  rp_updated_at_unix_ms :: nat

text \<open>A pointer file: its length and what serde makes of it.\<close>

record pointer_file =
  pf_len :: nat
  pf_parsed :: "runtime_pointer option"

datatype pointer_slot = StagedSlot | ActiveSlot | LkgSlot

record runtime_layout =
  ly_versions :: "(string \<times> fs_node) list"
  ly_files :: "pointer_slot \<Rightarrow> pointer_file option"
  ly_temps :: "(pointer_slot \<times> runtime_pointer) list"

datatype disk_op =
    PutTemp pointer_slot runtime_pointer
  | RenameTemp pointer_slot runtime_pointer
  | RemoveFile pointer_slot
  | PutStaging string fs_node
  | RenameStaging string string

type_synonym trust = "(string \<times> (string \<Rightarrow> string \<Rightarrow> bool)) option"

definition MAX_POINTER_BYTES :: nat where "MAX_POINTER_BYTES = 64 * 1024"

definition validate_version_id :: "string \<Rightarrow> bool" where
  "validate_version_id v \<longleftrightarrow>
     \<not> (v = [] \<or> length v > 128 \<or> \<not> list_all (\<lambda>c. is_ascii_alphanumeric c \<or> c \<in> set ''._-'') v \<or> v = ''.'' \<or> v = ''..'')"

definition read_pointer :: "pointer_file option \<Rightarrow> lkg_error + runtime_pointer option" where
  "read_pointer file =
     (case file of
        None \<Rightarrow> Inr None
      | Some pf \<Rightarrow>
          if pf_len pf > MAX_POINTER_BYTES then Inl InvalidLayout
          else case pf_parsed pf of
                 None \<Rightarrow> Inl InvalidLayout
               | Some p \<Rightarrow> if validate_version_id (rp_version_id p) then Inr (Some p) else Inl InvalidLayout)"

definition write_pointer :: "pointer_slot \<Rightarrow> string \<Rightarrow> nat \<Rightarrow> lkg_error + disk_op list" where
  "write_pointer slot version_id now =
     (if \<not> validate_version_id version_id then Inl InvalidLayout
      else let p = \<lparr>rp_version_id = version_id, rp_updated_at_unix_ms = now\<rparr>
           in Inr [PutTemp slot p, RenameTemp slot p])"

definition apply_op :: "(runtime_pointer \<Rightarrow> nat) \<Rightarrow> disk_op \<Rightarrow> runtime_layout \<Rightarrow> runtime_layout" where
  "apply_op plen op ly =
     (case op of
        PutTemp slot p \<Rightarrow> ly\<lparr>ly_temps := (slot, p) # ly_temps ly\<rparr>
      | RenameTemp slot p \<Rightarrow>
          ly\<lparr>ly_files := (ly_files ly)(slot := Some \<lparr>pf_len = plen p, pf_parsed = Some p\<rparr>),
             ly_temps := remove1 (slot, p) (ly_temps ly)\<rparr>
      | RemoveFile slot \<Rightarrow> ly\<lparr>ly_files := (ly_files ly)(slot := None)\<rparr>
      | PutStaging name t \<Rightarrow> ly\<lparr>ly_versions := (name, t) # ly_versions ly\<rparr>
      | RenameStaging name version_id \<Rightarrow>
          (case map_of (ly_versions ly) name of
             None \<Rightarrow> ly
           | Some t \<Rightarrow> ly\<lparr>ly_versions := (version_id, t) # filter (\<lambda>e. fst e \<noteq> name) (ly_versions ly)\<rparr>))"

definition run_ops :: "(runtime_pointer \<Rightarrow> nat) \<Rightarrow> disk_op list \<Rightarrow> runtime_layout \<Rightarrow> runtime_layout" where
  "run_ops plen ops ly = fold (apply_op plen) ops ly"

definition verify_version :: "crates \<Rightarrow> trust \<Rightarrow> fs_node option \<Rightarrow> lkg_error + unit" where
  "verify_version cr trust dir =
     (case Option.bind dir follow of
        None \<Rightarrow> Inl InvalidLayout
      | Some root \<Rightarrow>
          (case Option.bind (resolve root [''manifest.json'']) follow of
             Some (FFile c) \<Rightarrow>
               (case load cr (Some (FFile c)) of
                  Inl e \<Rightarrow> Inl (LkgManifest e)
                | Inr m \<Rightarrow>
                    (case (case trust of
                             Some (key_id, key) \<Rightarrow> verify_production cr m root key_id key
                           | None \<Rightarrow> verify_artifacts cr m root) of
                       Inl e \<Rightarrow> Inl (LkgManifest e)
                     | Inr u \<Rightarrow> Inr u))
           | _ \<Rightarrow> Inl InvalidLayout))"

definition version_ok :: "crates \<Rightarrow> trust \<Rightarrow> runtime_layout \<Rightarrow> string \<Rightarrow> bool" where
  "version_ok cr trust ly v \<longleftrightarrow> verify_version cr trust (map_of (ly_versions ly) v) = Inr ()"

function copy_dir_all :: "(string \<times> fs_node) list \<Rightarrow> lkg_error + (string \<times> fs_node) list" where
  "copy_dir_all [] = Inr []"
| "copy_dir_all ((n, FDir ds) # es) =
     result_bind (copy_dir_all ds) (\<lambda>ds'. result_bind (copy_dir_all es) (\<lambda>es'. Inr ((n, FDir ds') # es')))"
| "copy_dir_all ((n, FFile c) # es) =
     (if c = None then Inl LkgIo else result_bind (copy_dir_all es) (\<lambda>es'. Inr ((n, FFile c) # es')))"
| "copy_dir_all ((n, FLink t) # es) = Inl InvalidLayout"
| "copy_dir_all ((n, FOther) # es) = Inl InvalidLayout"
  by pat_completeness auto
termination
  by (relation "measure (size_list (size_prod (\<lambda>_. 0) size))") auto

text \<open>
  \<open>stage_bundle_with_policy\<close>: the answer, or the disk operations it makes. A bundle that does not copy or does not verify
  leaves nothing behind, since the staging directory is removed.
\<close>

definition stage_bundle ::
    "crates \<Rightarrow> trust \<Rightarrow> string \<Rightarrow> nat \<Rightarrow> string \<Rightarrow> fs_node \<Rightarrow> runtime_layout \<Rightarrow> lkg_error + disk_op list" where
  "stage_bundle cr trust suffix now version_id bundle ly =
     (if \<not> validate_version_id version_id then Inl InvalidLayout
      else if Option.bind (map_of (ly_versions ly) version_id) follow \<noteq> None then Inl (VersionExists version_id)
      else
        let staging = ''.staging-'' @ version_id @ ''-'' @ suffix
        in case bundle of
             FDir es \<Rightarrow>
               result_bind (copy_dir_all es) (\<lambda>copied.
               result_bind (verify_version cr trust (Some (FDir copied))) (\<lambda>_.
               result_bind (write_pointer StagedSlot version_id now) (\<lambda>ops.
               Inr (PutStaging staging (FDir copied) # RenameStaging staging version_id # ops))))
           | _ \<Rightarrow> Inl LkgIo)"

text \<open>The previous active runtime becomes the last known good one when it still verifies.\<close>

definition keep_lkg ::
    "crates \<Rightarrow> trust \<Rightarrow> nat \<Rightarrow> runtime_layout \<Rightarrow> string \<Rightarrow> runtime_pointer option \<Rightarrow> lkg_error + disk_op list" where
  "keep_lkg cr trust now ly staged active =
     (case active of
        Some a \<Rightarrow>
          if rp_version_id a \<noteq> staged \<and> version_ok cr trust ly (rp_version_id a)
          then write_pointer LkgSlot (rp_version_id a) now else Inr []
      | None \<Rightarrow> Inr [])"

text \<open>\<open>activate_staged_with_policy\<close>: the answer when it makes no change, or the operations before its last read.\<close>

definition activate_staged ::
    "crates \<Rightarrow> trust \<Rightarrow> (pointer_slot \<Rightarrow> nat) \<Rightarrow> runtime_layout \<Rightarrow> lkg_error + runtime_pointer + disk_op list" where
  "activate_staged cr trust now ly =
     (case read_pointer (ly_files ly StagedSlot) of
        Inl e \<Rightarrow> Inl e
      | Inr None \<Rightarrow>
          (case read_pointer (ly_files ly ActiveSlot) of
             Inl e \<Rightarrow> Inl e
           | Inr None \<Rightarrow> Inl (NotStaged ''staged'')
           | Inr (Some active) \<Rightarrow>
               if version_ok cr trust ly (rp_version_id active) then Inr (Inl active) else Inl (NotStaged ''staged''))
      | Inr (Some staged) \<Rightarrow>
          if \<not> version_ok cr trust ly (rp_version_id staged) then Inl (NotStaged (rp_version_id staged))
          else
            result_bind (read_pointer (ly_files ly ActiveSlot)) (\<lambda>active.
            result_bind (keep_lkg cr trust (now LkgSlot) ly (rp_version_id staged) active) (\<lambda>keep.
            result_bind (write_pointer ActiveSlot (rp_version_id staged) (now ActiveSlot)) (\<lambda>switch.
            Inr (Inr (keep @ switch @ [RemoveFile StagedSlot]))))))"

definition rollback_to_lkg :: "crates \<Rightarrow> trust \<Rightarrow> nat \<Rightarrow> runtime_layout \<Rightarrow> lkg_error + disk_op list" where
  "rollback_to_lkg cr trust now ly =
     result_bind (read_pointer (ly_files ly LkgSlot)) (\<lambda>lkg.
     case lkg of
       None \<Rightarrow> Inl NoLkg
     | Some p \<Rightarrow>
         if version_ok cr trust ly (rp_version_id p) then write_pointer ActiveSlot (rp_version_id p) now else Inl NoLkg)"

text \<open>The last read of both operations.\<close>

definition read_back :: "runtime_layout \<Rightarrow> lkg_error + runtime_pointer" where
  "read_back ly = result_bind (read_pointer (ly_files ly ActiveSlot)) (\<lambda>p. ok_or NoActive p)"

definition activate_run ::
    "crates \<Rightarrow> trust \<Rightarrow> (pointer_slot \<Rightarrow> nat) \<Rightarrow> (runtime_pointer \<Rightarrow> nat) \<Rightarrow> runtime_layout \<Rightarrow>
     (lkg_error + runtime_pointer) \<times> runtime_layout" where
  "activate_run cr trust now plen ly =
     (case activate_staged cr trust now ly of
        Inl e \<Rightarrow> (Inl e, ly)
      | Inr (Inl p) \<Rightarrow> (Inr p, ly)
      | Inr (Inr ops) \<Rightarrow> (read_back (run_ops plen ops ly), run_ops plen ops ly))"

section \<open>Steps and crashes\<close>

text \<open>The random suffix of a staging directory is fresh.\<close>

inductive lkg_step ::
    "crates \<Rightarrow> trust \<Rightarrow> (runtime_pointer \<Rightarrow> nat) \<Rightarrow> runtime_layout \<Rightarrow> runtime_layout \<Rightarrow> bool" for cr trust plen where
  ls_stage: "stage_bundle cr trust suffix now v bundle ly = Inr ops \<Longrightarrow>
             ''.staging-'' @ v @ ''-'' @ suffix \<notin> fst ` set (ly_versions ly) \<Longrightarrow>
             lkg_step cr trust plen ly (run_ops plen (take k ops) ly)"
| ls_activate: "activate_staged cr trust clock ly = Inr (Inr ops) \<Longrightarrow>
                lkg_step cr trust plen ly (run_ops plen (take k ops) ly)"
| ls_rollback: "rollback_to_lkg cr trust now ly = Inr ops \<Longrightarrow>
                lkg_step cr trust plen ly (run_ops plen (take k ops) ly)"

definition empty_layout :: runtime_layout where
  "empty_layout = \<lparr>ly_versions = [], ly_files = (\<lambda>_. None), ly_temps = []\<rparr>"

inductive lkg_reach :: "crates \<Rightarrow> trust \<Rightarrow> (runtime_pointer \<Rightarrow> nat) \<Rightarrow> runtime_layout \<Rightarrow> bool" for cr trust plen where
  lr_start: "lkg_reach cr trust plen empty_layout"
| lr_step: "lkg_reach cr trust plen ly \<Longrightarrow> lkg_step cr trust plen ly ly' \<Longrightarrow> lkg_reach cr trust plen ly'"

section \<open>Lemmas\<close>

lemma copy_dir_all_exact: "copy_dir_all es = Inr es' \<Longrightarrow> es' = es"
  by (induction es arbitrary: es' rule: copy_dir_all.induct) (auto simp: result_bind_eq_Inr_iff split: if_splits)

lemma run_ops_simps [simp]: "run_ops plen [] ly = ly" "run_ops plen (op # ops) ly = run_ops plen ops (apply_op plen op ly)"
  "run_ops plen (xs @ ys) ly = run_ops plen ys (run_ops plen xs ly)"
  by (simp_all add: run_ops_def)

lemma write_pointer_ops:
  assumes "write_pointer slot v now = Inr ops"
  shows "validate_version_id v" and "ops = [PutTemp slot \<lparr>rp_version_id = v, rp_updated_at_unix_ms = now\<rparr>,
                                            RenameTemp slot \<lparr>rp_version_id = v, rp_updated_at_unix_ms = now\<rparr>]"
  using assms by (auto simp: write_pointer_def Let_def split: if_splits)


definition pointed :: "runtime_layout \<Rightarrow> pointer_slot \<Rightarrow> string option" where
  "pointed ly slot = map_option rp_version_id (Option.bind (ly_files ly slot) pf_parsed)"

definition small_pointers :: "(runtime_pointer \<Rightarrow> nat) \<Rightarrow> bool" where
  "small_pointers plen \<longleftrightarrow> (\<forall>p. validate_version_id (rp_version_id p) \<longrightarrow> plen p \<le> MAX_POINTER_BYTES)"

lemma read_written:
  assumes "small_pointers plen" and "validate_version_id (rp_version_id p)"
  shows "read_pointer (Some \<lparr>pf_len = plen p, pf_parsed = Some p\<rparr>) = Inr (Some p)"
  using assms by (auto simp: read_pointer_def small_pointers_def)

lemma read_valid: "read_pointer file = Inr (Some p) \<Longrightarrow> validate_version_id (rp_version_id p)"
  by (auto simp: read_pointer_def split: option.splits if_splits)

lemma read_pointed: "read_pointer (ly_files ly slot) = Inr (Some p) \<Longrightarrow> pointed ly slot = Some (rp_version_id p)"
  by (auto simp: read_pointer_def pointed_def split: option.splits if_splits)

lemma version_ok_versions: "ly_versions ly' = ly_versions ly \<Longrightarrow> version_ok cr trust ly' v = version_ok cr trust ly v"
  by (simp add: version_ok_def)

subsection \<open>Every pointer names a version that verifies\<close>

definition pointer_good :: "crates \<Rightarrow> trust \<Rightarrow> runtime_layout \<Rightarrow> pointer_slot \<Rightarrow> bool" where
  "pointer_good cr trust ly slot \<longleftrightarrow>
     ly_files ly slot = None \<or>
     (\<exists>p. read_pointer (ly_files ly slot) = Inr (Some p) \<and> version_ok cr trust ly (rp_version_id p))"

definition pointer_op :: "crates \<Rightarrow> trust \<Rightarrow> runtime_layout \<Rightarrow> disk_op \<Rightarrow> bool" where
  "pointer_op cr trust ly op \<longleftrightarrow>
     (case op of
        PutTemp slot p \<Rightarrow> True
      | RenameTemp slot p \<Rightarrow> validate_version_id (rp_version_id p) \<and> version_ok cr trust ly (rp_version_id p)
      | RemoveFile slot \<Rightarrow> True
      | _ \<Rightarrow> False)"

lemma pointer_ops_keep:
  assumes "small_pointers plen"
  shows "list_all (pointer_op cr trust ly) ops \<Longrightarrow> (\<And>slot. pointer_good cr trust ly slot) \<Longrightarrow>
         ly_versions (run_ops plen ops ly) = ly_versions ly \<and> pointer_good cr trust (run_ops plen ops ly) slot"
proof (induction ops arbitrary: ly slot)
  case (Cons op ops)
  define ly1 where "ly1 = apply_op plen op ly"
  have vs: "ly_versions ly1 = ly_versions ly"
    using Cons(2) by (auto simp: ly1_def apply_op_def pointer_op_def split: disk_op.splits)
  have good: "pointer_good cr trust ly1 s" for s
    using Cons(2) Cons(3) [of s] read_written [OF assms]
    by (auto simp: ly1_def apply_op_def pointer_op_def pointer_good_def version_ok_def split: disk_op.splits)
  have "list_all (pointer_op cr trust ly1) ops"
    using Cons(2) by (auto simp: pointer_op_def version_ok_versions [OF vs] list_all_iff split: disk_op.splits)
  then show ?case using Cons(1) [OF _ good] vs by (simp add: ly1_def)
qed simp

lemma list_all_take: "list_all P xs \<Longrightarrow> list_all P (take k xs)"
  by (auto simp: list_all_iff dest: in_set_takeD)

lemma written_pointer_op:
  "write_pointer slot v now = Inr ops \<Longrightarrow> version_ok cr trust ly v \<Longrightarrow> list_all (pointer_op cr trust ly) ops"
  using write_pointer_ops [of slot v now ops] by (auto simp: pointer_op_def)

lemma activate_staged_cases:
  assumes "activate_staged cr trust clock ly = Inr (Inr ops)"
  obtains staged active keep switch where "read_pointer (ly_files ly StagedSlot) = Inr (Some staged)"
    "version_ok cr trust ly (rp_version_id staged)" "read_pointer (ly_files ly ActiveSlot) = Inr active"
    "keep_lkg cr trust (clock LkgSlot) ly (rp_version_id staged) active = Inr keep"
    "write_pointer ActiveSlot (rp_version_id staged) (clock ActiveSlot) = Inr switch"
    "ops = keep @ switch @ [RemoveFile StagedSlot]"
  using assms by (auto simp: activate_staged_def result_bind_eq_Inr_iff split: option.splits sum.splits if_splits)

lemma activate_pointer_ops:
  assumes "activate_staged cr trust clock ly = Inr (Inr ops)"
  shows "list_all (pointer_op cr trust ly) ops"
proof -
  obtain staged active keep switch where "read_pointer (ly_files ly StagedSlot) = Inr (Some staged)"
    and ok: "version_ok cr trust ly (rp_version_id staged)" and "read_pointer (ly_files ly ActiveSlot) = Inr active"
    and keep: "keep_lkg cr trust (clock LkgSlot) ly (rp_version_id staged) active = Inr keep"
    and switch: "write_pointer ActiveSlot (rp_version_id staged) (clock ActiveSlot) = Inr switch"
    and ops: "ops = keep @ switch @ [RemoveFile StagedSlot]"
    by (rule activate_staged_cases [OF assms])
  have "list_all (pointer_op cr trust ly) keep"
    using keep by (auto simp: keep_lkg_def intro: written_pointer_op split: option.splits if_splits)
  then show ?thesis using written_pointer_op [OF switch ok] by (simp add: ops pointer_op_def)
qed

lemma rollback_pointer_ops:
  assumes "rollback_to_lkg cr trust now ly = Inr ops"
  shows "list_all (pointer_op cr trust ly) ops"
  using assms by (auto simp: rollback_to_lkg_def result_bind_eq_Inr_iff intro: written_pointer_op split: option.splits if_splits)

lemma stage_versions:
  assumes "stage_bundle cr trust suffix now v bundle ly = Inr ops"
    and "''.staging-'' @ v @ ''-'' @ suffix \<notin> fst ` set (ly_versions ly)"
  obtains es p where "rp_version_id p = v" "validate_version_id v" "verify_version cr trust (Some (FDir es)) = Inr ()"
    "ops = [PutStaging (''.staging-'' @ v @ ''-'' @ suffix) (FDir es), RenameStaging (''.staging-'' @ v @ ''-'' @ suffix) v,
            PutTemp StagedSlot p, RenameTemp StagedSlot p]"
    "\<not> version_ok cr trust ly v"
proof -
  obtain es ops' where o: "validate_version_id v" "Option.bind (map_of (ly_versions ly) v) follow = None"
    "verify_version cr trust (Some (FDir es)) = Inr ()" "write_pointer StagedSlot v now = Inr ops'"
    "ops = PutStaging (''.staging-'' @ v @ ''-'' @ suffix) (FDir es) # RenameStaging (''.staging-'' @ v @ ''-'' @ suffix) v # ops'"
    using assms(1)
    by (auto simp: stage_bundle_def Let_def result_bind_eq_Inr_iff split: if_splits fs_node.splits)
  have "\<not> version_ok cr trust ly v" using o(2) by (simp add: version_ok_def verify_version_def)
  then show ?thesis using that [of "\<lparr>rp_version_id = v, rp_updated_at_unix_ms = now\<rparr>" es] o write_pointer_ops(2) [OF o(4)] by simp
qed

text \<open>
  Staging, unlike activation, is not replayable: when a crash comes after the version directory has its name and before the
  staged pointer has, the pointer is what it was and the same version is refused as existing, whatever bundle is given.
\<close>

lemma interrupted_stage_blocks:
  assumes stage: "stage_bundle cr trust suffix now v bundle ly = Inr ops"
    and fresh: "''.staging-'' @ v @ ''-'' @ suffix \<notin> fst ` set (ly_versions ly)" and cut: "k = 2 \<or> k = 3"
  shows "ly_files (run_ops plen (take k ops) ly) = ly_files ly"
    and "stage_bundle cr trust suffix' now' v bundle' (run_ops plen (take k ops) ly) = Inl (VersionExists v)"
proof -
  obtain es p where o: "validate_version_id v"
    "ops = [PutStaging (''.staging-'' @ v @ ''-'' @ suffix) (FDir es), RenameStaging (''.staging-'' @ v @ ''-'' @ suffix) v,
            PutTemp StagedSlot p, RenameTemp StagedSlot p]"
    by (rule stage_versions [OF stage fresh])
  show "ly_files (run_ops plen (take k ops) ly) = ly_files ly"
    using cut by (auto simp: o(2) apply_op_def)
  have "map_of (ly_versions (run_ops plen (take k ops) ly)) v = Some (FDir es)"
    using cut by (auto simp: o(2) apply_op_def)
  then show "stage_bundle cr trust suffix' now' v bundle' (run_ops plen (take k ops) ly) = Inl (VersionExists v)"
    using o(1) by (simp add: stage_bundle_def)
qed

lemma stage_keeps:
  assumes small: "small_pointers plen" and stage: "stage_bundle cr trust suffix now v bundle ly = Inr ops"
    and fresh: "''.staging-'' @ v @ ''-'' @ suffix \<notin> fst ` set (ly_versions ly)"
    and good: "\<And>slot. pointer_good cr trust ly slot"
  shows "pointer_good cr trust (run_ops plen (take k ops) ly) slot"
proof -
  define st where "st = ''.staging-'' @ v @ ''-'' @ suffix"
  have ne: "st \<noteq> v" by (simp add: st_def)
  obtain es p where o: "rp_version_id p = v" "validate_version_id v" "verify_version cr trust (Some (FDir es)) = Inr ()"
    "ops = [PutStaging st (FDir es), RenameStaging st v, PutTemp StagedSlot p, RenameTemp StagedSlot p]"
    "\<not> version_ok cr trust ly v"
    by (rule stage_versions [OF stage fresh, folded st_def])
  have absent: "map_of (ly_versions ly) st = None" using fresh by (simp add: st_def map_of_eq_None_iff)
  define ly1 where "ly1 = ly\<lparr>ly_versions := (st, FDir es) # ly_versions ly\<rparr>"
  define ly2 where "ly2 = ly\<lparr>ly_versions := (v, FDir es) # filter (\<lambda>e. fst e \<noteq> st) (ly_versions ly)\<rparr>"
  have grow1: "version_ok cr trust ly w \<Longrightarrow> version_ok cr trust ly1 w" for w
    using absent by (auto simp: version_ok_def ly1_def verify_version_def)
  have flt: "map_of (filter (\<lambda>e. fst e \<noteq> st) xs) w = (if w = st then None else map_of xs w)" for xs :: "(string \<times> fs_node) list" and w
    by (induction xs) auto
  have grow2: "version_ok cr trust ly w \<Longrightarrow> version_ok cr trust ly2 w" for w
    using absent o(5) by (auto simp: version_ok_def ly2_def flt verify_version_def)
  have v2: "version_ok cr trust ly2 v" using o(3) by (simp add: version_ok_def ly2_def)
  have good1: "pointer_good cr trust ly1 s" for s using good [of s] grow1 by (auto simp: pointer_good_def ly1_def)
  have good2: "pointer_good cr trust ly2 s" for s using good [of s] grow2 by (auto simp: pointer_good_def ly2_def)
  have r1: "apply_op plen (PutStaging st (FDir es)) ly = ly1" by (simp add: apply_op_def ly1_def)
  have r2: "apply_op plen (RenameStaging st v) ly1 = ly2" by (simp add: apply_op_def ly1_def ly2_def)
  have last: "pointer_good cr trust (run_ops plen (take j [PutTemp StagedSlot p, RenameTemp StagedSlot p]) ly2) slot" for j
    using v2 o(1,2) by (intro conjunct2 [OF pointer_ops_keep [OF small list_all_take good2]]) (simp add: pointer_op_def)
  consider "k = 0" | "k = 1" | j where "k = Suc (Suc j)" by (cases k; cases "k - 1") auto
  then show ?thesis
    by cases (use good good1 last in \<open>simp_all add: o(4) r1 r2\<close>)
qed

lemma lkg_reach_good:
  assumes "lkg_reach cr trust plen ly" and "small_pointers plen"
  shows "pointer_good cr trust ly slot"
  using assms(1)
proof (induction arbitrary: slot rule: lkg_reach.induct)
  case lr_start
  then show ?case by (simp add: pointer_good_def empty_layout_def)
next
  case (lr_step ly ly')
  from lr_step(2) show ?case
  proof cases
    case ls_stage
    then show ?thesis using stage_keeps [OF assms(2)] lr_step(3) by blast
  next
    case ls_activate
    then show ?thesis
      using pointer_ops_keep [OF assms(2) list_all_take [OF activate_pointer_ops] lr_step(3)] by blast
  next
    case ls_rollback
    then show ?thesis
      using pointer_ops_keep [OF assms(2) list_all_take [OF rollback_pointer_ops] lr_step(3)] by blast
  qed
qed


subsection \<open>Activation\<close>

text \<open>The version the last-known-good pointer names once \<open>staged\<close> is active.\<close>

definition next_lkg :: "crates \<Rightarrow> trust \<Rightarrow> runtime_layout \<Rightarrow> string \<Rightarrow> runtime_pointer option \<Rightarrow> string option" where
  "next_lkg cr trust ly staged active =
     (case active of
        Some a \<Rightarrow>
          if rp_version_id a \<noteq> staged \<and> version_ok cr trust ly (rp_version_id a) then Some (rp_version_id a)
          else pointed ly LkgSlot
      | None \<Rightarrow> pointed ly LkgSlot)"

definition written :: "(runtime_pointer \<Rightarrow> nat) \<Rightarrow> runtime_pointer \<Rightarrow> pointer_file option" where
  "written plen p = Some \<lparr>pf_len = plen p, pf_parsed = Some p\<rparr>"

lemma written_pointed [simp]: "Option.bind (written plen p) pf_parsed = Some p"
  by (simp add: written_def)

lemma apply_files:
  "ly_files (apply_op plen (PutTemp slot p) ly) = ly_files ly"
  "ly_files (apply_op plen (RenameTemp slot p) ly) = (ly_files ly)(slot := written plen p)"
  "ly_files (apply_op plen (RemoveFile slot) ly) = (ly_files ly)(slot := None)"
  "ly_versions (apply_op plen (PutTemp slot p) ly) = ly_versions ly"
  "ly_versions (apply_op plen (RenameTemp slot p) ly) = ly_versions ly"
  "ly_versions (apply_op plen (RemoveFile slot) ly) = ly_versions ly"
  by (simp_all add: apply_op_def written_def)

text \<open>\<open>keep_lkg\<close> writes nothing, or the pointer to the active version.\<close>

lemma keep_cases:
  assumes "read_pointer (ly_files ly ActiveSlot) = Inr active"
  obtains (none) "keep_lkg cr trust now ly staged active = Inr []" "next_lkg cr trust ly staged active = pointed ly LkgSlot"
  | (some) p where "keep_lkg cr trust now ly staged active = Inr [PutTemp LkgSlot p, RenameTemp LkgSlot p]"
      "next_lkg cr trust ly staged active = Some (rp_version_id p)" "validate_version_id (rp_version_id p)"
proof (cases "\<exists>a. active = Some a \<and> rp_version_id a \<noteq> staged \<and> version_ok cr trust ly (rp_version_id a)")
  case True
  then obtain a where a: "active = Some a" "rp_version_id a \<noteq> staged" "version_ok cr trust ly (rp_version_id a)" by blast
  then have v: "validate_version_id (rp_version_id a)" using assms read_valid by blast
  show ?thesis
    by (rule some [of "\<lparr>rp_version_id = rp_version_id a, rp_updated_at_unix_ms = now\<rparr>"])
      (use a v in \<open>simp_all add: keep_lkg_def next_lkg_def write_pointer_def Let_def\<close>)
next
  case False
  then show ?thesis by (intro none) (auto simp: keep_lkg_def next_lkg_def split: option.splits)
qed

lemma activate_full:
  assumes small: "small_pointers plen" and staged: "read_pointer (ly_files ly StagedSlot) = Inr (Some st)"
    and ok: "version_ok cr trust ly (rp_version_id st)" and active: "read_pointer (ly_files ly ActiveSlot) = Inr active"
  obtains p ly' where "activate_run cr trust clock plen ly = (Inr p, ly')" "rp_version_id p = rp_version_id st"
    "ly_files ly' ActiveSlot = written plen p" "ly_files ly' StagedSlot = None" "ly_versions ly' = ly_versions ly"
    "pointed ly' LkgSlot = next_lkg cr trust ly (rp_version_id st) active"
proof -
  define p where "p = \<lparr>rp_version_id = rp_version_id st, rp_updated_at_unix_ms = clock ActiveSlot\<rparr>"
  have v: "validate_version_id (rp_version_id st)" by (rule read_valid [OF staged])
  have pv: "rp_version_id p = rp_version_id st" by (simp add: p_def)
  have switch: "write_pointer ActiveSlot (rp_version_id st) (clock ActiveSlot) = Inr [PutTemp ActiveSlot p, RenameTemp ActiveSlot p]"
    using v by (simp add: write_pointer_def p_def Let_def)
  have reread: "read_pointer (written plen p) = Inr (Some p)"
    unfolding written_def by (rule read_written [OF small]) (simp add: p_def v)
  have act: "activate_staged cr trust clock ly =
      result_bind (keep_lkg cr trust (clock LkgSlot) ly (rp_version_id st) active)
        (\<lambda>keep. Inr (Inr (keep @ [PutTemp ActiveSlot p, RenameTemp ActiveSlot p, RemoveFile StagedSlot])))"
    using staged ok active switch by (simp add: activate_staged_def)
  show ?thesis
    by (rule keep_cases [OF active, of cr trust "clock LkgSlot" "rp_version_id st"];
        rule that [of p "run_ops plen (projr (projr (activate_staged cr trust clock ly))) ly"])
      (simp_all add: activate_run_def act read_back_def apply_files reread pointed_def pv)
qed


lemma next_lkg_same:
  assumes "ly_versions ly' = ly_versions ly"
    and "pointed ly' LkgSlot = pointed ly LkgSlot \<or> pointed ly' LkgSlot = next_lkg cr trust ly staged active"
  shows "next_lkg cr trust ly' staged active = next_lkg cr trust ly staged active"
  using assms by (cases active) (auto simp: next_lkg_def version_ok_versions [OF assms(1)])

lemma next_lkg_again:
  "rp_version_id a = staged \<Longrightarrow> next_lkg cr trust ly staged (Some a) = pointed ly LkgSlot"
  by (simp add: next_lkg_def)

lemma take_shapes:
  "take k [a, b, c] \<in> {[], [a], [a, b], [a, b, c]}"
  "take k [a, b, c, d, e] \<in> {[], [a], [a, b], [a, b, c], [a, b, c, d], [a, b, c, d, e]}"
  by (auto simp: take_Cons')

text \<open>Where a crash can leave an activation: before the switch, after it, or after the staged pointer is gone.\<close>

lemma activation_prefix:
  assumes plan: "activate_staged cr trust clock ly = Inr (Inr ops)"
    and staged: "read_pointer (ly_files ly StagedSlot) = Inr (Some st)" and active: "read_pointer (ly_files ly ActiveSlot) = Inr active"
    and ly': "ly' = run_ops plen (take k ops) ly"
    and p: "p = \<lparr>rp_version_id = rp_version_id st, rp_updated_at_unix_ms = clock ActiveSlot\<rparr>"
  shows "ly_versions ly' = ly_versions ly \<and>
         (ly_files ly' StagedSlot = ly_files ly StagedSlot \<and> ly_files ly' ActiveSlot = ly_files ly ActiveSlot \<and>
            (pointed ly' LkgSlot = pointed ly LkgSlot \<or> pointed ly' LkgSlot = next_lkg cr trust ly (rp_version_id st) active) \<or>
          (ly_files ly' StagedSlot = ly_files ly StagedSlot \<or> ly_files ly' StagedSlot = None) \<and>
            ly_files ly' ActiveSlot = written plen p \<and> pointed ly' LkgSlot = next_lkg cr trust ly (rp_version_id st) active)"
proof -
  have v: "validate_version_id (rp_version_id st)" by (rule read_valid [OF staged])
  obtain keep where keep: "keep_lkg cr trust (clock LkgSlot) ly (rp_version_id st) active = Inr keep"
    "ops = keep @ [PutTemp ActiveSlot p, RenameTemp ActiveSlot p, RemoveFile StagedSlot]"
    using plan staged active v
    by (auto simp: activate_staged_def result_bind_eq_Inr_iff write_pointer_def Let_def p split: if_splits)
  show ?thesis
  proof (rule keep_cases [OF active, of cr trust "clock LkgSlot" "rp_version_id st"])
    assume n: "keep_lkg cr trust (clock LkgSlot) ly (rp_version_id st) active = Inr []"
      "next_lkg cr trust ly (rp_version_id st) active = pointed ly LkgSlot"
    then have ops: "ops = [PutTemp ActiveSlot p, RenameTemp ActiveSlot p, RemoveFile StagedSlot]" using keep by simp
    show ?thesis
      using take_shapes(1) [of k "PutTemp ActiveSlot p" "RenameTemp ActiveSlot p" "RemoveFile StagedSlot"] n(2)
      unfolding ly' ops by (elim insertE emptyE) (simp_all add: apply_files pointed_def)
  next
    fix a assume n: "keep_lkg cr trust (clock LkgSlot) ly (rp_version_id st) active = Inr [PutTemp LkgSlot a, RenameTemp LkgSlot a]"
      "next_lkg cr trust ly (rp_version_id st) active = Some (rp_version_id a)"
    then have ops: "ops = [PutTemp LkgSlot a, RenameTemp LkgSlot a, PutTemp ActiveSlot p, RenameTemp ActiveSlot p, RemoveFile StagedSlot]"
      using keep by simp
    show ?thesis
      using take_shapes(2) [of k "PutTemp LkgSlot a" "RenameTemp LkgSlot a" "PutTemp ActiveSlot p" "RenameTemp ActiveSlot p"
          "RemoveFile StagedSlot"] n(2)
      unfolding ly' ops by (elim insertE emptyE) (simp_all add: apply_files pointed_def)
  qed
qed

lemma activation_replay:
  assumes small: "small_pointers plen" and plan: "activate_staged cr trust clock ly = Inr (Inr ops)"
    and staged: "read_pointer (ly_files ly StagedSlot) = Inr (Some st)" and active: "read_pointer (ly_files ly ActiveSlot) = Inr active"
  obtains p ly' where "activate_run cr trust clock' plen (run_ops plen (take k ops) ly) = (Inr p, ly')"
    "rp_version_id p = rp_version_id st" "read_pointer (ly_files ly' ActiveSlot) = Inr (Some p)" "ly_files ly' StagedSlot = None"
    "pointed ly' LkgSlot = next_lkg cr trust ly (rp_version_id st) active" "ly_versions ly' = ly_versions ly"
proof -
  define p where "p = \<lparr>rp_version_id = rp_version_id st, rp_updated_at_unix_ms = clock ActiveSlot\<rparr>"
  define lk where "lk = run_ops plen (take k ops) ly"
  have v: "validate_version_id (rp_version_id st)" by (rule read_valid [OF staged])
  have ok: "version_ok cr trust ly (rp_version_id st)"
    using plan staged by (auto simp: activate_staged_def split: if_splits)
  have pv: "rp_version_id p = rp_version_id st" by (simp add: p_def)
  have wr: "read_pointer (written plen q) = Inr (Some q)" if "rp_version_id q = rp_version_id st" for q
    unfolding written_def by (rule read_written [OF small]) (simp add: that v)
  note shape = activation_prefix [OF plan staged active lk_def p_def]
  have vs: "ly_versions lk = ly_versions ly" by (rule conjunct1 [OF shape])
  have okk: "version_ok cr trust lk (rp_version_id st)" using ok unfolding version_ok_versions [OF vs] .
  consider (before) "ly_files lk StagedSlot = ly_files ly StagedSlot" "ly_files lk ActiveSlot = ly_files ly ActiveSlot"
      "next_lkg cr trust lk (rp_version_id st) active = next_lkg cr trust ly (rp_version_id st) active"
    | (switched) "ly_files lk StagedSlot = ly_files ly StagedSlot" "ly_files lk ActiveSlot = written plen p"
      "pointed lk LkgSlot = next_lkg cr trust ly (rp_version_id st) active"
    | (gone) "ly_files lk StagedSlot = None" "ly_files lk ActiveSlot = written plen p"
      "pointed lk LkgSlot = next_lkg cr trust ly (rp_version_id st) active"
    using conjunct2 [OF shape] next_lkg_same [OF vs, of cr trust "rp_version_id st" active] by argo
  then show ?thesis
  proof cases
    case before
    then have rd: "read_pointer (ly_files lk StagedSlot) = Inr (Some st)" "read_pointer (ly_files lk ActiveSlot) = Inr active"
      using staged active by simp_all
    obtain q ly' where f: "activate_run cr trust clock' plen lk = (Inr q, ly')" "rp_version_id q = rp_version_id st"
      "ly_files ly' ActiveSlot = written plen q" "ly_files ly' StagedSlot = None" "ly_versions ly' = ly_versions lk"
      "pointed ly' LkgSlot = next_lkg cr trust lk (rp_version_id st) active"
      by (rule activate_full [OF small rd(1) okk rd(2)])
    show ?thesis by (rule that [of q ly']) (use f wr vs before(3) in \<open>simp_all add: lk_def\<close>)
  next
    case switched
    then have rd: "read_pointer (ly_files lk StagedSlot) = Inr (Some st)" "read_pointer (ly_files lk ActiveSlot) = Inr (Some p)"
      using staged wr pv by simp_all
    obtain q ly' where f: "activate_run cr trust clock' plen lk = (Inr q, ly')" "rp_version_id q = rp_version_id st"
      "ly_files ly' ActiveSlot = written plen q" "ly_files ly' StagedSlot = None" "ly_versions ly' = ly_versions lk"
      "pointed ly' LkgSlot = next_lkg cr trust lk (rp_version_id st) (Some p)"
      by (rule activate_full [OF small rd(1) okk rd(2)])
    show ?thesis
      by (rule that [of q ly']) (use f wr vs switched(3) next_lkg_again [OF pv] in \<open>simp_all add: lk_def\<close>)
  next
    case gone
    then have "activate_run cr trust clock' plen lk = (Inr p, lk)"
      using okk pv wr by (simp add: activate_run_def activate_staged_def read_pointer_def [of None])
    then show ?thesis using that [of p lk] gone pv wr vs by (simp add: lk_def)
  qed
qed


lemma activate_run_reach:
  assumes "lkg_reach cr trust plen ly" and "activate_run cr trust clock plen ly = (r, ly')"
  shows "lkg_reach cr trust plen ly'"
proof (cases "\<exists>ops. activate_staged cr trust clock ly = Inr (Inr ops)")
  case True
  then obtain ops where ops: "activate_staged cr trust clock ly = Inr (Inr ops)" by blast
  then have "lkg_step cr trust plen ly (run_ops plen (take (length ops) ops) ly)" by (rule ls_activate)
  then show ?thesis using assms ops by (auto simp: activate_run_def intro: lr_step)
qed (use assms in \<open>auto simp: activate_run_def split: sum.splits\<close>)

section \<open>What a policy promises of the runtimes\<close>

text \<open>
  \<open>version_gate\<close> is what the layout relies on of the manifest check: a version it accepts is sound. Every pointer of a
  reachable layout then names a sound version.
\<close>

locale version_gate =
  fixes cr :: crates and trust :: trust and sound :: "fs_node \<Rightarrow> bool"
  assumes accepts_sound: "verify_version cr trust (Some t) = Inr () \<Longrightarrow> sound t"
begin

lemma pointers_sound:
  assumes "lkg_reach cr trust plen ly" and "small_pointers plen" and "pointed ly slot = Some v"
  shows "\<exists>t. map_of (ly_versions ly) v = Some t \<and> sound t"
proof -
  have "ly_files ly slot \<noteq> None" using assms(3) by (cases "ly_files ly slot") (auto simp: pointed_def)
  then obtain p where p: "read_pointer (ly_files ly slot) = Inr (Some p)" "version_ok cr trust ly (rp_version_id p)"
    using lkg_reach_good [OF assms(1,2), of slot] by (auto simp: pointer_good_def)
  have "rp_version_id p = v" using read_pointed [OF p(1)] assms(3) by simp
  then have ver: "verify_version cr trust (map_of (ly_versions ly) v) = Inr ()" using p(2) by (simp add: version_ok_def)
  then obtain t where "map_of (ly_versions ly) v = Some t" by (cases "map_of (ly_versions ly) v") (auto simp: verify_version_def)
  then show ?thesis using ver accepts_sound by auto
qed

end

definition bundle_matches :: "crates \<Rightarrow> runtime_manifest \<Rightarrow> (string \<times> fs_node) list \<Rightarrow> bool" where
  "bundle_matches cr m es \<longleftrightarrow>
     plain_entries es \<and> ar_path ` set (rm_artifacts m) = (rel_path \<circ> fst) ` set (bundle_files es) \<and>
     list_all (\<lambda>(ns, c). \<exists>a b. a \<in> set (rm_artifacts m) \<and> ar_path a = rel_path ns \<and> c = Some b \<and>
                                cr_sha256 cr b = ar_sha256 a \<and> length b = ar_size_bytes a) (bundle_files es)"

definition local_bundle :: "crates \<Rightarrow> fs_node \<Rightarrow> bool" where
  "local_bundle cr t \<longleftrightarrow>
     (\<exists>m es. follow t = Some (FDir es) \<and> validate cr m = Inr () \<and>
             (rm_artifacts m \<noteq> [] \<and> entries_ok es \<longrightarrow> bundle_matches cr m es))"

definition signed_bundle :: "crates \<Rightarrow> string \<Rightarrow> (string \<Rightarrow> string \<Rightarrow> bool) \<Rightarrow> fs_node \<Rightarrow> bool" where
  "signed_bundle cr key_id key t \<longleftrightarrow>
     (\<exists>m es s signature payload. follow t = Some (FDir es) \<and> (entries_ok es \<longrightarrow> bundle_matches cr m es) \<and>
        rm_signature m = Some s \<and> si_key_id s = Some key_id \<and> decode_exact_hex cr 64 (si_value s) = Some signature \<and>
        cr_to_vec cr (m\<lparr>rm_signature := None\<rparr>) = Some payload \<and> key payload signature)"

lemma listed_matches:
  assumes "entries_ok es" and "rm_artifacts m \<noteq> []" and "verify_artifacts cr m (FDir es) = Inr ()"
  shows "bundle_matches cr m es"
  using listed_bundle_exact [OF assms] by (fastforce simp: bundle_matches_def list_all_iff)

lemma follow_not_link: "follow t = Some n \<Longrightarrow> n \<noteq> FLink u"
  by (induction t rule: follow.induct) (auto split: option.splits)

lemma verify_version_cases:
  assumes "verify_version cr trust (Some t) = Inr ()"
  obtains m es where "follow t = Some (FDir es)" "validate cr m = Inr ()"
    "(case trust of Some (key_id, key) \<Rightarrow> verify_production cr m (FDir es) key_id key | None \<Rightarrow> verify_artifacts cr m (FDir es)) = Inr ()"
proof -
  obtain root c m where v: "follow t = Some root" "Option.bind (resolve root [''manifest.json'']) follow = Some (FFile c)"
    "load cr (Some (FFile c)) = Inr m"
    "(case trust of Some (key_id, key) \<Rightarrow> verify_production cr m root key_id key | None \<Rightarrow> verify_artifacts cr m root) = Inr ()"
    using assms
    by (auto simp: verify_version_def split: option.splits fs_node.splits sum.splits)
  obtain es where "root = FDir es"
    using v(2) follow_not_link [OF v(1)] by (cases root) (auto split: option.splits fs_node.splits)
  moreover have "validate cr m = Inr ()"
    using v(3) by (auto simp: load_def result_bind_eq_Inr_iff split: option.splits fs_node.splits if_splits)
  ultimately show ?thesis using that v by blast
qed

lemma production_sound: "verify_version cr (Some (key_id, key)) (Some t) = Inr () \<Longrightarrow> signed_bundle cr key_id key t"
proof -
  assume "verify_version cr (Some (key_id, key)) (Some t) = Inr ()"
  then obtain m es where v: "follow t = Some (FDir es)" "verify_production cr m (FDir es) key_id key = Inr ()"
    by (rule verify_version_cases) simp
  note w = iffD1 [OF verify_production_iff v(2)]
  then obtain s signature payload where s: "trusted_signature m key_id = Some s"
    "decode_exact_hex cr 64 (si_value s) = Some signature" "signing_payload cr m = Inr payload" "key payload signature" by blast
  have "rm_artifacts m \<noteq> []" using w by (simp add: production_complete_def)
  then have "entries_ok es \<longrightarrow> bundle_matches cr m es" using listed_matches w by blast
  then show ?thesis
    unfolding signed_bundle_def using v(1) s
    by (intro exI [of _ m] exI [of _ es] exI [of _ s] exI [of _ signature] exI [of _ payload])
      (auto simp: trusted_signature_def signing_payload_def split: option.splits if_splits)
qed

lemma local_sound: "verify_version cr None (Some t) = Inr () \<Longrightarrow> local_bundle cr t"
proof -
  assume "verify_version cr None (Some t) = Inr ()"
  then obtain m es where "follow t = Some (FDir es)" "validate cr m = Inr ()" "verify_artifacts cr m (FDir es) = Inr ()"
    by (rule verify_version_cases) simp
  then show ?thesis unfolding local_bundle_def using listed_matches by blast
qed

interpretation localp: version_gate cr None "local_bundle cr" for cr
  by unfold_locales (rule local_sound)

interpretation prodp: version_gate cr "Some (key_id, key)" "signed_bundle cr key_id key" for cr key_id key
  by unfold_locales (rule production_sound)

section \<open>Properties\<close>

text \<open>
  C15. Activation is safe against crashes: whatever prefix of its disk operations a crash or an error lets through, running
  it again completes it. The staged version is active, the staged pointer is gone, and the last-known-good pointer names
  the version that was active before, if that one was another and still verified, and is unchanged otherwise.
\<close>

theorem activation_survives_crashes:
  assumes "small_pointers plen" and "activate_staged cr trust clock ly = Inr (Inr ops)"
    and "read_pointer (ly_files ly StagedSlot) = Inr (Some st)" and "read_pointer (ly_files ly ActiveSlot) = Inr active"
  shows "\<exists>p ly'. activate_run cr trust clock' plen (run_ops plen (take k ops) ly) = (Inr p, ly') \<and>
           rp_version_id p = rp_version_id st \<and> pointed ly' ActiveSlot = Some (rp_version_id st) \<and>
           ly_files ly' StagedSlot = None \<and> pointed ly' LkgSlot = next_lkg cr trust ly (rp_version_id st) active \<and>
           ly_versions ly' = ly_versions ly"
proof -
  obtain p ly' where r: "activate_run cr trust clock' plen (run_ops plen (take k ops) ly) = (Inr p, ly')"
    "rp_version_id p = rp_version_id st" "read_pointer (ly_files ly' ActiveSlot) = Inr (Some p)" "ly_files ly' StagedSlot = None"
    "pointed ly' LkgSlot = next_lkg cr trust ly (rp_version_id st) active" "ly_versions ly' = ly_versions ly"
    by (rule activation_replay [OF assms])
  then show ?thesis using read_pointed [OF r(3)] by auto
qed

text \<open>
  C17. An upgrade can be undone: from every reachable layout, after an activation that crashed anywhere and was replayed,
  a rollback succeeds and makes the version active that was active before.
\<close>

theorem upgrade_can_be_undone:
  assumes "lkg_reach cr trust plen ly" and "small_pointers plen" and "activate_staged cr trust clock ly = Inr (Inr ops)"
    and "read_pointer (ly_files ly StagedSlot) = Inr (Some st)" and "read_pointer (ly_files ly ActiveSlot) = Inr (Some a)"
    and "rp_version_id a \<noteq> rp_version_id st"
  shows "\<exists>p ly' undo. activate_run cr trust clock' plen (run_ops plen (take k ops) ly) = (Inr p, ly') \<and>
           rollback_to_lkg cr trust now ly' = Inr undo \<and> pointed (run_ops plen undo ly') ActiveSlot = Some (rp_version_id a)"
proof -
  obtain p ly' where r: "activate_run cr trust clock' plen (run_ops plen (take k ops) ly) = (Inr p, ly')"
    "rp_version_id p = rp_version_id st" "read_pointer (ly_files ly' ActiveSlot) = Inr (Some p)" "ly_files ly' StagedSlot = None"
    "pointed ly' LkgSlot = next_lkg cr trust ly (rp_version_id st) (Some a)" "ly_versions ly' = ly_versions ly"
    by (rule activation_replay [OF assms(2-5)])
  have "lkg_reach cr trust plen (run_ops plen (take k ops) ly)" by (rule lr_step [OF assms(1) ls_activate [OF assms(3)]])
  then have reach: "lkg_reach cr trust plen ly'" by (rule activate_run_reach [OF _ r(1)])
  have "version_ok cr trust ly (rp_version_id a)"
    using lkg_reach_good [OF assms(1,2), of ActiveSlot] assms(5) by (auto simp: pointer_good_def read_pointer_def)
  then have lkg: "pointed ly' LkgSlot = Some (rp_version_id a)" using r(5) assms(6) by (simp add: next_lkg_def)
  then have "ly_files ly' LkgSlot \<noteq> None" by (cases "ly_files ly' LkgSlot") (auto simp: pointed_def)
  then obtain q where q: "read_pointer (ly_files ly' LkgSlot) = Inr (Some q)" "version_ok cr trust ly' (rp_version_id q)"
    using lkg_reach_good [OF reach assms(2), of LkgSlot] by (auto simp: pointer_good_def)
  have qa: "rp_version_id q = rp_version_id a" using read_pointed [OF q(1)] lkg by simp
  define w where "w = \<lparr>rp_version_id = rp_version_id a, rp_updated_at_unix_ms = now\<rparr>"
  have undo: "rollback_to_lkg cr trust now ly' = Inr [PutTemp ActiveSlot w, RenameTemp ActiveSlot w]"
    using q qa read_valid [OF q(1)] by (simp add: rollback_to_lkg_def write_pointer_def w_def Let_def)
  have "pointed (run_ops plen [PutTemp ActiveSlot w, RenameTemp ActiveSlot w] ly') ActiveSlot = Some (rp_version_id a)"
    by (simp add: pointed_def apply_files) (simp add: w_def)
  then show ?thesis using r(1) undo by blast
qed

text \<open>
  C18. Whatever is staged, activated or rolled back to under the production policy, in every order and with a crash
  anywhere, each pointer of the layout names a version that is present and is a bundle the trusted key signed, with
  exactly the files its manifest declares.
\<close>

theorem pointed_runtimes_are_signed:
  assumes "lkg_reach cr (Some (key_id, key)) plen ly" and "small_pointers plen" and "pointed ly slot = Some v"
  shows "\<exists>t. map_of (ly_versions ly) v = Some t \<and> signed_bundle cr key_id key t"
  by (rule prodp.pointers_sound [OF assms])


section \<open>Witnesses\<close>

text \<open>Version \<open>v1\<close> is active and \<open>v2\<close> is staged.\<close>

definition demo_trust :: trust where
  "demo_trust = Some (''k'', \<lambda>p s. s = demo_sign p)"

definition demo_pointer :: "string \<Rightarrow> runtime_pointer" where
  "demo_pointer v = \<lparr>rp_version_id = v, rp_updated_at_unix_ms = 0\<rparr>"

definition demo_layout :: "string list \<Rightarrow> string option \<Rightarrow> string option \<Rightarrow> runtime_layout" where
  "demo_layout vs staged active =
     \<lparr>ly_versions = map (\<lambda>v. (v, FDir demo_bundle)) vs,
      ly_files = (\<lambda>_. None)(StagedSlot := map_option (\<lambda>v. \<lparr>pf_len = 0, pf_parsed = Some (demo_pointer v)\<rparr>) staged,
                            ActiveSlot := map_option (\<lambda>v. \<lparr>pf_len = 0, pf_parsed = Some (demo_pointer v)\<rparr>) active),
      ly_temps = []\<rparr>"

lemma demo_version: "verify_version demo_crates demo_trust (Some (FDir demo_bundle)) = Inr ()"
proof -
  have "validate demo_crates demo_signed = Inr ()"
    using iffD1 [OF verify_production_iff demo_production] by (auto simp: verify_artifacts_def result_bind_eq_Inr_iff)
  then have "load demo_crates (Some (FFile (Some []))) = Inr demo_signed"
    by (simp add: load_def) (simp add: demo_crates_def)
  moreover have "resolve (FDir demo_bundle) [''manifest.json''] = Some (FFile (Some []))" by (simp add: demo_bundle_def)
  ultimately show ?thesis using demo_production by (simp add: verify_version_def demo_trust_def)
qed

lemma demo_ids: "validate_version_id ''v1''" "validate_version_id ''v2''"
  by (simp_all add: validate_version_id_def ascii_defs)

lemma demo_copy: "copy_dir_all demo_bundle = Inr demo_bundle"
  by code_simp

lemma demo_stage1: "lkg_step demo_crates demo_trust (\<lambda>_. 0) empty_layout (demo_layout [''v1''] (Some ''v1'') None)"
proof -
  define p where "p = demo_pointer ''v1''"
  have "stage_bundle demo_crates demo_trust ''x'' 0 ''v1'' (FDir demo_bundle) empty_layout =
      Inr [PutStaging ''.staging-v1-x'' (FDir demo_bundle), RenameStaging ''.staging-v1-x'' ''v1'',
           PutTemp StagedSlot p, RenameTemp StagedSlot p]"
    by (simp add: stage_bundle_def demo_ids demo_copy demo_version write_pointer_def empty_layout_def demo_pointer_def p_def Let_def)
  then have "lkg_step demo_crates demo_trust (\<lambda>_. 0) empty_layout
      (run_ops (\<lambda>_. 0) (take 4 [PutStaging ''.staging-v1-x'' (FDir demo_bundle), RenameStaging ''.staging-v1-x'' ''v1'',
           PutTemp StagedSlot p, RenameTemp StagedSlot p]) empty_layout)"
    by (rule ls_stage) (simp add: empty_layout_def)
  moreover have "run_ops (\<lambda>_. 0) (take 4 [PutStaging ''.staging-v1-x'' (FDir demo_bundle), RenameStaging ''.staging-v1-x'' ''v1'',
           PutTemp StagedSlot p, RenameTemp StagedSlot p]) empty_layout = demo_layout [''v1''] (Some ''v1'') None"
    by (simp add: apply_op_def demo_layout_def empty_layout_def p_def fun_eq_iff)
  ultimately show ?thesis by simp
qed

lemma demo_read: "read_pointer (Some \<lparr>pf_len = 0, pf_parsed = Some (demo_pointer v)\<rparr>) = Inr (Some (demo_pointer v))"
  if "validate_version_id v"
  using that by (simp add: read_pointer_def demo_pointer_def)

lemma demo_activate1:
  "lkg_step demo_crates demo_trust (\<lambda>_. 0) (demo_layout [''v1''] (Some ''v1'') None) (demo_layout [''v1''] None (Some ''v1''))"
proof -
  define p where "p = demo_pointer ''v1''"
  have "activate_staged demo_crates demo_trust (\<lambda>_. 0) (demo_layout [''v1''] (Some ''v1'') None) =
      Inr (Inr [PutTemp ActiveSlot p, RenameTemp ActiveSlot p, RemoveFile StagedSlot])"
    using demo_version demo_read [OF demo_ids(1)]
    by (simp add: activate_staged_def keep_lkg_def version_ok_def demo_layout_def read_pointer_def [of None] write_pointer_def
        demo_ids Let_def p_def)
      (simp add: demo_pointer_def write_pointer_def demo_ids demo_version)
  then have "lkg_step demo_crates demo_trust (\<lambda>_. 0) (demo_layout [''v1''] (Some ''v1'') None)
      (run_ops (\<lambda>_. 0) (take 3 [PutTemp ActiveSlot p, RenameTemp ActiveSlot p, RemoveFile StagedSlot])
         (demo_layout [''v1''] (Some ''v1'') None))"
    by (rule ls_activate)
  moreover have "run_ops (\<lambda>_. 0) (take 3 [PutTemp ActiveSlot p, RenameTemp ActiveSlot p, RemoveFile StagedSlot])
         (demo_layout [''v1''] (Some ''v1'') None) = demo_layout [''v1''] None (Some ''v1'')"
    by (simp add: apply_op_def demo_layout_def p_def fun_eq_iff)
  ultimately show ?thesis by simp
qed

lemma demo_stage2:
  "lkg_step demo_crates demo_trust (\<lambda>_. 0) (demo_layout [''v1''] None (Some ''v1'')) (demo_layout [''v2'', ''v1''] (Some ''v2'') (Some ''v1''))"
proof -
  define p where "p = demo_pointer ''v2''"
  have "stage_bundle demo_crates demo_trust ''x'' 0 ''v2'' (FDir demo_bundle) (demo_layout [''v1''] None (Some ''v1'')) =
      Inr [PutStaging ''.staging-v2-x'' (FDir demo_bundle), RenameStaging ''.staging-v2-x'' ''v2'',
           PutTemp StagedSlot p, RenameTemp StagedSlot p]"
    by (simp add: stage_bundle_def demo_ids demo_copy demo_version write_pointer_def demo_layout_def demo_pointer_def p_def Let_def)
  then have "lkg_step demo_crates demo_trust (\<lambda>_. 0) (demo_layout [''v1''] None (Some ''v1''))
      (run_ops (\<lambda>_. 0) (take 4 [PutStaging ''.staging-v2-x'' (FDir demo_bundle), RenameStaging ''.staging-v2-x'' ''v2'',
           PutTemp StagedSlot p, RenameTemp StagedSlot p]) (demo_layout [''v1''] None (Some ''v1'')))"
    by (rule ls_stage) (simp add: demo_layout_def)
  moreover have "run_ops (\<lambda>_. 0) (take 4 [PutStaging ''.staging-v2-x'' (FDir demo_bundle), RenameStaging ''.staging-v2-x'' ''v2'',
           PutTemp StagedSlot p, RenameTemp StagedSlot p]) (demo_layout [''v1''] None (Some ''v1'')) =
      demo_layout [''v2'', ''v1''] (Some ''v2'') (Some ''v1'')"
    by (simp add: apply_op_def demo_layout_def p_def fun_eq_iff)
  ultimately show ?thesis by simp
qed

abbreviation demo_upgrade :: runtime_layout where
  "demo_upgrade \<equiv> demo_layout [''v2'', ''v1''] (Some ''v2'') (Some ''v1'')"

lemma demo_upgrade_reach: "lkg_reach demo_crates demo_trust (\<lambda>_. 0) demo_upgrade"
  by (rule lr_step [OF lr_step [OF lr_step [OF lr_start demo_stage1] demo_activate1] demo_stage2])

lemma demo_small: "small_pointers (\<lambda>_. 0)"
  by (simp add: small_pointers_def)

lemma demo_reads:
  "read_pointer (ly_files demo_upgrade StagedSlot) = Inr (Some (demo_pointer ''v2''))"
  "read_pointer (ly_files demo_upgrade ActiveSlot) = Inr (Some (demo_pointer ''v1''))"
  using demo_read demo_ids by (simp_all add: demo_layout_def)

lemma demo_plan: "\<exists>ops. activate_staged demo_crates demo_trust (\<lambda>_. 0) demo_upgrade = Inr (Inr ops)"
  using demo_reads demo_version
  by (simp add: activate_staged_def keep_lkg_def version_ok_def write_pointer_def demo_ids Let_def)
    (simp add: demo_layout_def demo_pointer_def write_pointer_def demo_ids demo_version)

theorem activation_survives_crashes_witness:
  "\<exists>ops p ly'. activate_run demo_crates demo_trust (\<lambda>_. 1) (\<lambda>_. 0) (run_ops (\<lambda>_. 0) (take 4 ops) demo_upgrade) = (Inr p, ly') \<and>
     pointed ly' ActiveSlot = Some ''v2''"
proof -
  obtain ops where "activate_staged demo_crates demo_trust (\<lambda>_. 0) demo_upgrade = Inr (Inr ops)" using demo_plan by blast
  from activation_survives_crashes [OF demo_small this demo_reads, of "\<lambda>_. 1" 4]
  show ?thesis by (auto simp: demo_pointer_def)
qed

theorem upgrade_can_be_undone_witness:
  "\<exists>ops p ly' undo. activate_run demo_crates demo_trust (\<lambda>_. 1) (\<lambda>_. 0) (run_ops (\<lambda>_. 0) (take 2 ops) demo_upgrade) = (Inr p, ly') \<and>
     rollback_to_lkg demo_crates demo_trust 2 ly' = Inr undo \<and> pointed (run_ops (\<lambda>_. 0) undo ly') ActiveSlot = Some ''v1''"
proof -
  obtain ops where "activate_staged demo_crates demo_trust (\<lambda>_. 0) demo_upgrade = Inr (Inr ops)" using demo_plan by blast
  from upgrade_can_be_undone [OF demo_upgrade_reach demo_small this demo_reads, of "\<lambda>_. 1" 2 2]
  show ?thesis by (auto simp: demo_pointer_def)
qed

theorem pointed_runtimes_are_signed_witness:
  "pointed demo_upgrade ActiveSlot = Some ''v1'' \<and>
   (\<exists>t. map_of (ly_versions demo_upgrade) ''v1'' = Some t \<and> signed_bundle demo_crates ''k'' (\<lambda>p s. s = demo_sign p) t)"
proof -
  have "pointed demo_upgrade ActiveSlot = Some ''v1''" by (simp add: pointed_def demo_layout_def demo_pointer_def)
  then show ?thesis
    using pointed_runtimes_are_signed [OF demo_upgrade_reach [unfolded demo_trust_def] demo_small] by blast
qed

end
