(* ===== verification/Spec2Isabelle.thy ===== *)
theory Spec2Isabelle
  imports Bootstrap_Auth Send_Queue Chat_State Method_Table Host_Admission Dispatch_Lanes Backup_Handles
    Proxy_Groups Link_Flow Base64_Codec Receive_Persist Runtime_Lkg
begin

text \<open>
  A verification development of the Signal connector. All paths below are relative to \<open>src/src/\<close>.

  \<^bold>\<open>The program.\<close> The connector is a daemon between a desktop client, the host, and one or more Signal
  engine processes. A host session authenticates with a one-shot secret (\<open>auth.rs\<close>), sends NDJSON requests
  (\<open>protocol.rs\<close>) that are looked up in one method table (\<open>methods.rs\<close>), admitted under a pending budget and
  run on bounded lanes (\<open>host.rs\<close>). Requests read and write an SQL store (\<open>store.rs\<close>) or become JSON-RPC calls
  of an engine, each driven by an actor (\<open>engine.rs\<close>). What the engine reports on its own, a receive, is
  normalised by a ladder of readers, weighed, queued under per-account shares (\<open>engine.rs\<close>) and stored by a
  persistence loop (\<open>supervisor.rs\<close>). Engines run per account in a pool (\<open>pool.rs\<close>) that linking fills
  (\<open>service.rs\<close>, \<open>registry.rs\<close>), or per proxy group (\<open>groups.rs\<close>, \<open>datalock.rs\<close>). Attachments and snapshots are
  handed out in chunks (\<open>media.rs\<close>, \<open>backup_export.rs\<close>). The runtime the desktop starts is a signed bundle with
  a staged, an active and a last-known-good version (\<open>manifest.rs\<close>, \<open>lkg.rs\<close>).

  \<^bold>\<open>Conventions\<close> (\<open>Conn_Prelude\<close>, \<open>Json_Value\<close>). A fallible function returns \<open>'e + 'a\<close> with the source's error
  enum on the left; \<open>u64\<close>, \<open>usize\<close> and durations are naturals with saturation, casts and bounds written out; \<open>str\<close> is
  its UTF-8 bytes; an SQL table is the list of its rows. An \<open>async\<close> function is cut at its awaits: each piece is
  one step, and the other tasks of the process run in between. Clocks, random identifiers, the file system,
  serde's text, \<open>size_of\<close>, hex, HMAC, SHA-256 and ed25519 are arguments of the definitions that use them.

  \<^bold>\<open>The host session.\<close>
  \<^item> \<open>Host_Protocol\<close>: \<open>protocol.rs\<close>, \<open>ids.rs\<close>, \<open>link.rs\<close>: envelopes, errors, identifiers, link sessions.
  \<^item> \<open>Bootstrap_Auth\<close>: \<open>auth.rs\<close>: the bootstrap payload and its file, challenge and proof. The file is destroyed
    once it was opened, whatever it held; one proof is accepted per transcript.
  \<^item> \<open>Method_Table\<close>: the \<open>METHODS\<close> table, row by row, and its lookups.
  \<^item> \<open>Host_Admission\<close>: \<open>HostPendingBudget\<close> and the window of recent request ids. The counters are exactly the
    budget of the requests in flight. The locale \<open>id_window\<close> is the contract of the window.
  \<^item> \<open>Dispatch_Lanes\<close>: \<open>HostDispatchLimits::acquire\<close> as the relation \<open>dispatch_step\<close> over all requests that are
    acquiring or running: no deadlock, and the barrier a local-data delete puts before its account's mutations.

  \<^bold>\<open>The store.\<close>
  \<^item> \<open>Store_Tables\<close>: the columns of messages, conversations and accounts that the modelled operations touch.
  \<^item> \<open>Send_Queue\<close>: settling, scheduling, claiming and retiring outgoing sends and the sweep at startup, in any
    order (\<open>send_reach\<close>): ceilings, disjoint claims, and an unknown outcome is never dispatched again.
  \<^item> \<open>Chat_State\<close>: inserting a message, badges, read watermarks and the expiry sweep.
  \<^item> \<open>Base64_Codec\<close>: \<open>base64_encode\<close> and \<open>base64_decode_to_vec\<close> of \<open>service.rs\<close>, inverse to each other.

  \<^bold>\<open>The engine.\<close>
  \<^item> \<open>Engine_Errors\<close>: \<open>EngineError\<close>, the matchers of the engine's error bodies and the cause literal.
  \<^item> \<open>Engine_Calls\<close>: the actor with its command queue, frame queue and pending map, and the callers with their
    timeouts and cancels (\<open>engine_step\<close>): answers reach the call they belong to, no call outlives the actor, and
    a mutating call that reached the engine's input never fails as if it had not.

  \<^bold>\<open>Receiving.\<close>
  \<^item> \<open>Receive_Text\<close>, \<open>Receive_Faces\<close>, \<open>Receive_Content\<close>, \<open>Receive_Route\<close>: \<open>normalize_receive\<close> of \<open>engine.rs\<close> with its
    readers, from the single fields up to the routing of the whole envelope. The one-line caps of the ladder
    are constants with the source's names.
  \<^item> \<open>Receive_Weight\<close>: \<open>estimated_bytes\<close> and a bound on the weight of each kind of receive, from the caps.
  \<^item> \<open>Receive_Ingress\<close>: \<open>ReceiveIngress::enqueue\<close> with its two waits, the consumer's side, and the composition
    of ladder, queue and actor for one line: which receives can stop an engine, and that permits are exact.
  \<^item> \<open>Receive_Persist\<close>: \<open>receive_persistence_loop\<close> over the same queue: receives are stored once and in order.

  \<^bold>\<open>Engines and files.\<close>
  \<^item> \<open>Account_Pool\<close>: \<open>pool.rs\<close>: discovery, provisioning, the resident window, demotion (\<open>pool_step\<close>).
  \<^item> \<open>Link_Flow\<close>: linking across \<open>service.rs\<close>, \<open>registry.rs\<close>, \<open>supervisor.rs\<close> and the pool (\<open>link_step\<close>): committed
    accounts survive every interleaving, and the window in which a commit is not yet protected.
  \<^item> \<open>Proxy_Groups\<close>: \<open>groups.rs\<close>, \<open>datalock.rs\<close> and \<open>SocksProxy::parse\<close>: the launch plan and its locks.
  \<^item> \<open>Chunk_Streams\<close>, \<open>Media_Handles\<close>, \<open>Backup_Handles\<close>: the two handle tables. The locales \<open>chunk_table\<close> and
    \<open>handle_table\<close> carry what a reader may rely on; \<open>mstream\<close> and \<open>bstream\<close> discharge their laws for the two
    tables, and the snapshot table refines the media table.
  \<^item> \<open>Runtime_Manifest\<close>: \<open>manifest.rs\<close>: which bundles a manifest admits, unsigned and signed.
  \<^item> \<open>Runtime_Lkg\<close>: \<open>lkg.rs\<close>, each operation as the list of its disk operations, of which a crash lets a prefix
    through (\<open>lkg_step\<close>): a replayed activation completes, a cut staging does not. The locale \<open>version_gate\<close> is what the layout needs of the manifest check; it is
    interpreted for the local and for the production policy.

  \<^bold>\<open>Bounds.\<close> All definitions are total. The recursions that are not structural (characters of a string, the cause
  scan, directory trees) have a measure. The only counted loops are a client reading a stream (\<open>stream_all\<close>), where
  \<open>size / MEDIA_CHUNK_BYTES + 1\<close> rounds are proved to be enough, and the loop over short reads in
  \<open>read_exact_range\<close>, where the list of granted reads is the argument. Queue capacities, ceilings and time limits are
  the source's constants, never smaller stand-ins.

  \<^bold>\<open>Not modelled.\<close>
  \<^item> The rest of \<open>store.rs\<close> and of \<open>service.rs\<close>: the SQL of reactions, edits, pins, polls, stories, contacts,
    groups and search, and the request handlers that validate arguments and forward them. They need the whole
    schema with SQLite's semantics. \<open>ingest_receive\<close>, the store's side of a receive, is therefore an argument of
    the persistence loop.
  \<^item> The rest of \<open>supervisor.rs\<close>, \<open>registry.rs\<close> and \<open>host.rs\<close>: spawning and watching processes, back-off, backfill
    and receipt workers, the socket loop and its writer.
  \<^item> \<open>history_import.rs\<close> (but its contact card reader, which the ladder shares) and \<open>history_attachment.rs\<close>: reading
    archives into tables that are not modelled, and a download through an HTTP client and a cipher.
  \<^item> The media governor of \<open>media.rs\<close> and the export writer of \<open>backup_export.rs\<close>: walks over directories and
    SQLite's backup interface.
  \<^item> \<open>migrate.rs\<close>: moving a legacy layout, file system calls around one store row per account.
  \<^item> \<open>parent.rs\<close>, \<open>resource.rs\<close>, \<open>ipc.rs\<close>, \<open>main.rs\<close>: process probes, memory samples, sockets and the command line.
  \<^item> \<open>metrics.rs\<close> (but its labels), \<open>perf_metrics.rs\<close>, \<open>doctor.rs\<close>: counters and reports that no decision reads.
\<close>

end
